(* ===== verification/Prelude.thy ===== *)
theory Prelude
  imports Main "HOL-Library.Word" "HOL-Library.Sublist"
begin

unbundle bit_operations_syntax

text \<open>
  The shared vocabulary of the development.

  \<^item> machine integers (\<open>u8\<close>, \<open>u16\<close>, \<open>u32\<close>, \<open>u64\<close>) as words of their width;
  \<^item> the three ways a Rust call ends: a value (\<open>Ok\<close>), an error value (\<open>Err\<close>), a panic
    (\<open>Panic\<close>: a failed bounds check, an \<open>unwrap\<close> of \<open>None\<close>, a faulting load);
  \<^item> programs over a mutable state: a function from the state to an outcome and the state left
    behind. The state survives an error, as a \<open>&mut\<close> argument does;
  \<^item> slice operations with Rust's bounds checks;
  \<^item> byte orders, with round trips proved bit by bit.
\<close>

section \<open>Collections of facts\<close>

named_theorems prog_simps \<open>unfolding rules for programs\<close>
named_theorems panic_free \<open>operations that cannot panic under a stated bound\<close>

section \<open>Machine integers\<close>

type_synonym u8 = "8 word"
type_synonym u16 = "16 word"
type_synonym u32 = "32 word"
type_synonym u64 = "64 word"
type_synonym i32 = "32 word"
type_synonym usize = "64 word"
type_synonym bytes = "u8 list"

lemma unat_u8_less: "unat (w :: u8) < 256"
proof -
  have "unat w < 2 ^ LENGTH(8)" by (rule unsigned_less)
  then show ?thesis by simp
qed

lemma unat_u16_less: "unat (w :: u16) < 65536"
proof -
  have "unat w < 2 ^ LENGTH(16)" by (rule unsigned_less)
  then show ?thesis by simp
qed

section \<open>Outcomes and programs\<close>

datatype ('e, 'a) outcome = Ok 'a | Err 'e | Panic

type_synonym ('s, 'e, 'a) prog = "'s \<Rightarrow> ('e, 'a) outcome \<times> 's"

definition ret :: "'a \<Rightarrow> ('s, 'e, 'a) prog" where
  "ret a s = (Ok a, s)"

definition raise :: "'e \<Rightarrow> ('s, 'e, 'a) prog" where
  "raise e s = (Err e, s)"

definition panic :: "('s, 'e, 'a) prog" where
  "panic s = (Panic, s)"

definition bindM :: "('s, 'e, 'a) prog \<Rightarrow> ('a \<Rightarrow> ('s, 'e, 'b) prog) \<Rightarrow> ('s, 'e, 'b) prog" where
  "bindM m f s = (case m s of (Ok a, s') \<Rightarrow> f a s' | (Err e, s') \<Rightarrow> (Err e, s') | (Panic, s') \<Rightarrow> (Panic, s'))"

definition modify :: "('s \<Rightarrow> 's) \<Rightarrow> ('s, 'e, unit) prog" where
  "modify f s = (Ok (), f s)"

definition on_field :: "('s \<Rightarrow> 'f) \<Rightarrow> (('f \<Rightarrow> 'f) \<Rightarrow> 's \<Rightarrow> 's) \<Rightarrow> ('f, 'e, 'a) prog \<Rightarrow> ('s, 'e, 'a) prog" where
  "on_field sel upd p s = (case p (sel s) of (r, x) \<Rightarrow> (r, upd (\<lambda>_. x) s))"

definition lift_outcome :: "('e, 'a) outcome \<Rightarrow> ('s, 'e, 'a) prog" where
  "lift_outcome r s = (r, s)"

lemmas prog_defs [prog_simps] =
  ret_def raise_def panic_def bindM_def modify_def on_field_def lift_outcome_def

lemma bindM_Ok [simp]: "m s = (Ok a, s') \<Longrightarrow> bindM m f s = f a s'"
  by (simp add: bindM_def)

lemma bindM_Err [simp]: "m s = (Err e, s') \<Longrightarrow> bindM m f s = (Err e, s')"
  by (simp add: bindM_def)

lemma bindM_Panic [simp]: "m s = (Panic, s') \<Longrightarrow> bindM m f s = (Panic, s')"
  by (simp add: bindM_def)

lemma bindM_eq_OkE:
  assumes "bindM m f s = (Ok b, t)"
  obtains a s' where "m s = (Ok a, s')" and "f a s' = (Ok b, t)"
  using assms by (auto simp: bindM_def split: prod.splits outcome.splits)

lemma bindM_eq_ErrE:
  assumes "bindM m f s = (Err e, t)"
  obtains "m s = (Err e, t)" | a s' where "m s = (Ok a, s')" and "f a s' = (Err e, t)"
  using assms by (auto simp: bindM_def split: prod.splits outcome.splits)

lemma bindM_eq_PanicE:
  assumes "bindM m f s = (Panic, t)"
  obtains "m s = (Panic, t)" | a s' where "m s = (Ok a, s')" and "f a s' = (Panic, t)"
  using assms by (auto simp: bindM_def split: prod.splits outcome.splits)

lemma bindM_assoc: "bindM (bindM m f) g s = bindM m (\<lambda>a. bindM (f a) g) s"
  by (simp add: bindM_def split: prod.splits outcome.splits)

section \<open>Rust slices\<close>

definition slice_to :: "nat \<Rightarrow> 'a list \<Rightarrow> ('s, 'e, 'a list) prog" where
  "slice_to n xs = (if n \<le> length xs then ret (take n xs) else panic)"

definition slice_from :: "nat \<Rightarrow> 'a list \<Rightarrow> ('s, 'e, 'a list) prog" where
  "slice_from n xs = (if n \<le> length xs then ret (drop n xs) else panic)"

definition slice_range :: "nat \<Rightarrow> nat \<Rightarrow> 'a list \<Rightarrow> ('s, 'e, 'a list) prog" where
  "slice_range a b xs = (if a \<le> b \<and> b \<le> length xs then ret (take (b - a) (drop a xs)) else panic)"

definition index_at :: "nat \<Rightarrow> 'a list \<Rightarrow> ('s, 'e, 'a) prog" where
  "index_at i xs = (if i < length xs then ret (xs ! i) else panic)"

lemma slice_to_ok [simp]: "n \<le> length xs \<Longrightarrow> slice_to n xs = ret (take n xs)"
  by (simp add: slice_to_def)

lemma slice_from_ok [simp]: "n \<le> length xs \<Longrightarrow> slice_from n xs = ret (drop n xs)"
  by (simp add: slice_from_def)

lemma slice_range_ok [simp]:
  "a \<le> b \<Longrightarrow> b \<le> length xs \<Longrightarrow> slice_range a b xs = ret (take (b - a) (drop a xs))"
  by (simp add: slice_range_def)

lemma index_at_ok [simp]: "i < length xs \<Longrightarrow> index_at i xs = ret (xs ! i)"
  by (simp add: index_at_def)

lemma bindM_ret [simp]: "bindM (ret a) f = f a"
  by (simp add: fun_eq_iff bindM_def ret_def)

lemma bindM_raise [simp]: "bindM (raise e) f = raise e"
  by (simp add: fun_eq_iff bindM_def raise_def)

lemma bindM_panic [simp]: "bindM panic f = panic"
  by (simp add: fun_eq_iff bindM_def panic_def)

lemma bindM_modify [simp]: "bindM (modify g) f s = f () (g s)"
  by (simp add: bindM_def modify_def)

section \<open>Byte orders\<close>

text \<open>\<open>le_bytes n w\<close> is the little-endian memory image of \<open>w\<close> in \<open>n\<close> bytes and \<open>of_le\<close> reads
  one back; the big-endian forms reverse the bytes.\<close>

definition le_bytes :: "nat \<Rightarrow> 'a::len word \<Rightarrow> bytes" where
  "le_bytes n w = map (\<lambda>i. ucast (drop_bit (8 * i) w)) [0..<n]"

fun of_le :: "bytes \<Rightarrow> 'a::len word" where
  "of_le [] = 0"
| "of_le (b # bs) = ucast b OR push_bit 8 (of_le bs)"

definition be_bytes :: "nat \<Rightarrow> 'a::len word \<Rightarrow> bytes" where
  "be_bytes n w = rev (le_bytes n w)"

definition of_be :: "bytes \<Rightarrow> 'a::len word" where
  "of_be bs = of_le (rev bs)"

lemma length_le_bytes [simp]: "length (le_bytes n w) = n"
  by (simp add: le_bytes_def)

lemma length_be_bytes [simp]: "length (be_bytes n w) = n"
  by (simp add: be_bytes_def)

lemma bit_of_le:
  "bit (of_le bs :: 'a::len word) i \<longleftrightarrow>
     i < LENGTH('a) \<and> i div 8 < length bs \<and> bit (bs ! (i div 8)) (i mod 8)"
proof (induction bs arbitrary: i)
  case Nil
  then show ?case by simp
next
  case (Cons b bs)
  show ?case
  proof (cases "i < 8")
    case True
    then show ?thesis
      by (auto simp: bit_or_iff bit_push_bit_iff bit_ucast_iff dest: bit_imp_le_length)
  next
    case False
    then have sub: "(i - 8) div 8 = i div 8 - 1" "(i - 8) mod 8 = i mod 8" and pos: "0 < i div 8"
      by (simp_all add: le_div_geq le_mod_geq)
    have "\<not> bit (ucast b :: 'a word) i"
      using False by (auto simp: bit_ucast_iff dest: bit_imp_le_length)
    with False sub pos Cons.IH [of "i - 8"] show ?thesis
      by (auto simp: bit_or_iff bit_push_bit_iff nth_Cons split: nat.splits)
  qed
qed

lemma bit_le_bytes:
  "j < n \<Longrightarrow> bit (le_bytes n (w :: 'a::len word) ! j) k \<longleftrightarrow> k < 8 \<and> bit w (8 * j + k)"
  by (auto simp: le_bytes_def bit_ucast_iff bit_drop_bit_eq dest: bit_imp_le_length)

lemma of_le_le_bytes [simp]:
  assumes "LENGTH('a) \<le> 8 * n"
  shows "of_le (le_bytes n (w :: 'a::len word)) = w"
proof (rule bit_word_eqI)
  fix i assume i: "i < LENGTH('a)"
  with assms have "i div 8 < n" by simp
  with i show "bit (of_le (le_bytes n w) :: 'a word) i = bit w i"
    by (simp add: bit_of_le bit_le_bytes)
qed

lemma le_bytes_of_le [simp]:
  assumes "8 * length bs \<le> LENGTH('a)"
  shows "le_bytes (length bs) (of_le bs :: 'a::len word) = bs"
proof (rule nth_equalityI)
  show "length (le_bytes (length bs) (of_le bs :: 'a word)) = length bs" by simp
next
  fix j assume "j < length (le_bytes (length bs) (of_le bs :: 'a word))"
  then have j: "j < length bs" by simp
  show "le_bytes (length bs) (of_le bs :: 'a word) ! j = bs ! j"
  proof (rule bit_word_eqI)
    fix k assume k: "k < LENGTH(8)"
    with j assms have "8 * j + k < LENGTH('a)" by simp
    with j k show "bit (le_bytes (length bs) (of_le bs :: 'a word) ! j) k = bit (bs ! j) k"
      by (simp add: bit_le_bytes bit_of_le)
  qed
qed

lemma of_be_be_bytes [simp]:
  "LENGTH('a) \<le> 8 * n \<Longrightarrow> of_be (be_bytes n (w :: 'a::len word)) = w"
  by (simp add: of_be_def be_bytes_def)

lemma be_bytes_of_be [simp]:
  "8 * length bs \<le> LENGTH('a) \<Longrightarrow> be_bytes (length bs) (of_be bs :: 'a::len word) = bs"
  by (metis be_bytes_def le_bytes_of_le length_rev of_be_def rev_rev_ident)

section \<open>Lists\<close>

lemma take_drop_append_same:
  "take n xs = take n ys \<Longrightarrow> m + k \<le> n \<Longrightarrow> take k (drop m xs) = take k (drop m ys)"
  by (metis (no_types, opaque_lifting) add.commute take_drop take_take min.absorb1)

lemma nth_eq_of_take_eq: "take n xs = take n ys \<Longrightarrow> i < n \<Longrightarrow> xs ! i = ys ! i"
  by (metis nth_take)

lemma list_split_at: "n \<le> length xs \<Longrightarrow> \<exists>ys zs. xs = ys @ zs \<and> length ys = n"
  by (metis append_take_drop_id length_take min.absorb2)

end
