(* ===== verification/Common.thy ===== *)
theory Common
  imports Prelude
begin

text \<open>
  The crate shared by the kernel and the daemon (\<open>cilium-mini-common/src/lib.rs\<close>): the raw
  address \<open>RawIpAddr\<close>, the raw event \<open>RawDnsEvent\<close>, their constructors, the word-wise copy
  \<open>write_to\<close> and their C layout. Structs cross the kernel boundary as bytes, so each has its
  memory image (little-endian, the layout of \<open>repr(C, align(8))\<close>) and a reader of it; the locale
  \<open>pod\<close> states what the two sides rely on (\<open>aya::Pod\<close>) and is interpreted on both structs.
  Array fields are lists; \<open>wf_ip\<close> and \<open>wf_event\<close> say that they have the length of their type.
\<close>

section \<open>Constants and structs\<close>

definition RING_BUF_NAME :: string where
  "RING_BUF_NAME = ''DNS_EVENTS_PIPE''"

definition HASH_MAP_NAME :: string where
  "HASH_MAP_NAME = ''ALLOWED_IP_MAP''"

definition AF_INET :: u32 where
  "AF_INET = 2"

definition AF_INET6 :: u32 where
  "AF_INET6 = 10"

definition MAX_DNS_PAYLOAD_SIZE :: nat where
  "MAX_DNS_PAYLOAD_SIZE = 512"

record RawIpAddr =
  ia_bytes :: bytes
  ia_family :: u32
  ia_pad :: u32

definition from_ipv4 :: "bytes \<Rightarrow> RawIpAddr" where
  "from_ipv4 addr =
     \<lparr>ia_bytes = [addr ! 0, addr ! 1, addr ! 2, addr ! 3, 0, 0, 0, 0, 0, 0, 0, 0, 0, 0, 0, 0],
      ia_family = AF_INET, ia_pad = 0\<rparr>"

definition from_ipv6 :: "bytes \<Rightarrow> RawIpAddr" where
  "from_ipv6 addr = \<lparr>ia_bytes = addr, ia_family = AF_INET6, ia_pad = 0\<rparr>"

definition default_RawIpAddr :: RawIpAddr where
  "default_RawIpAddr = \<lparr>ia_bytes = replicate 16 0, ia_family = 0, ia_pad = 0\<rparr>"

record RawDnsEvent =
  ev_src_ip :: RawIpAddr
  ev_dst_ip :: RawIpAddr
  ev_src_port :: u16
  ev_dst_port :: u16
  ev_pad :: u16
  ev_payload_len :: u16
  ev_timestamp_ns :: u64
  ev_payload :: bytes

definition default_RawDnsEvent :: RawDnsEvent where
  "default_RawDnsEvent =
     \<lparr>ev_src_ip = default_RawIpAddr, ev_dst_ip = default_RawIpAddr,
      ev_src_port = 0, ev_dst_port = 0, ev_pad = 0, ev_payload_len = 0,
      ev_timestamp_ns = 0, ev_payload = replicate MAX_DNS_PAYLOAD_SIZE 0\<rparr>"

definition wf_ip :: "RawIpAddr \<Rightarrow> bool" where
  "wf_ip a \<longleftrightarrow> length (ia_bytes a) = 16"

definition wf_event :: "RawDnsEvent \<Rightarrow> bool" where
  "wf_event ev \<longleftrightarrow> wf_ip (ev_src_ip ev) \<and> wf_ip (ev_dst_ip ev)
     \<and> length (ev_payload ev) = MAX_DNS_PAYLOAD_SIZE"

section \<open>Memory images\<close>

definition ip_to_bytes :: "RawIpAddr \<Rightarrow> bytes" where
  "ip_to_bytes a = ia_bytes a @ le_bytes 4 (ia_family a) @ le_bytes 4 (ia_pad a)"

definition ip_of_bytes :: "bytes \<Rightarrow> RawIpAddr" where
  "ip_of_bytes bs =
     \<lparr>ia_bytes = take 16 bs, ia_family = of_le (take 4 (drop 16 bs)),
      ia_pad = of_le (take 4 (drop 20 bs))\<rparr>"

definition event_to_bytes :: "RawDnsEvent \<Rightarrow> bytes" where
  "event_to_bytes ev =
     ip_to_bytes (ev_src_ip ev) @ ip_to_bytes (ev_dst_ip ev)
     @ le_bytes 2 (ev_src_port ev) @ le_bytes 2 (ev_dst_port ev)
     @ le_bytes 2 (ev_pad ev) @ le_bytes 2 (ev_payload_len ev)
     @ le_bytes 8 (ev_timestamp_ns ev) @ ev_payload ev"

definition event_of_bytes :: "bytes \<Rightarrow> RawDnsEvent" where
  "event_of_bytes bs =
     \<lparr>ev_src_ip = ip_of_bytes (take 24 bs), ev_dst_ip = ip_of_bytes (take 24 (drop 24 bs)),
      ev_src_port = of_le (take 2 (drop 48 bs)), ev_dst_port = of_le (take 2 (drop 50 bs)),
      ev_pad = of_le (take 2 (drop 52 bs)), ev_payload_len = of_le (take 2 (drop 54 bs)),
      ev_timestamp_ns = of_le (take 8 (drop 56 bs)), ev_payload = drop 64 bs\<rparr>"

text \<open>A struct seen through a \<open>*mut u64\<close>: its bytes, eight at a time.\<close>

definition words_of :: "bytes \<Rightarrow> u64 list" where
  "words_of bs = map (\<lambda>i. of_le (take 8 (drop (8 * i) bs))) [0..<length bs div 8]"

definition bytes_of_words :: "u64 list \<Rightarrow> bytes" where
  "bytes_of_words ws = concat (map (le_bytes 8) ws)"

definition write_to :: "RawIpAddr \<Rightarrow> RawIpAddr \<Rightarrow> RawIpAddr" where
  "write_to self dst =
     (let s = words_of (ip_to_bytes self); d = words_of (ip_to_bytes dst)
      in ip_of_bytes (bytes_of_words (((d[0 := s ! 0])[1 := s ! 1])[2 := s ! 2])))"

section \<open>The C layout\<close>

text \<open>Sizes and offsets as \<open>repr(C)\<close> computes them: every field at the next multiple of its
  alignment, the size rounded up to the alignment of the whole.\<close>

datatype ctype = CPrim nat | CArray nat ctype | CStruct nat "ctype list"

definition round_up :: "nat \<Rightarrow> nat \<Rightarrow> nat" where
  "round_up a n = (n + a - 1) div a * a"

fun align_of :: "ctype \<Rightarrow> nat" where
  "align_of (CPrim n) = n"
| "align_of (CArray n t) = align_of t"
| "align_of (CStruct a ts) = foldr (\<lambda>t m. max (align_of t) m) ts a"

fun size_of :: "ctype \<Rightarrow> nat" where
  "size_of (CPrim n) = n"
| "size_of (CArray n t) = n * size_of t"
| "size_of (CStruct a ts) =
     round_up (align_of (CStruct a ts)) (fold (\<lambda>t off. round_up (align_of t) off + size_of t) ts 0)"

fun field_offsets :: "nat \<Rightarrow> ctype list \<Rightarrow> nat list" where
  "field_offsets off [] = []"
| "field_offsets off (t # ts) =
     (let o' = round_up (align_of t) off in o' # field_offsets (o' + size_of t) ts)"

definition RawIpAddr_layout :: ctype where
  "RawIpAddr_layout = CStruct 8 [CArray 16 (CPrim 1), CPrim 4, CPrim 4]"

definition RawDnsEvent_layout :: ctype where
  "RawDnsEvent_layout =
     CStruct 8 [RawIpAddr_layout, RawIpAddr_layout, CPrim 2, CPrim 2, CPrim 2, CPrim 2,
       CPrim 8, CArray MAX_DNS_PAYLOAD_SIZE (CPrim 1)]"

lemmas layout_defs = RawIpAddr_layout_def RawDnsEvent_layout_def round_up_def MAX_DNS_PAYLOAD_SIZE_def

lemma size_RawIpAddr: "size_of RawIpAddr_layout = 24"
  by (simp add: layout_defs)

lemma align_RawIpAddr: "align_of RawIpAddr_layout = 8"
  by (simp add: layout_defs)

lemma size_RawDnsEvent: "size_of RawDnsEvent_layout = 576"
  by (simp add: layout_defs)

section \<open>Plain old data\<close>

text \<open>The contract of a struct that crosses the boundary as bytes: a fixed size, every
  well-formed value has exactly one image, and every byte string of that size is a value.\<close>

locale pod =
  fixes to_bytes :: "'a \<Rightarrow> bytes"
    and of_bytes :: "bytes \<Rightarrow> 'a"
    and size_b :: nat
    and wf :: "'a \<Rightarrow> bool"
  assumes length_image: "wf a \<Longrightarrow> length (to_bytes a) = size_b"
    and of_to: "wf a \<Longrightarrow> of_bytes (to_bytes a) = a"
    and to_of: "length bs = size_b \<Longrightarrow> to_bytes (of_bytes bs) = bs"
    and wf_of: "length bs = size_b \<Longrightarrow> wf (of_bytes bs)"
begin

lemma image_inj: "wf a \<Longrightarrow> wf b \<Longrightarrow> to_bytes a = to_bytes b \<longleftrightarrow> a = b"
  by (metis of_to)

lemma image_surj: "length bs = size_b \<Longrightarrow> \<exists>a. wf a \<and> to_bytes a = bs"
  using to_of wf_of by blast

end

text \<open>A struct whose size is a whole number of 64-bit words survives a word-wise copy.\<close>

lemma words_roundtrip: "8 dvd length bs \<Longrightarrow> bytes_of_words (words_of bs) = bs"
proof -
  have "concat (map (\<lambda>i. take 8 (drop (8 * i) xs)) [0..<n]) = xs" if "length xs = 8 * n"
    for n and xs :: bytes
    using that
  proof (induction n arbitrary: xs)
    case 0
    then show ?case by simp
  next
    case (Suc n)
    have "map (\<lambda>i. take 8 (drop (8 * i) xs)) [0..<Suc n]
        = take 8 xs # map (\<lambda>i. take 8 (drop (8 * i) (drop 8 xs))) [0..<n]"
      by (simp add: map_upt_Suc add.commute del: upt_Suc)
    with Suc.IH [of "drop 8 xs"] Suc.prems show ?case by simp
  qed
  note chunks = this
  assume "8 dvd length bs"
  then obtain n where n: "length bs = 8 * n" by blast
  have "le_bytes 8 (of_le (take 8 (drop (8 * i) bs)) :: u64) = take 8 (drop (8 * i) bs)"
    if "i < n" for i
    using le_bytes_of_le [of "take 8 (drop (8 * i) bs)", where 'a = 64] that n by simp
  then have "map (le_bytes 8) (words_of bs) = map (\<lambda>i. take 8 (drop (8 * i) bs)) [0..<n]"
    using n by (simp add: words_of_def)
  then show ?thesis
    using chunks [OF n] by (simp add: bytes_of_words_def)
qed

locale pod_words = pod +
  assumes whole_words: "8 dvd size_b"
begin

lemma word_copy: "wf a \<Longrightarrow> of_bytes (bytes_of_words (words_of (to_bytes a))) = a"
  using whole_words by (simp add: words_roundtrip length_image of_to)

end

lemma of_le_take [simp]: "LENGTH('a) \<le> 8 * n \<Longrightarrow> of_le (take n (le_bytes n (w :: 'a::len word))) = w"
  by simp

lemma le_of_take:
  "length bs = n \<Longrightarrow> 8 * n \<le> LENGTH('a) \<Longrightarrow> le_bytes n (of_le bs :: 'a::len word) = bs"
  using le_bytes_of_le by blast

interpretation raw_ip: pod_words ip_to_bytes ip_of_bytes 24 wf_ip
proof unfold_locales
  fix a assume "wf_ip a"
  then show "length (ip_to_bytes a) = 24" and "ip_of_bytes (ip_to_bytes a) = a"
    by (simp_all add: ip_to_bytes_def ip_of_bytes_def wf_ip_def)
next
  fix bs :: bytes assume bs: "length bs = 24"
  show "ip_to_bytes (ip_of_bytes bs) = bs"
    using bs append_take_drop_id [of 16 bs] append_take_drop_id [of 4 "drop 16 bs"]
    by (simp add: ip_to_bytes_def ip_of_bytes_def le_of_take)
  show "wf_ip (ip_of_bytes bs)"
    using bs by (simp add: ip_of_bytes_def wf_ip_def)
qed simp

lemma split_event_image:
  assumes "length bs = 576"
  shows "take 24 bs @ take 24 (drop 24 bs) @ take 2 (drop 48 bs) @ take 2 (drop 50 bs)
    @ take 2 (drop 52 bs) @ take 2 (drop 54 bs) @ take 8 (drop 56 bs) @ drop 64 bs = bs"
proof -
  have cut: "take n (drop m bs) @ drop (m + n) bs = drop m bs" for m n
    by (metis append_take_drop_id drop_drop add.commute)
  show ?thesis
    using cut [of 24 24] cut [of 2 48] cut [of 2 50] cut [of 2 52] cut [of 2 54] cut [of 8 56]
    by simp
qed

interpretation raw_event: pod_words event_to_bytes event_of_bytes 576 wf_event
proof unfold_locales
  fix a assume a: "wf_event a"
  then have ip: "length (ip_to_bytes (ev_src_ip a)) = 24" "length (ip_to_bytes (ev_dst_ip a)) = 24"
    by (simp_all add: wf_event_def raw_ip.length_image)
  with a show "length (event_to_bytes a) = 576" and "event_of_bytes (event_to_bytes a) = a"
    by (simp_all add: event_to_bytes_def event_of_bytes_def wf_event_def raw_ip.of_to
        MAX_DNS_PAYLOAD_SIZE_def)
next
  fix bs :: bytes assume bs: "length bs = 576"
  show "event_to_bytes (event_of_bytes bs) = bs"
    using bs split_event_image [OF bs]
    by (simp add: event_to_bytes_def event_of_bytes_def le_of_take raw_ip.to_of)
  show "wf_event (event_of_bytes bs)"
    using bs by (simp add: event_of_bytes_def wf_event_def raw_ip.wf_of MAX_DNS_PAYLOAD_SIZE_def)
qed simp

section \<open>Properties\<close>

lemma wf_from_ipv4 [simp]: "wf_ip (from_ipv4 addr)"
  by (simp add: wf_ip_def from_ipv4_def)

lemma wf_from_ipv6 [simp]: "wf_ip (from_ipv6 addr) \<longleftrightarrow> length addr = 16"
  by (simp add: wf_ip_def from_ipv6_def)

lemma wf_default_event [simp]: "wf_event default_RawDnsEvent"
  by (simp add: wf_event_def default_RawDnsEvent_def wf_ip_def default_RawIpAddr_def)

text \<open>The three word copies of \<open>write_to\<close> cover the struct.\<close>

lemma write_to_copies:
  assumes "wf_ip self" and "wf_ip dst"
  shows "write_to self dst = self"
proof -
  let ?s = "words_of (ip_to_bytes self)" and ?d = "words_of (ip_to_bytes dst)"
  have len: "length ?s = 3" "length ?d = 3"
    using assms by (simp_all add: words_of_def raw_ip.length_image)
  have "((?d[0 := ?s ! 0])[1 := ?s ! 1])[2 := ?s ! 2] = ?s"
    using len by (intro nth_equalityI) (auto simp: nth_list_update less_Suc_eq numeral_3_eq_3)
  then show ?thesis
    using raw_ip.word_copy [OF assms(1)] by (simp add: write_to_def Let_def)
qed

text \<open>C29. The event's layout is the one both sides of the boundary use: 576 bytes, every field at the
  offset that \<open>repr(C, align(8))\<close> gives it with no padding between fields, and a reader of those bytes
  gets the event back. (A comment in the classifier says 568 bytes.)\<close>

theorem event_image_layout:
  assumes "wf_event ev"
  shows "size_of RawDnsEvent_layout = 576 \<and> align_of RawDnsEvent_layout = 8
    \<and> length (event_to_bytes ev) = size_of RawDnsEvent_layout
    \<and> field_offsets 0 [RawIpAddr_layout, RawIpAddr_layout, CPrim 2, CPrim 2, CPrim 2, CPrim 2, CPrim 8,
        CArray MAX_DNS_PAYLOAD_SIZE (CPrim 1)] = [0, 24, 48, 50, 52, 54, 56, 64]
    \<and> take 24 (drop 24 (event_to_bytes ev)) = ip_to_bytes (ev_dst_ip ev)
    \<and> take 2 (drop 54 (event_to_bytes ev)) = le_bytes 2 (ev_payload_len ev)
    \<and> take 8 (drop 56 (event_to_bytes ev)) = le_bytes 8 (ev_timestamp_ns ev)
    \<and> drop 64 (event_to_bytes ev) = ev_payload ev
    \<and> event_of_bytes (event_to_bytes ev) = ev"
proof -
  have ip: "length (ip_to_bytes (ev_src_ip ev)) = 24" "length (ip_to_bytes (ev_dst_ip ev)) = 24"
    using assms by (simp_all add: wf_event_def raw_ip.length_image)
  have "take 24 (drop 24 (event_to_bytes ev)) = ip_to_bytes (ev_dst_ip ev)"
    "take 2 (drop 54 (event_to_bytes ev)) = le_bytes 2 (ev_payload_len ev)"
    "take 8 (drop 56 (event_to_bytes ev)) = le_bytes 8 (ev_timestamp_ns ev)"
    "drop 64 (event_to_bytes ev) = ev_payload ev"
    by (simp_all add: event_to_bytes_def ip)
  moreover have "align_of RawDnsEvent_layout = 8"
    "field_offsets 0 [RawIpAddr_layout, RawIpAddr_layout, CPrim 2, CPrim 2, CPrim 2, CPrim 2, CPrim 8,
        CArray MAX_DNS_PAYLOAD_SIZE (CPrim 1)] = [0, 24, 48, 50, 52, 54, 56, 64]"
    by (simp_all add: layout_defs)
  ultimately show ?thesis
    using assms by (simp add: size_RawDnsEvent raw_event.length_image raw_event.of_to)
qed

theorem event_image_layout_witness:
  "length (event_to_bytes default_RawDnsEvent) = 576
   \<and> event_of_bytes (event_to_bytes default_RawDnsEvent) = default_RawDnsEvent"
  using event_image_layout [OF wf_default_event] by simp

end
