(* ===== verification/Ip_Fmt.thy ===== *)
theory Ip_Fmt
  imports Prelude
begin

text \<open>
  The parts of the Rust standard library that turn addresses into text: the integer formats
  \<open>{}\<close> and \<open>{:x}\<close>, \<open>Display for Ipv4Addr\<close> (dotted decimal) and \<open>Display for Ipv6Addr\<close>
  (the longest run of zero segments shortened to \<open>::\<close>, IPv4-mapped addresses printed with a dotted
  tail). They have no source under \<open>src/\<close>; \<open>parser.rs\<close> calls them through \<open>write!\<close>. The lemmas
  show what the parser's output relies on: number formats and joins can be read back, so an IPv4
  text determines the address.
\<close>

section \<open>Joining text\<close>

fun join :: "string \<Rightarrow> string list \<Rightarrow> string" where
  "join sep [] = []"
| "join sep [x] = x"
| "join sep (x # y # xs) = x @ sep @ join sep (y # xs)"

lemma join_Cons: "xs \<noteq> [] \<Longrightarrow> join sep (x # xs) = x @ sep @ join sep xs"
  by (cases xs) simp_all

lemma join_snoc: "xs \<noteq> [] \<Longrightarrow> join sep (xs @ [x]) = join sep xs @ sep @ x"
proof (induction xs)
  case Nil
  then show ?case by simp
next
  case (Cons y ys)
  then show ?case by (cases ys) simp_all
qed

section \<open>Splitting at a separator\<close>

fun split_on :: "'a \<Rightarrow> 'a list \<Rightarrow> 'a list list" where
  "split_on c [] = [[]]"
| "split_on c (x # xs) =
     (if x = c then [] # split_on c xs else (x # hd (split_on c xs)) # tl (split_on c xs))"

lemma split_on_nonempty [simp]: "split_on c s \<noteq> []"
  by (cases s) auto

lemma length_split_on: "length (split_on c s) = Suc (count_list s c)"
  by (induction s) auto

lemma split_on_free: "c \<notin> set s \<Longrightarrow> split_on c s = [s]"
  by (induction s) auto

lemma split_on_sep: "c \<notin> set p \<Longrightarrow> split_on c (p @ c # s) = p # split_on c s"
  by (induction p) auto

lemma split_on_append: "split_on c (p @ c # s) = split_on c p @ split_on c s"
  by (induction p) auto

lemma split_on_join:
  "xs \<noteq> [] \<Longrightarrow> \<forall>x \<in> set xs. c \<notin> set x \<Longrightarrow> split_on c (join [c] xs) = xs"
proof (induction xs)
  case (Cons x xs)
  then show ?case by (cases "xs = []") (simp_all add: split_on_free join_Cons split_on_sep)
qed simp

lemma join_split_on: "join [c] (split_on c s) = s"
proof (induction s)
  case (Cons x s)
  obtain y ys where "split_on c s = y # ys" by (cases "split_on c s") simp_all
  with Cons show ?case by (cases ys) (auto simp: join_Cons)
qed simp

lemma split_on_parts: "p \<in> set (split_on c s) \<Longrightarrow> c \<notin> set p"
proof (induction s arbitrary: p)
  case (Cons x s)
  obtain y ys where "split_on c s = y # ys" by (cases "split_on c s") simp_all
  with Cons show ?case by (auto split: if_splits)
qed simp

lemma split_on_map: "\<forall>x \<in> set s. f x = f c \<longleftrightarrow> x = c \<Longrightarrow> split_on (f c) (map f s) = map (map f) (split_on c s)"
proof (induction s)
  case (Cons x s)
  obtain y ys where "split_on c s = y # ys" by (cases "split_on c s") simp_all
  with Cons show ?case by auto
qed simp

text \<open>Joining joined texts is joining all the parts.\<close>

lemma join_append: "xs \<noteq> [] \<Longrightarrow> ys \<noteq> [] \<Longrightarrow> join sep (xs @ ys) = join sep xs @ sep @ join sep ys"
proof (induction xs)
  case (Cons x xs)
  then show ?case by (cases "xs = []") (simp_all add: join_Cons)
qed simp

lemma join_concat: "[] \<notin> set xss \<Longrightarrow> join sep (concat xss) = join sep (map (join sep) xss)"
proof (induction xss)
  case (Cons xs xss)
  show ?case
  proof (cases xss)
    case (Cons ys yss)
    with \<open>[] \<notin> set (xs # xss)\<close> have "xs \<noteq> []" "concat xss \<noteq> []" by auto
    with Cons.IH Cons.prems \<open>xss = ys # yss\<close> show ?thesis by (simp add: join_append join_Cons)
  qed simp
qed simp

lemma join_inject:
  assumes "join [c] xs = join [c] ys" and "xs \<noteq> []" and "ys \<noteq> []"
    and "\<forall>x \<in> set xs. c \<notin> set x" and "\<forall>y \<in> set ys. c \<notin> set y"
  shows "xs = ys"
  using assms by (metis split_on_join)

section \<open>Integer formats\<close>

definition digit_char :: "nat \<Rightarrow> char" where
  "digit_char d = (if d < 10 then char_of (48 + d) else char_of (87 + d))"

definition char_digit :: "char \<Rightarrow> nat" where
  "char_digit c = (let k = of_char c :: nat in if k < 58 then k - 48 else k - 87)"

fun fmt_radix :: "nat \<Rightarrow> nat \<Rightarrow> string" where
  "fmt_radix r n =
     (if r < 2 \<or> n < r then [digit_char n] else fmt_radix r (n div r) @ [digit_char (n mod r)])"

declare fmt_radix.simps [simp del]

definition read_radix :: "nat \<Rightarrow> string \<Rightarrow> nat" where
  "read_radix r s = foldl (\<lambda>acc c. acc * r + char_digit c) 0 s"

lemma char_digit_digit_char: "d < 36 \<Longrightarrow> char_digit (digit_char d) = d"
  by (simp add: char_digit_def digit_char_def)

lemma read_fmt_radix:
  assumes "2 \<le> r" and "r \<le> 36"
  shows "read_radix r (fmt_radix r n) = n"
proof (induction n rule: less_induct)
  case (less n)
  show ?case
  proof (cases "n < r")
    case True
    then show ?thesis using assms
      by (simp add: fmt_radix.simps [of r n] read_radix_def char_digit_digit_char)
  next
    case False
    with assms have "n div r < n" by simp
    then have "read_radix r (fmt_radix r (n div r)) = n div r" by (rule less.IH)
    moreover have "n mod r < 36" using assms by (metis less_le_trans mod_less_divisor
        less_le_trans zero_less_numeral)
    ultimately show ?thesis using False assms
      by (simp add: fmt_radix.simps [of r n] read_radix_def char_digit_digit_char)
  qed
qed

lemma fmt_radix_inject: "2 \<le> r \<Longrightarrow> r \<le> 36 \<Longrightarrow> fmt_radix r m = fmt_radix r n \<longleftrightarrow> m = n"
  by (metis read_fmt_radix)

lemma fmt_radix_nonempty [simp]: "fmt_radix r n \<noteq> []"
  by (simp add: fmt_radix.simps [of r n])

lemma digit_char_range: "d < 10 \<Longrightarrow> of_char (digit_char d) \<in> {48..57::nat}"
  by (simp add: digit_char_def)

lemma fmt_decimal_digits: "c \<in> set (fmt_radix 10 n) \<Longrightarrow> of_char c \<in> {48..57::nat}"
proof (induction n rule: less_induct)
  case (less n)
  show ?case
  proof (cases "n < 10")
    case True
    with less.prems show ?thesis
      using digit_char_range by (auto simp: fmt_radix.simps [of 10 n])
  next
    case False
    then have "n div 10 < n" by simp
    with False less.prems less.IH [of "n div 10"] show ?thesis
      using digit_char_range [of "n mod 10"] by (auto simp: fmt_radix.simps [of 10 n])
  qed
qed

lemma dot_not_decimal: "CHR ''.'' \<notin> set (fmt_radix 10 n)"
  using fmt_decimal_digits [of "CHR ''.''" n] by auto

lemma fmt_decimal_length: "n < 1000 \<Longrightarrow> length (fmt_radix 10 n) \<le> 3"
  by (simp add: fmt_radix.simps [of 10 n] fmt_radix.simps [of 10 "n div 10"]
      fmt_radix.simps [of 10 "n div 10 div 10"])

lemma fmt_hex_length: "n < 65536 \<Longrightarrow> length (fmt_radix 16 n) \<le> 4"
  by (simp add: fmt_radix.simps [of 16 n] fmt_radix.simps [of 16 "n div 16"]
      fmt_radix.simps [of 16 "n div 16 div 16"] fmt_radix.simps [of 16 "n div 16 div 16 div 16"])

section \<open>IPv4\<close>

definition ipv4_display :: "bytes \<Rightarrow> string" where
  "ipv4_display octets = join ''.'' (map (\<lambda>b. fmt_radix 10 (unat b)) octets)"

lemma ipv4_display_inject:
  assumes "ipv4_display xs = ipv4_display ys" and "length xs = 4" and "length ys = 4"
  shows "xs = ys"
proof -
  let ?f = "\<lambda>b :: u8. fmt_radix 10 (unat b)"
  have "map ?f xs = map ?f ys"
    using assms dot_not_decimal
    by (intro join_inject [of "CHR ''.''"]) (auto simp: ipv4_display_def)
  moreover have "inj ?f"
    by (rule injI) (simp add: fmt_radix_inject unsigned_word_eqI)
  ultimately show ?thesis by simp
qed

lemma length_join_le:
  "\<forall>x \<in> set xs. length x \<le> k \<Longrightarrow> length (join sep xs) \<le> length xs * k + (length xs - 1) * length sep"
proof (induction xs)
  case Nil
  then show ?case by simp
next
  case (Cons x xs)
  then show ?case by (cases xs) (auto simp: algebra_simps)
qed

lemma ipv4_display_length:
  assumes "length xs = 4"
  shows "length (ipv4_display xs) \<le> 15"
proof -
  have "length (fmt_radix 10 (unat b)) \<le> 3" for b :: u8
    by (rule fmt_decimal_length) (rule less_trans [OF unat_u8_less], simp)
  then show ?thesis
    using length_join_le [of "map (\<lambda>b. fmt_radix 10 (unat b)) xs" 3 "''.''"] assms
    by (simp add: ipv4_display_def)
qed

section \<open>IPv6\<close>

definition segments :: "bytes \<Rightarrow> u16 list" where
  "segments octets = map (\<lambda>i. of_be [octets ! (2 * i), octets ! (2 * i + 1)]) [0..<8]"

definition to_ipv4_mapped :: "bytes \<Rightarrow> bytes option" where
  "to_ipv4_mapped octets =
     (if take 12 octets = replicate 10 0 @ [0xFF, 0xFF] then Some (drop 12 octets) else None)"

text \<open>The scan for the longest run of zero segments (\<open>longest\<close> and \<open>current\<close> as start and
  length, the first longest run wins).\<close>

fun zero_span :: "nat \<Rightarrow> u16 list \<Rightarrow> nat \<times> nat \<Rightarrow> nat \<times> nat \<Rightarrow> nat \<times> nat" where
  "zero_span i [] longest current = longest"
| "zero_span i (s # ss) longest current =
     (if s = 0
      then let current' = ((if snd current = 0 then i else fst current), snd current + 1)
           in zero_span (i + 1) ss (if snd current' > snd longest then current' else longest) current'
      else zero_span (i + 1) ss longest (0, 0))"

definition fmt_subslice :: "u16 list \<Rightarrow> string" where
  "fmt_subslice chunk = join '':'' (map (\<lambda>s. fmt_radix 16 (unat s)) chunk)"

definition ipv6_display :: "bytes \<Rightarrow> string" where
  "ipv6_display octets =
     (case to_ipv4_mapped octets of
        Some v4 \<Rightarrow> ''::ffff:'' @ ipv4_display v4
      | None \<Rightarrow>
          let segs = segments octets; (start, len) = zero_span 0 segs (0, 0) (0, 0)
          in if len > 1
             then fmt_subslice (take start segs) @ ''::'' @ fmt_subslice (drop (start + len) segs)
             else fmt_subslice segs)"

lemma zero_span_within:
  assumes "fst longest + snd longest \<le> i" and "fst current + snd current \<le> i"
    and "snd current = 0 \<or> fst current + snd current = i"
  shows "fst (zero_span i ss longest current) + snd (zero_span i ss longest current) \<le> i + length ss"
  using assms
proof (induction ss arbitrary: i longest current)
  case Nil
  then show ?case by simp
next
  case (Cons s ss)
  let ?cur = "((if snd current = 0 then i else fst current), snd current + 1)"
  show ?case
  proof (cases "s = 0")
    case True
    with Cons.IH [of "if snd ?cur > snd longest then ?cur else longest" "i + 1" ?cur] Cons.prems
    show ?thesis by (auto simp: Let_def split: if_splits)
  next
    case False
    with Cons.IH [of longest "i + 1" "(0, 0)"] Cons.prems show ?thesis by simp
  qed
qed

lemma length_segments [simp]: "length (segments octets) = 8"
  by (simp add: segments_def)

lemma fmt_subslice_length: "length (fmt_subslice chunk) \<le> length chunk * 4 + (length chunk - 1)"
proof -
  have "length (fmt_radix 16 (unat s)) \<le> 4" for s :: u16
    by (rule fmt_hex_length) (rule unat_u16_less)
  then show ?thesis
    using length_join_le [of "map (\<lambda>s. fmt_radix 16 (unat s)) chunk" 4 "'':''"]
    by (simp add: fmt_subslice_def)
qed

lemma ipv6_display_length:
  assumes "length octets = 16"
  shows "length (ipv6_display octets) \<le> 39"
proof (cases "to_ipv4_mapped octets")
  case (Some v4)
  with assms have "length v4 = 4" by (auto simp: to_ipv4_mapped_def split: if_splits)
  with Some ipv4_display_length [of v4] show ?thesis by (simp add: ipv6_display_def)
next
  case None
  obtain st len where z: "zero_span 0 (segments octets) (0, 0) (0, 0) = (st, len)" by fastforce
  then have within: "st + len \<le> 8"
    using zero_span_within [of "(0, 0)" 0 "(0, 0)" "segments octets"] by simp
  show ?thesis
  proof (cases "len > 1")
    case True
    with within fmt_subslice_length [of "take st (segments octets)"]
      fmt_subslice_length [of "drop (st + len) (segments octets)"]
    show ?thesis using None z by (simp add: ipv6_display_def Let_def)
  next
    case False
    with fmt_subslice_length [of "segments octets"] None z show ?thesis
      by (simp add: ipv6_display_def)
  qed
qed

end
