(* ===== verification/Dns_Parser.thy ===== *)
theory Dns_Parser
  imports Common Ip_Fmt
begin

text \<open>
  The DNS wire parser (\<open>cilium-mini-rs/src/parser.rs\<close>) and the message it fills
  (\<open>proto/network_event.proto\<close>). Every function that takes a \<open>&mut\<close> argument is a program over
  that argument: the slot (or the output string) is the state and survives an error. Slices and
  indexing are the checked ones of the prelude, so a model that read out of bounds would panic.
  Offsets are natural numbers: \<open>usize\<close> cannot overflow here, since a slice is at most
  \<open>isize::MAX\<close> bytes long and the code adds at most \<open>65535 + 10\<close> to an offset inside one.
\<close>

section \<open>Data\<close>

record DnsResponse =
  src_ip :: string
  dst_ip :: string
  src_port :: u32
  dst_port :: u32
  timestamp_ns :: u64
  domain_name :: string
  resolved_ip :: string
  resolved_ip_raw :: bytes
  ip_family :: u32

definition default_DnsResponse :: DnsResponse where
  "default_DnsResponse =
     \<lparr>src_ip = [], dst_ip = [], src_port = 0, dst_port = 0, timestamp_ns = 0,
      domain_name = [], resolved_ip = [], resolved_ip_raw = [], ip_family = 0\<rparr>"

datatype DnsParseError =
    UnexpectedEndOfPayload
  | InvalidLabelLength nat
  | LabelExceedsMaxLen
  | NonAsciiDomainName
  | UnsupportedAddressFamily u32
  | FormatError

fun display_error :: "DnsParseError \<Rightarrow> string" where
  "display_error UnexpectedEndOfPayload = ''Unexpected end of DNS payload (truncated packet)''"
| "display_error (InvalidLabelLength len) =
     ''Invalid label length: '' @ fmt_radix 10 len @ '' (> 63)''"
| "display_error LabelExceedsMaxLen = ''Label exceeds maximum domain length (255)''"
| "display_error NonAsciiDomainName = ''Non-ASCII character in domain name''"
| "display_error (UnsupportedAddressFamily af) =
     ''Unsupported address family: '' @ fmt_radix 10 (unat af)"
| "display_error FormatError = ''Failed to format IP address string''"

record DnsHdr =
  transaction_id :: u16
  flags :: u16
  questions :: u16
  answer_rrs :: u16
  authority_rrs :: u16
  additional_rrs :: u16

definition DnsHdr_LEN :: nat where
  "DnsHdr_LEN = 12"

datatype RecordType = RecA | RecCNAME | RecAAAA | RecUNSUPPORTED u16

section \<open>Operations\<close>

definition DnsHdr_from :: "bytes \<Rightarrow> ('s, DnsParseError, DnsHdr) prog" where
  "DnsHdr_from payload =
     (if length payload < DnsHdr_LEN then raise UnexpectedEndOfPayload
      else ret \<lparr>transaction_id = of_be [payload ! 0, payload ! 1],
                flags = of_be [payload ! 2, payload ! 3],
                questions = of_be [payload ! 4, payload ! 5],
                answer_rrs = of_be [payload ! 6, payload ! 7],
                authority_rrs = of_be [payload ! 8, payload ! 9],
                additional_rrs = of_be [payload ! 10, payload ! 11]\<rparr>)"

definition RecordType_try_from :: "u16 \<Rightarrow> ('s, DnsParseError, RecordType) prog" where
  "RecordType_try_from val =
     (if val = 1 then ret RecA
      else if val = 5 then ret RecCNAME
      else if val = 28 then ret RecAAAA
      else ret (RecUNSUPPORTED val))"

definition reset_slot :: "DnsResponse \<Rightarrow> DnsResponse" where
  "reset_slot slot = slot\<lparr>src_ip := [], dst_ip := [], domain_name := [], resolved_ip := [],
     resolved_ip_raw := [], src_port := 0, dst_port := 0, ip_family := 0, timestamp_ns := 0\<rparr>"

definition parse_ip :: "RawIpAddr \<Rightarrow> (string, DnsParseError, unit) prog" where
  "parse_ip raw_ip =
     (if ia_family raw_ip = AF_INET
      then modify (\<lambda>out. out @ ipv4_display
        [ia_bytes raw_ip ! 0, ia_bytes raw_ip ! 1, ia_bytes raw_ip ! 2, ia_bytes raw_ip ! 3])
      else if ia_family raw_ip = AF_INET6
      then modify (\<lambda>out. out @ ipv6_display (ia_bytes raw_ip))
      else raise (UnsupportedAddressFamily (ia_family raw_ip)))"

text \<open>\<open><[u8]>::is_ascii\<close> and \<open>str::from_utf8\<close> of the standard library. A string is its UTF-8
  bytes, one \<open>char\<close> each.\<close>

definition is_ascii :: "bytes \<Rightarrow> bool" where
  "is_ascii bs = list_all (\<lambda>b. b < 128) bs"

definition is_cont :: "u8 \<Rightarrow> bool" where
  "is_cont b \<longleftrightarrow> 0x80 \<le> b \<and> b \<le> 0xBF"

fun utf8_valid :: "bytes \<Rightarrow> bool" where
  "utf8_valid [] = True"
| "utf8_valid (b0 # rest) =
     (if b0 < 0x80 then utf8_valid rest
      else if 0xC2 \<le> b0 \<and> b0 \<le> 0xDF then
        (case rest of b1 # r \<Rightarrow> is_cont b1 \<and> utf8_valid r | _ \<Rightarrow> False)
      else if 0xE0 \<le> b0 \<and> b0 \<le> 0xEF then
        (case rest of b1 # b2 # r \<Rightarrow>
           (if b0 = 0xE0 then 0xA0 \<le> b1 \<and> b1 \<le> 0xBF
            else if b0 = 0xED then 0x80 \<le> b1 \<and> b1 \<le> 0x9F else is_cont b1)
           \<and> is_cont b2 \<and> utf8_valid r
         | _ \<Rightarrow> False)
      else if 0xF0 \<le> b0 \<and> b0 \<le> 0xF4 then
        (case rest of b1 # b2 # b3 # r \<Rightarrow>
           (if b0 = 0xF0 then 0x90 \<le> b1 \<and> b1 \<le> 0xBF
            else if b0 = 0xF4 then 0x80 \<le> b1 \<and> b1 \<le> 0x8F else is_cont b1)
           \<and> is_cont b2 \<and> is_cont b3 \<and> utf8_valid r
         | _ \<Rightarrow> False)
      else False)"

definition text_of :: "bytes \<Rightarrow> string" where
  "text_of bs = map (\<lambda>b. char_of (unat b)) bs"

definition str_from_utf8 :: "bytes \<Rightarrow> string option" where
  "str_from_utf8 bs = (if utf8_valid bs then Some (text_of bs) else None)"

text \<open>The loop of \<open>parse_qname\<close>, with its two counters as arguments.\<close>

function parse_qname_loop :: "bytes \<Rightarrow> nat \<Rightarrow> nat \<Rightarrow> (string, DnsParseError, nat) prog" where
  "parse_qname_loop payload offset total_domain_len out =
     (if offset < length payload then
        let label_len = unat (payload ! offset) in
        if label_len = 0 then (Ok (offset + 1), out)
        else if label_len > 63 then (Err (InvalidLabelLength label_len), out)
        else let label_start = offset + 1; label_end = label_start + label_len in
          if label_end > length payload then (Err UnexpectedEndOfPayload, out)
          else let total' = total_domain_len + (label_len + 1) in
            if total' > 255 then (Err LabelExceedsMaxLen, out)
            else bindM (slice_range label_start label_end payload) (\<lambda>label_bytes out.
              if \<not> is_ascii label_bytes then (Err NonAsciiDomainName, out)
              else let out1 = (if out \<noteq> [] then out @ ''.'' else out) in
                case str_from_utf8 label_bytes of
                  None \<Rightarrow> (Err NonAsciiDomainName, out1)
                | Some label_str \<Rightarrow>
                    parse_qname_loop payload label_end total' (out1 @ label_str)) out
      else (Err UnexpectedEndOfPayload, out))"
  by pat_completeness auto
termination
  by (relation "measure (\<lambda>(payload, offset, total, out). length payload - offset)") auto

declare parse_qname_loop.simps [simp del]

definition parse_qname :: "bytes \<Rightarrow> (string, DnsParseError, nat) prog" where
  "parse_qname payload =
     (if payload = [] then raise UnexpectedEndOfPayload else parse_qname_loop payload 0 0)"

definition COMPRESSION_MASK :: u8 where
  "COMPRESSION_MASK = 0xC0"

function skip_name_loop :: "bytes \<Rightarrow> nat \<Rightarrow> (DnsParseError, nat) outcome" where
  "skip_name_loop payload offset =
     (if offset < length payload then
        let b = payload ! offset in
        if b AND COMPRESSION_MASK = COMPRESSION_MASK then
          (if offset + 2 > length payload then Err UnexpectedEndOfPayload else Ok (offset + 2))
        else if b = 0 then Ok (offset + 1)
        else if b \<le> 63 then
          let next_offset = offset + 1 + unat b in
          if next_offset > length payload then Err UnexpectedEndOfPayload
          else skip_name_loop payload next_offset
        else Err (InvalidLabelLength (unat b))
      else Err UnexpectedEndOfPayload)"
  by pat_completeness auto
termination
  by (relation "measure (\<lambda>(payload, offset). length payload - offset)") auto

declare skip_name_loop.simps [simp del]

definition skip_name :: "bytes \<Rightarrow> (DnsParseError, nat) outcome" where
  "skip_name payload = skip_name_loop payload 0"

definition RR_FIXED_HDR_LEN :: nat where
  "RR_FIXED_HDR_LEN = 10"

text \<open>The \<open>match rtype\<close> of \<open>parse_rdata\<close>. Writing to a \<open>String\<close> never fails, so the
  \<open>FormatError\<close> of \<open>write!\<close> is not reached.\<close>

definition store_rdata :: "RecordType \<Rightarrow> nat \<Rightarrow> bytes \<Rightarrow> (DnsResponse, DnsParseError, unit) prog" where
  "store_rdata rtype rdlength rdata =
     (case rtype of
        RecA \<Rightarrow>
          if rdlength \<noteq> 4 then raise UnexpectedEndOfPayload
          else bindM (index_at 0 rdata) (\<lambda>b0. bindM (index_at 1 rdata) (\<lambda>b1.
               bindM (index_at 2 rdata) (\<lambda>b2. bindM (index_at 3 rdata) (\<lambda>b3.
               bindM (modify (\<lambda>slot. slot\<lparr>resolved_ip := resolved_ip slot @ ipv4_display [b0, b1, b2, b3]\<rparr>)) (\<lambda>_.
               bindM (slice_to 4 rdata) (\<lambda>four.
               modify (\<lambda>slot. slot\<lparr>resolved_ip_raw := resolved_ip_raw slot @ four,
                 ip_family := AF_INET\<rparr>)))))))
      | RecAAAA \<Rightarrow>
          if rdlength \<noteq> 16 then raise UnexpectedEndOfPayload
          else if length rdata \<noteq> 16 then panic
          else bindM (modify (\<lambda>slot. slot\<lparr>resolved_ip := resolved_ip slot @ ipv6_display rdata\<rparr>)) (\<lambda>_.
               modify (\<lambda>slot. slot\<lparr>resolved_ip_raw := resolved_ip_raw slot @ rdata,
                 ip_family := AF_INET6\<rparr>))
      | RecCNAME \<Rightarrow> ret ()
      | RecUNSUPPORTED type_num \<Rightarrow> ret ())"

text \<open>The loop over the answers. \<open>skip_name\<close> is given the rest of the payload and its result,
  an offset into that rest, becomes the new \<open>offset\<close> into the whole payload, as in the source.\<close>

fun parse_rdata_loop :: "bytes \<Rightarrow> nat \<Rightarrow> nat \<Rightarrow> (DnsResponse, DnsParseError, unit) prog" where
  "parse_rdata_loop payload offset 0 = ret ()"
| "parse_rdata_loop payload offset (Suc n) =
     (if offset \<ge> length payload then raise UnexpectedEndOfPayload
      else bindM (slice_from offset payload) (\<lambda>rest.
        bindM (lift_outcome (skip_name rest)) (\<lambda>offset1.
        if offset1 + RR_FIXED_HDR_LEN > length payload then raise UnexpectedEndOfPayload
        else bindM (index_at offset1 payload) (\<lambda>t0. bindM (index_at (offset1 + 1) payload) (\<lambda>t1.
          bindM (RecordType_try_from (of_be [t0, t1])) (\<lambda>rtype.
          bindM (index_at (offset1 + 8) payload) (\<lambda>l0. bindM (index_at (offset1 + 9) payload) (\<lambda>l1.
          let rdlength = unat (of_be [l0, l1] :: u16); offset2 = offset1 + RR_FIXED_HDR_LEN in
          if offset2 + rdlength > length payload then raise UnexpectedEndOfPayload
          else bindM (slice_range offset2 (offset2 + rdlength) payload) (\<lambda>rdata.
            bindM (store_rdata rtype rdlength rdata) (\<lambda>_.
            parse_rdata_loop payload (offset2 + rdlength) n)))))))))) "

definition parse_rdata :: "bytes \<Rightarrow> u16 \<Rightarrow> (DnsResponse, DnsParseError, unit) prog" where
  "parse_rdata payload anscount =
     (if payload = [] then raise UnexpectedEndOfPayload
      else parse_rdata_loop payload 0 (unat anscount))"

definition parse_dns_into :: "RawDnsEvent \<Rightarrow> (DnsResponse, DnsParseError, unit) prog" where
  "parse_dns_into raw_event =
     bindM (modify reset_slot) (\<lambda>_.
     bindM (on_field src_ip src_ip_update (parse_ip (ev_src_ip raw_event))) (\<lambda>_.
     bindM (on_field dst_ip dst_ip_update (parse_ip (ev_dst_ip raw_event))) (\<lambda>_.
     bindM (modify (\<lambda>slot. slot\<lparr>src_port := ucast (ev_src_port raw_event),
       dst_port := ucast (ev_dst_port raw_event),
       timestamp_ns := ev_timestamp_ns raw_event\<rparr>)) (\<lambda>_.
     let total_len = unat (ev_payload_len raw_event) in
     if total_len < DnsHdr_LEN then raise UnexpectedEndOfPayload
     else bindM (slice_to total_len (ev_payload raw_event)) (\<lambda>dns_payload.
       bindM (slice_from DnsHdr_LEN dns_payload) (\<lambda>qname_payload.
       bindM (on_field domain_name domain_name_update (parse_qname qname_payload)) (\<lambda>qname_len.
       bindM (DnsHdr_from dns_payload) (\<lambda>hdr.
       let anscount = answer_rrs hdr; rdata_offset = DnsHdr_LEN + qname_len + 4 in
       if rdata_offset > total_len then raise UnexpectedEndOfPayload
       else bindM (slice_from rdata_offset dns_payload) (\<lambda>rdata_payload.
         parse_rdata rdata_payload anscount)))))))))"

end
