(* ===== verification/Dns_Names.thy ===== *)
theory Dns_Names
  imports Dns_Parser
begin

text \<open>
  Domain names on the wire: what a name looks like (RFC 1035 labels), and that the two scanners
  of the parser, \<open>parse_qname\<close> for the question and \<open>skip_name\<close> for the answers, accept
  exactly the names they are meant to. The locale \<open>name_scanner\<close> is the contract the rest of the
  parser relies on: a scanner finds the end of a complete name, wherever the name stands.
\<close>

section \<open>Names on the wire\<close>

definition label_ok :: "bytes \<Rightarrow> bool" where
  "label_ok l \<longleftrightarrow> 1 \<le> length l \<and> length l \<le> 63"

definition wf_label :: "bytes \<Rightarrow> bool" where
  "wf_label l \<longleftrightarrow> label_ok l \<and> is_ascii l"

definition encode_label :: "bytes \<Rightarrow> bytes" where
  "encode_label l = of_nat (length l) # l"

definition encode_labels :: "bytes list \<Rightarrow> bytes" where
  "encode_labels ls = concat (map encode_label ls)"

definition qname_wire :: "bytes list \<Rightarrow> bytes" where
  "qname_wire ls = encode_labels ls @ [0]"

definition domain_len :: "bytes list \<Rightarrow> nat" where
  "domain_len ls = sum_list (map (\<lambda>l. length l + 1) ls)"

definition valid_qname :: "bytes list \<Rightarrow> bool" where
  "valid_qname ls \<longleftrightarrow> list_all wf_label ls \<and> domain_len ls \<le> 255"

definition dotted :: "bytes list \<Rightarrow> string" where
  "dotted ls = join ''.'' (map text_of ls)"

definition name_tail :: "bytes \<Rightarrow> bool" where
  "name_tail t \<longleftrightarrow> t = [0] \<or> (\<exists>b0 b1. t = [b0, b1] \<and> b0 AND COMPRESSION_MASK = COMPRESSION_MASK)"

definition answer_name :: "bytes \<Rightarrow> bool" where
  "answer_name w \<longleftrightarrow> (\<exists>ls t. w = encode_labels ls @ t \<and> list_all label_ok ls \<and> name_tail t)"

definition question_name :: "bytes \<Rightarrow> bool" where
  "question_name w \<longleftrightarrow> (\<exists>ls. w = qname_wire ls \<and> valid_qname ls)"

definition bytes_of_text :: "string \<Rightarrow> bytes" where
  "bytes_of_text t = map (\<lambda>c. of_nat (of_char c)) t"

fun push_labels :: "string \<Rightarrow> bytes list \<Rightarrow> string" where
  "push_labels out [] = out"
| "push_labels out (l # ls) = push_labels ((if out \<noteq> [] then out @ ''.'' else out) @ text_of l) ls"

lemma encode_labels_simps [simp]:
  "encode_labels [] = []"
  "encode_labels (l # ls) = of_nat (length l) # l @ encode_labels ls"
  by (simp_all add: encode_labels_def encode_label_def)

lemma domain_len_simps [simp]:
  "domain_len [] = 0"
  "domain_len (l # ls) = length l + 1 + domain_len ls"
  by (simp_all add: domain_len_def)

lemma length_encode_labels: "length (encode_labels ls) = domain_len ls"
  by (induction ls) simp_all

lemma length_text_of [simp]: "length (text_of l) = length l"
  by (simp add: text_of_def)

lemma push_labels_dotted_aux:
  "list_all label_ok ls \<Longrightarrow> out \<noteq> [] \<Longrightarrow>
     push_labels out ls = (if ls = [] then out else out @ ''.'' @ dotted ls)"
proof (induction ls arbitrary: out)
  case Nil
  then show ?case by simp
next
  case (Cons l ls)
  then show ?case
    using Cons.IH [of "out @ ''.'' @ text_of l"] by (cases "ls = []") (simp_all add: dotted_def join_Cons)
qed

lemma push_labels_dotted: "list_all label_ok ls \<Longrightarrow> push_labels [] ls = dotted ls"
proof (cases ls)
  case Nil
  then show ?thesis by (simp add: dotted_def)
next
  case (Cons l ls')
  assume ok: "list_all label_ok ls"
  with Cons have "text_of l \<noteq> []"
    by (auto simp: label_ok_def text_of_def)
  with ok Cons push_labels_dotted_aux [of ls' "text_of l"] show ?thesis
    by (auto simp: dotted_def join_Cons)
qed

lemma label_length_word [simp]:
  assumes "label_ok l"
  shows "unat (of_nat (length l) :: u8) = length l"
  using assms by (simp add: label_ok_def unat_of_nat)

lemma label_length_not_pointer:
  assumes "label_ok l"
  shows "(of_nat (length l) :: u8) AND COMPRESSION_MASK \<noteq> COMPRESSION_MASK"
proof
  let ?b = "of_nat (length l) :: u8"
  assume "?b AND COMPRESSION_MASK = COMPRESSION_MASK"
  then have "COMPRESSION_MASK \<le> ?b" by (metis word_and_le2)
  then have "192 \<le> unat ?b" by (simp add: COMPRESSION_MASK_def word_le_nat_alt)
  with assms show False by (simp add: label_ok_def)
qed

lemma is_ascii_utf8: "is_ascii bs \<Longrightarrow> utf8_valid bs"
  by (induction bs) (simp_all add: is_ascii_def)

lemma str_from_utf8_ascii [simp]: "is_ascii bs \<Longrightarrow> str_from_utf8 bs = Some (text_of bs)"
  by (simp add: str_from_utf8_def is_ascii_utf8)

lemma drop_nth_Cons: "drop n xs = y # ys \<Longrightarrow> n < length xs \<and> xs ! n = y \<and> drop (Suc n) xs = ys"
  by (metis Cons_nth_drop_Suc drop_eq_Nil linorder_not_less list.inject list.distinct(1))

lemma drop_label:
  assumes "drop off p = b # l @ rest"
  shows "drop (off + 1 + length l) p = rest"
proof -
  have "drop (length l) (drop (Suc off) p) = rest"
    using drop_nth_Cons [OF assms] by simp
  then show ?thesis by (simp add: ac_simps)
qed

section \<open>The question name\<close>

lemma qname_step_end:
  assumes "drop off p = 0 # rest"
  shows "parse_qname_loop p off tot out = (Ok (off + 1), out)"
  using drop_nth_Cons [OF assms] by (subst parse_qname_loop.simps) simp

lemma qname_step_label:
  assumes d: "drop off p = of_nat (length l) # l @ rest"
    and l: "wf_label l" and tot: "tot + (length l + 1) \<le> 255"
  shows "parse_qname_loop p off tot out =
    parse_qname_loop p (off + 1 + length l) (tot + (length l + 1))
      ((if out \<noteq> [] then out @ ''.'' else out) @ text_of l)"
proof -
  from drop_nth_Cons [OF d] have off: "off < length p" and b: "p ! off = of_nat (length l)"
    and d': "drop (off + 1) p = l @ rest" by simp_all
  from arg_cong [OF d', of length] off have len: "off + 1 + length l \<le> length p" by simp
  have take_l: "take (length l) (drop (Suc off) p) = l" using d' by simp
  have lok: "label_ok l" and asc: "is_ascii l" using l by (simp_all add: wf_label_def)
  then have "l \<noteq> []" "length l \<le> 63" by (auto simp: label_ok_def)
  with off b len take_l lok asc tot show ?thesis
    by (subst parse_qname_loop.simps) (simp add: Let_def)
qed

lemma qname_loop_complete:
  assumes "drop off p = qname_wire ls @ rest" and "list_all wf_label ls"
    and "tot + domain_len ls \<le> 255"
  shows "parse_qname_loop p off tot out = (Ok (off + length (qname_wire ls)), push_labels out ls)"
  using assms
proof (induction ls arbitrary: off tot out)
  case Nil
  then show ?case by (simp add: qname_wire_def qname_step_end)
next
  case (Cons l ls)
  from Cons.prems(1) have d: "drop off p = of_nat (length l) # l @ (qname_wire ls @ rest)"
    by (simp add: qname_wire_def)
  then have d': "drop (off + 1 + length l) p = qname_wire ls @ rest"
    by (rule drop_label)
  show ?case
    using qname_step_label [OF d] Cons.IH [OF d'] Cons.prems(2,3)
    by (simp add: qname_wire_def ac_simps)
qed

text \<open>One iteration, read backwards: an accepting run either stops at the root label or has
  consumed one well-formed label.\<close>

lemma qname_step_inv:
  assumes "parse_qname_loop p off tot out = (Ok n, out')"
  obtains (stop) rest where "drop off p = 0 # rest" "n = off + 1" "out' = out"
  | (label) l rest where "drop off p = of_nat (length l) # l @ rest" "wf_label l"
      "tot + (length l + 1) \<le> 255"
      "parse_qname_loop p (off + 1 + length l) (tot + (length l + 1))
        ((if out \<noteq> [] then out @ ''.'' else out) @ text_of l) = (Ok n, out')"
proof -
  from assms have off: "off < length p"
    by (subst (asm) parse_qname_loop.simps) (simp split: if_splits)
  define k where "k = unat (p ! off)"
  define l where "l = take k (drop (Suc off) p)"
  from off have d: "drop off p = p ! off # drop (Suc off) p" by (simp add: Cons_nth_drop_Suc)
  show ?thesis
  proof (cases "k = 0")
    case True
    then have "p ! off = 0" by (simp add: k_def unat_eq_zero)
    moreover from assms off True have "n = off + 1" "out' = out"
      by (subst (asm) parse_qname_loop.simps, simp add: k_def)+
    ultimately show ?thesis using stop d by simp
  next
    case False
    from assms off False have k: "k \<le> 63" "off + 1 + k \<le> length p" "tot + (k + 1) \<le> 255"
        "is_ascii l"
      and run: "parse_qname_loop p (off + 1 + k) (tot + (k + 1))
        ((if out \<noteq> [] then out @ ''.'' else out) @ text_of l) = (Ok n, out')"
      by (subst (asm) parse_qname_loop.simps,
          auto simp: Let_def k_def [symmetric] l_def [symmetric] ret_def split: if_splits)+
    have len: "length l = k" using k(2) by (simp add: l_def)
    have "p ! off = of_nat k" by (simp add: k_def)
    with d len have "drop off p = of_nat (length l) # l @ drop (k + Suc off) p"
      by (metis l_def append_take_drop_id drop_drop)
    moreover have "wf_label l" using k len False by (simp add: wf_label_def label_ok_def)
    ultimately show ?thesis using label len k run by metis
  qed
qed

lemma qname_loop_sound:
  assumes "parse_qname_loop p off tot out = (Ok n, out')" and "tot \<le> 255"
  shows "\<exists>ls rest. drop off p = qname_wire ls @ rest \<and> list_all wf_label ls
    \<and> tot + domain_len ls \<le> 255 \<and> n = off + length (qname_wire ls) \<and> out' = push_labels out ls"
  using assms
proof (induction "length p - off" arbitrary: off tot out rule: less_induct)
  case less
  from less.prems(1) show ?case
  proof (cases rule: qname_step_inv)
    case (stop rest)
    then show ?thesis using less.prems(2)
      by (intro exI [of _ "[]"] exI [of _ rest]) (simp add: qname_wire_def)
  next
    case (label l rest)
    from drop_nth_Cons [OF label(1)] have "off < length p" by simp
    then have "length p - (off + 1 + length l) < length p - off" by simp
    from less.hyps [OF this label(4) label(3)] obtain ls r where
      ls: "drop (off + 1 + length l) p = qname_wire ls @ r" "list_all wf_label ls"
        "tot + (length l + 1) + domain_len ls \<le> 255"
        "n = off + 1 + length l + length (qname_wire ls)"
        "out' = push_labels ((if out \<noteq> [] then out @ ''.'' else out) @ text_of l) ls"
      by blast
    have "rest = drop (off + 1 + length l) p"
      by (rule drop_label [OF label(1), symmetric])
    with ls label show ?thesis
      by (intro exI [of _ "l # ls"] exI [of _ r]) (simp add: qname_wire_def)
  qed
qed

section \<open>The contract of a scanner\<close>

fun ok_of :: "('e, 'a) outcome \<Rightarrow> 'a option" where
  "ok_of (Ok a) = Some a"
| "ok_of (Err e) = None"
| "ok_of Panic = None"

lemma ok_of_Some [simp]: "ok_of r = Some a \<longleftrightarrow> r = Ok a"
  by (cases r) simp_all

locale name_scanner =
  fixes scan :: "bytes \<Rightarrow> nat option"
    and is_name :: "bytes \<Rightarrow> bool"
  assumes scan_sound: "scan p = Some n \<Longrightarrow> n \<le> length p \<and> is_name (take n p)"
    and scan_complete: "is_name w \<Longrightarrow> scan (w @ rest) = Some (length w)"
    and name_nonempty: "is_name w \<Longrightarrow> w \<noteq> []"
begin

lemma scan_bounds: "scan p = Some n \<Longrightarrow> 0 < n \<and> n \<le> length p"
  using scan_sound name_nonempty by fastforce

lemma scan_iff: "scan p = Some n \<longleftrightarrow> (\<exists>w rest. p = w @ rest \<and> is_name w \<and> n = length w)"
  by (metis append_take_drop_id length_take min.absorb2 scan_complete scan_sound)

lemma prefix_free: "is_name u \<Longrightarrow> is_name (u @ v) \<Longrightarrow> v = []"
  using scan_complete [of u v] scan_complete [of "u @ v" "[]"] by simp

lemma scan_local: "scan p = Some n \<Longrightarrow> scan (take n p @ rest) = Some n"
  using scan_complete scan_sound by (metis length_take min.absorb2)

end

interpretation question: name_scanner "\<lambda>p. ok_of (fst (parse_qname p []))" question_name
proof unfold_locales
  fix p n assume "ok_of (fst (parse_qname p [])) = Some n"
  then have "fst (parse_qname p []) = Ok n" by simp
  then obtain out where "parse_qname_loop p 0 0 [] = (Ok n, out)"
    by (cases "parse_qname p []") (auto simp: parse_qname_def raise_def split: if_splits)
  from qname_loop_sound [OF this] obtain ls rest where
    "p = qname_wire ls @ rest" "valid_qname ls" "n = length (qname_wire ls)"
    by (auto simp: valid_qname_def)
  then show "n \<le> length p \<and> question_name (take n p)"
    by (auto simp: question_name_def)
next
  fix w rest assume "question_name w"
  then obtain ls where "w = qname_wire ls" "valid_qname ls" by (auto simp: question_name_def)
  then show "ok_of (fst (parse_qname (w @ rest) [])) = Some (length w)"
    using qname_loop_complete [of 0 "w @ rest" ls rest 0 "[]"]
    by (simp add: parse_qname_def valid_qname_def qname_wire_def)
qed (auto simp: question_name_def qname_wire_def)

section \<open>Answer names\<close>

lemma skip_step_end:
  assumes "drop off p = t @ rest" and "name_tail t"
  shows "skip_name_loop p off = Ok (off + length t)"
proof -
  from assms(2) consider "t = [0]"
    | b0 b1 where "t = [b0, b1]" "b0 AND COMPRESSION_MASK = COMPRESSION_MASK"
    by (auto simp: name_tail_def)
  then show ?thesis
  proof cases
    case 1
    with assms(1) drop_nth_Cons [of off p 0 rest] show ?thesis
      by (subst skip_name_loop.simps) (simp add: COMPRESSION_MASK_def)
  next
    case (2 b0 b1)
    with assms(1) have d: "drop off p = b0 # b1 # rest" by simp
    have "off + 2 \<le> length p" using arg_cong [OF d, of length] by simp
    with 2 drop_nth_Cons [OF d] show ?thesis
      by (subst skip_name_loop.simps) simp
  qed
qed

lemma skip_step_label:
  assumes d: "drop off p = of_nat (length l) # l @ rest" and l: "label_ok l"
  shows "skip_name_loop p off = skip_name_loop p (off + 1 + length l)"
proof -
  from drop_nth_Cons [OF d] have off: "off < length p" "p ! off = of_nat (length l)"
    and d': "drop (Suc off) p = l @ rest" by simp_all
  have len: "off + 1 + length l \<le> length p" using arg_cong [OF d', of length] off by simp
  have "(of_nat (length l) :: u8) \<noteq> 0"
    using l label_length_word [OF l] by (metis label_ok_def not_one_le_zero unsigned_0)
  moreover have "(of_nat (length l) :: u8) \<le> 63"
    using l label_length_word [OF l] by (simp add: label_ok_def word_le_nat_alt)
  ultimately show ?thesis using off len l label_length_not_pointer [OF l]
    by (subst skip_name_loop.simps) (simp add: Let_def)
qed

lemma skip_loop_complete:
  assumes "drop off p = encode_labels ls @ t @ rest" and "list_all label_ok ls" and "name_tail t"
  shows "skip_name_loop p off = Ok (off + length (encode_labels ls @ t))"
  using assms
proof (induction ls arbitrary: off)
  case Nil
  then show ?case using skip_step_end by simp
next
  case (Cons l ls)
  from Cons.prems(1) have d: "drop off p = of_nat (length l) # l @ (encode_labels ls @ t @ rest)"
    by simp
  then have d': "drop (off + 1 + length l) p = encode_labels ls @ t @ rest"
    by (rule drop_label)
  show ?case
    using skip_step_label [OF d] Cons.IH [OF d'] Cons.prems(2,3) by simp
qed

lemma skip_step_inv:
  assumes "skip_name_loop p off = Ok n"
  obtains (stop) t rest where "drop off p = t @ rest" "name_tail t" "n = off + length t"
  | (label) l rest where "drop off p = of_nat (length l) # l @ rest" "label_ok l"
      "skip_name_loop p (off + 1 + length l) = Ok n"
proof -
  from assms have off: "off < length p"
    by (subst (asm) skip_name_loop.simps) (simp split: if_splits)
  then have d: "drop off p = p ! off # drop (Suc off) p" by (simp add: Cons_nth_drop_Suc)
  consider (pointer) "p ! off AND COMPRESSION_MASK = COMPRESSION_MASK"
    | (root) "p ! off AND COMPRESSION_MASK \<noteq> COMPRESSION_MASK" "p ! off = 0"
    | (lab) "p ! off AND COMPRESSION_MASK \<noteq> COMPRESSION_MASK" "p ! off \<noteq> 0"
    by blast
  then show ?thesis
  proof cases
    case pointer
    with assms off have "off + 2 \<le> length p" "n = off + 2"
      by (subst (asm) skip_name_loop.simps, simp split: if_splits)+
    then obtain b1 r where "drop (Suc off) p = b1 # r"
      by (cases "drop (Suc off) p") auto
    with d pointer \<open>n = off + 2\<close> show ?thesis
      using stop [of "[p ! off, b1]" r] by (simp add: name_tail_def)
  next
    case root
    with assms off have "n = off + 1"
      by (subst (asm) skip_name_loop.simps) simp
    with d root show ?thesis
      using stop [of "[0]" "drop (Suc off) p"] by (simp add: name_tail_def)
  next
    case lab
    define k where "k = unat (p ! off)"
    from lab assms off have "p ! off \<le> 63" "off + 1 + k \<le> length p"
      and run: "skip_name_loop p (off + 1 + k) = Ok n"
      by (subst (asm) skip_name_loop.simps, simp add: Let_def k_def split: if_splits)+
    define l where "l = take k (drop (Suc off) p)"
    have len: "length l = k" using \<open>off + 1 + k \<le> length p\<close> by (simp add: l_def)
    have "p ! off = of_nat k" by (simp add: k_def)
    with d len have "drop off p = of_nat (length l) # l @ drop (k + Suc off) p"
      by (metis l_def append_take_drop_id drop_drop)
    moreover have "k \<noteq> 0" using lab(2) by (simp add: k_def unat_eq_zero)
    then have "label_ok l"
      using \<open>p ! off \<le> 63\<close> len by (simp add: label_ok_def k_def word_le_nat_alt)
    ultimately show ?thesis using label len run by metis
  qed
qed

lemma skip_loop_sound:
  assumes "skip_name_loop p off = Ok n"
  shows "\<exists>ls t rest. drop off p = encode_labels ls @ t @ rest \<and> list_all label_ok ls
    \<and> name_tail t \<and> n = off + length (encode_labels ls @ t)"
  using assms
proof (induction "length p - off" arbitrary: off rule: less_induct)
  case less
  from less.prems show ?case
  proof (cases rule: skip_step_inv)
    case (stop t rest)
    then show ?thesis
      by (intro exI [of _ "[]"] exI [of _ t] exI [of _ rest]) simp
  next
    case (label l rest)
    from drop_nth_Cons [OF label(1)] have "off < length p" by simp
    then have "length p - (off + 1 + length l) < length p - off" by simp
    from less.hyps [OF this label(3)] obtain ls t r where
      ls: "drop (off + 1 + length l) p = encode_labels ls @ t @ r" "list_all label_ok ls"
        "name_tail t" "n = off + 1 + length l + length (encode_labels ls @ t)"
      by blast
    have "rest = drop (off + 1 + length l) p"
      by (rule drop_label [OF label(1), symmetric])
    with ls label show ?thesis
      by (intro exI [of _ "l # ls"] exI [of _ t] exI [of _ r]) simp
  qed
qed

interpretation answer: name_scanner "\<lambda>p. ok_of (skip_name p)" answer_name
proof unfold_locales
  fix p n assume "ok_of (skip_name p) = Some n"
  then have "skip_name_loop p 0 = Ok n" by (simp add: skip_name_def)
  from skip_loop_sound [OF this] obtain ls t rest where
    "p = (encode_labels ls @ t) @ rest" "list_all label_ok ls" "name_tail t"
    "n = length (encode_labels ls @ t)" by auto
  then show "n \<le> length p \<and> answer_name (take n p)"
    unfolding answer_name_def by (metis append_eq_conv_conj length_append le_add1)
next
  fix w rest assume "answer_name w"
  then show "ok_of (skip_name (w @ rest)) = Some (length w)"
    using skip_loop_complete [of 0 "w @ rest"] by (auto simp: answer_name_def skip_name_def)
qed (auto simp: answer_name_def name_tail_def)

section \<open>Properties\<close>

lemma qname_loop_truncated:
  assumes "drop off p = take k (qname_wire ls)" and "k < length (qname_wire ls)"
    and "list_all wf_label ls" and "tot + domain_len ls \<le> 255"
  shows "fst (parse_qname_loop p off tot out) = Err UnexpectedEndOfPayload"
  using assms
proof (induction ls arbitrary: off k tot out)
  case Nil
  then have "drop off p = []" by (simp add: qname_wire_def)
  then show ?case by (subst parse_qname_loop.simps) simp
next
  case (Cons l ls)
  show ?case
  proof (cases k)
    case 0
    with Cons.prems(1) have "drop off p = []" by simp
    then show ?thesis by (subst parse_qname_loop.simps) simp
  next
    case (Suc m)
    have lok: "label_ok l" using Cons.prems(3) by (simp add: wf_label_def)
    have wire: "qname_wire (l # ls) = of_nat (length l) # l @ qname_wire ls"
      by (simp add: qname_wire_def)
    with Cons.prems(1) Suc have d: "drop off p = of_nat (length l) # take m (l @ qname_wire ls)"
      by simp
    show ?thesis
    proof (cases "m < length l")
      case True
      from drop_nth_Cons [OF d] have off: "off < length p" "p ! off = of_nat (length l)"
        and d'': "drop (Suc off) p = take m l" using True by simp_all
      have "length p - Suc off = m" using arg_cong [OF d'', of length] True by simp
      then have "length p < off + 1 + length l" using True off by simp
      with off lok show ?thesis
        by (subst parse_qname_loop.simps) (auto simp: Let_def label_ok_def)
    next
      case False
      then have d': "drop off p = of_nat (length l) # l @ take (m - length l) (qname_wire ls)"
        using d by simp
      have "m - length l < length (qname_wire ls)"
        using Cons.prems(2) Suc False by (simp add: wire)
      from Cons.IH [OF drop_label [OF d'] this] Cons.prems(3,4) show ?thesis
        using qname_step_label [OF d'] by simp
    qed
  qed
qed

lemma parse_qname_sound:
  assumes "parse_qname p [] = (Ok n, out)"
  obtains ls rest where "p = qname_wire ls @ rest" and "valid_qname ls"
    and "n = length (qname_wire ls)" and "out = dotted ls"
proof -
  from assms have "parse_qname_loop p 0 0 [] = (Ok n, out)"
    by (simp add: parse_qname_def raise_def split: if_splits)
  from qname_loop_sound [OF this] obtain ls rest where
    ls: "p = qname_wire ls @ rest" "list_all wf_label ls" "domain_len ls \<le> 255"
      "n = length (qname_wire ls)" "out = push_labels [] ls"
    by auto
  moreover from ls(2) have "list_all label_ok ls" by (simp add: list_all_iff wf_label_def)
  ultimately show ?thesis
    using push_labels_dotted that by (metis valid_qname_def)
qed

text \<open>C10. \<open>parse_qname\<close>, started on an empty output, accepts exactly the payloads that begin
  with a well-formed question name: labels of 1 to 63 ASCII bytes whose lengths (with their
  prefixes) sum to at most 255, then the root label. It returns the length of the name on the wire
  and leaves the labels joined by dots.\<close>

theorem parse_qname_iff:
  "parse_qname p [] = (Ok n, out) \<longleftrightarrow>
     (\<exists>ls rest. p = qname_wire ls @ rest \<and> valid_qname ls \<and> n = length (qname_wire ls)
       \<and> out = dotted ls)"
proof
  assume "parse_qname p [] = (Ok n, out)"
  then show "\<exists>ls rest. p = qname_wire ls @ rest \<and> valid_qname ls
      \<and> n = length (qname_wire ls) \<and> out = dotted ls"
    by (rule parse_qname_sound) blast
next
  assume "\<exists>ls rest. p = qname_wire ls @ rest \<and> valid_qname ls \<and> n = length (qname_wire ls)
    \<and> out = dotted ls"
  then obtain ls rest where p: "p = qname_wire ls @ rest" and ls: "valid_qname ls"
    and n: "n = length (qname_wire ls)" "out = dotted ls" by blast
  then have "list_all label_ok ls" by (simp add: valid_qname_def list_all_iff wf_label_def)
  with p ls n qname_loop_complete [of 0 p ls rest 0 "[]"] show "parse_qname p [] = (Ok n, out)"
    by (simp add: parse_qname_def valid_qname_def push_labels_dotted qname_wire_def)
qed

text \<open>A question name cut short by a truncated packet is always reported as a truncated
  payload, wherever the cut falls; it is never accepted and never reported as anything else.\<close>

lemma parse_qname_truncated:
  assumes "valid_qname ls" and "k < length (qname_wire ls)"
  shows "fst (parse_qname (take k (qname_wire ls)) out) = Err UnexpectedEndOfPayload"
  using assms qname_loop_truncated [of 0 "take k (qname_wire ls)" k ls 0 out]
  by (auto simp: parse_qname_def valid_qname_def raise_def)

text \<open>C30. \<open>skip_name\<close> accepts exactly the payloads that begin with an answer name: any labels of
  1 to 63 bytes, ended by the root label or by a two-byte compression pointer. It returns the
  number of bytes the name takes.\<close>

theorem skip_name_iff:
  "skip_name p = Ok n \<longleftrightarrow>
     (\<exists>ls t rest. p = encode_labels ls @ t @ rest \<and> list_all label_ok ls \<and> name_tail t
       \<and> n = length (encode_labels ls) + length t)"
proof
  assume "skip_name p = Ok n"
  then show "\<exists>ls t rest. p = encode_labels ls @ t @ rest \<and> list_all label_ok ls \<and> name_tail t
      \<and> n = length (encode_labels ls) + length t"
    using skip_loop_sound [of p 0 n] by (simp add: skip_name_def)
next
  assume "\<exists>ls t rest. p = encode_labels ls @ t @ rest \<and> list_all label_ok ls \<and> name_tail t
    \<and> n = length (encode_labels ls) + length t"
  then show "skip_name p = Ok n"
    using skip_loop_complete [of 0 p] by (auto simp: skip_name_def)
qed

lemma text_of_inject [simp]: "text_of a = text_of b \<longleftrightarrow> a = b"
proof
  assume "text_of a = text_of b"
  moreover have "inj (\<lambda>b :: u8. char_of (unat b) :: char)"
  proof (rule injI)
    fix x y :: u8
    assume "char_of (unat x) = (char_of (unat y) :: char)"
    then have "of_char (char_of (unat x)) = (of_char (char_of (unat y)) :: nat)" by simp
    then show "x = y"
      using unat_u8_less [of x] unat_u8_less [of y] by (simp add: unsigned_word_eqI)
  qed
  ultimately show "a = b" by (simp add: text_of_def)
qed simp

lemma dot_text_of: "CHR ''.'' \<in> set (text_of l) \<longleftrightarrow> 46 \<in> set l"
proof -
  have "char_of (unat b) = CHR ''.'' \<longleftrightarrow> b = 46" for b :: u8
  proof -
    have "of_char (char_of (unat b) :: char) = unat b"
      using unat_u8_less [of b] by simp
    moreover have "of_char (CHR ''.'') = (46 :: nat)" by simp
    ultimately have "char_of (unat b) = CHR ''.'' \<longleftrightarrow> unat b = 46"
      by (metis of_char_eq_iff)
    then show ?thesis by (simp add: word_unat_eq_iff)
  qed
  then show ?thesis unfolding text_of_def set_map image_iff by metis
qed

lemma parse_qname_eq:
  "valid_qname ls \<Longrightarrow> parse_qname (qname_wire ls @ rest) [] = (Ok (length (qname_wire ls)), dotted ls)"
  using qname_loop_complete [of 0 "qname_wire ls @ rest" ls rest 0 "[]"]
  by (simp add: parse_qname_def valid_qname_def push_labels_dotted qname_wire_def list_all_iff wf_label_def)

lemma join_nonempty: "x \<noteq> [] \<Longrightarrow> join sep (x # xs) \<noteq> []"
  by (cases xs) simp_all

lemma dotted_nonempty: "valid_qname (l # ls) \<Longrightarrow> dotted (l # ls) \<noteq> []"
proof -
  assume "valid_qname (l # ls)"
  then have "text_of l \<noteq> []" by (auto simp: valid_qname_def wf_label_def label_ok_def text_of_def)
  then show ?thesis by (simp add: dotted_def join_nonempty)
qed

lemma text_of_parts: "split_on (CHR ''.'') (text_of l) = map text_of (split_on 46 l)"
proof -
  have "char_of (unat b) = (char_of (unat (46 :: u8)) :: char) \<longleftrightarrow> b = 46" for b :: u8
    using text_of_inject [of "[b]" "[46]"] by (simp add: text_of_def)
  then have "split_on (char_of (unat (46 :: u8))) (text_of l) = map text_of (split_on 46 l)"
    using split_on_map [of l "\<lambda>b. char_of (unat b)" 46] by (simp add: text_of_def [abs_def])
  moreover have "char_of (46 :: nat) = CHR ''.''" by code_simp
  ultimately show ?thesis by simp
qed

text \<open>The parts of a name: its labels, cut at the dots they contain. The text that \<open>parse_qname\<close> leaves
  is determined by the parts and determines them.\<close>

definition name_parts :: "bytes list \<Rightarrow> bytes list" where
  "name_parts ls = concat (map (split_on 46) ls)"

lemma dotted_parts: "dotted ls = join ''.'' (map text_of (name_parts ls))"
proof -
  have "map text_of (name_parts ls) = concat (map (split_on (CHR ''.'') \<circ> text_of) ls)"
    by (simp add: name_parts_def map_concat text_of_parts comp_def)
  moreover have "[] \<notin> set (map (split_on (CHR ''.'') \<circ> text_of) ls)" by (auto dest: sym)
  ultimately have "join ''.'' (map text_of (name_parts ls))
      = join ''.'' (map (join ''.'') (map (split_on (CHR ''.'') \<circ> text_of) ls))"
    by (metis join_concat)
  also have "\<dots> = dotted ls" by (simp add: dotted_def join_split_on comp_def)
  finally show ?thesis by simp
qed

lemma name_parts_simps: "name_parts ls = [] \<longleftrightarrow> ls = []" "p \<in> set (name_parts ls) \<Longrightarrow> 46 \<notin> set p"
  by (auto simp: name_parts_def split_on_parts)

lemma name_parts_free: "46 \<notin> set (concat ls) \<Longrightarrow> name_parts ls = ls"
  by (induction ls) (simp_all add: name_parts_def split_on_free)

lemma split_dotted: "ls \<noteq> [] \<Longrightarrow> split_on (CHR ''.'') (dotted ls) = map text_of (name_parts ls)"
  unfolding dotted_parts by (intro split_on_join) (auto simp: name_parts_simps dot_text_of)

lemma dotted_eq_iff:
  assumes "valid_qname ls" and "valid_qname ls'"
  shows "dotted ls = dotted ls' \<longleftrightarrow> name_parts ls = name_parts ls'"
proof
  assume eq: "dotted ls = dotted ls'"
  have e: "dotted ks = [] \<longleftrightarrow> ks = []" if "valid_qname ks" for ks
    using that dotted_nonempty by (cases ks) (auto simp: dotted_def)
  have "inj text_of" by (rule injI) simp
  then show "name_parts ls = name_parts ls'"
    using eq e [OF assms(1)] e [OF assms(2)] split_dotted [of ls] split_dotted [of ls']
    by (cases "ls = []"; cases "ls' = []") (auto simp: inj_map_eq_map)
qed (simp add: dotted_parts)

text \<open>Joining two labels by a dot gives a different name on the wire, of the same length and with the
  same text.\<close>

lemma merge_labels:
  assumes "valid_qname (ks @ l # l' # ms)" and "length l + length l' < 63"
  shows "valid_qname (ks @ (l @ 46 # l') # ms)"
    and "dotted (ks @ (l @ 46 # l') # ms) = dotted (ks @ l # l' # ms)"
    and "length (qname_wire (ks @ (l @ 46 # l') # ms)) = length (qname_wire (ks @ l # l' # ms))"
    and "qname_wire (ks @ (l @ 46 # l') # ms) \<noteq> qname_wire (ks @ l # l' # ms)"
proof -
  have len: "domain_len (ks @ (l @ 46 # l') # ms) = domain_len (ks @ l # l' # ms)"
    by (simp add: domain_len_def)
  then show "valid_qname (ks @ (l @ 46 # l') # ms)"
    using assms by (auto simp: valid_qname_def wf_label_def label_ok_def is_ascii_def)
  show "dotted (ks @ (l @ 46 # l') # ms) = dotted (ks @ l # l' # ms)"
    unfolding dotted_parts by (simp add: name_parts_def split_on_append)
  show "length (qname_wire (ks @ (l @ 46 # l') # ms)) = length (qname_wire (ks @ l # l' # ms))"
    using len by (simp add: qname_wire_def length_encode_labels)
  have ok: "label_ok (l @ 46 # l')" "label_ok l"
    using assms by (auto simp: valid_qname_def wf_label_def label_ok_def)
  then have "unat (of_nat (length (l @ 46 # l')) :: u8) \<noteq> unat (of_nat (length l) :: u8)"
    unfolding ok [THEN label_length_word] by simp
  then show "qname_wire (ks @ (l @ 46 # l') # ms) \<noteq> qname_wire (ks @ l # l' # ms)"
    by (auto simp: qname_wire_def encode_labels_def encode_label_def)
qed

text \<open>C36. When two names leave the same \<open>domain_name\<close>, the text that the policy engine compares with its
  allow-list: of well-formed names exactly those that agree once their labels are cut at the dots inside
  them. Names without such dots are therefore told apart, and every name with two neighbouring labels of
  together at most 62 bytes shares text and length with the different name in which a dot joins the two,
  so that \<open>parse_qname\<close> returns the same for both.\<close>

theorem domain_name_collisions:
  assumes "valid_qname ls" and "valid_qname ls'"
  shows "(snd (parse_qname (qname_wire ls @ rest) []) = snd (parse_qname (qname_wire ls' @ rest') [])
        \<longleftrightarrow> concat (map (split_on 46) ls) = concat (map (split_on 46) ls'))
    \<and> (46 \<notin> set (concat (ls @ ls')) \<longrightarrow>
        (snd (parse_qname (qname_wire ls @ rest) []) = snd (parse_qname (qname_wire ls' @ rest') [])
          \<longleftrightarrow> ls = ls'))
    \<and> (\<forall>ks l l' ms. ls = ks @ l # l' # ms \<and> length l + length l' \<le> 62 \<longrightarrow>
        parse_qname (qname_wire (ks @ (l @ 46 # l') # ms) @ rest) [] = parse_qname (qname_wire ls @ rest) []
        \<and> fst (parse_qname (qname_wire ls @ rest) []) = Ok (length (qname_wire ls))
        \<and> qname_wire (ks @ (l @ 46 # l') # ms) \<noteq> qname_wire ls)"
proof (intro conjI allI impI)
  let ?eq = "snd (parse_qname (qname_wire ls @ rest) []) = snd (parse_qname (qname_wire ls' @ rest') [])"
  show iff: "?eq \<longleftrightarrow> concat (map (split_on 46) ls) = concat (map (split_on 46) ls')"
    using dotted_eq_iff [OF assms] by (simp add: parse_qname_eq assms name_parts_def)
  assume "46 \<notin> set (concat (ls @ ls'))"
  then have "name_parts ls = ls" "name_parts ls' = ls'" by (simp_all add: name_parts_free)
  then show "?eq \<longleftrightarrow> ls = ls'" using iff by (simp add: name_parts_def)
next
  fix ks l l' ms
  assume m: "ls = ks @ l # l' # ms \<and> length l + length l' \<le> 62"
  then have "valid_qname (ks @ l # l' # ms)" "length l + length l' < 63" using assms(1) by simp_all
  note merge_labels [OF this]
  with m assms(1) show
      "parse_qname (qname_wire (ks @ (l @ 46 # l') # ms) @ rest) [] = parse_qname (qname_wire ls @ rest) []"
      "fst (parse_qname (qname_wire ls @ rest) []) = Ok (length (qname_wire ls))"
      "qname_wire (ks @ (l @ 46 # l') # ms) \<noteq> qname_wire ls"
    by (simp_all add: parse_qname_eq)
qed

theorem domain_name_collisions_witness:
  "parse_qname (qname_wire [bytes_of_text ''leetcode.com'']) []
     = parse_qname (qname_wire [bytes_of_text ''leetcode'', bytes_of_text ''com'']) []
   \<and> qname_wire [bytes_of_text ''leetcode.com'']
     \<noteq> qname_wire [bytes_of_text ''leetcode'', bytes_of_text ''com'']
   \<and> snd (parse_qname (qname_wire [bytes_of_text ''leetcode'', bytes_of_text ''com'']) [])
     \<noteq> snd (parse_qname (qname_wire [bytes_of_text ''leetcode'', bytes_of_text ''org'']) [])"
proof -
  let ?l = "bytes_of_text ''leetcode''" and ?c = "bytes_of_text ''com''" and ?o = "bytes_of_text ''org''"
  have v: "valid_qname [?l, ?c]" "valid_qname [?l, ?o]" by code_simp+
  have d: "46 \<notin> set (concat ([?l, ?c] @ [?l, ?o]))" by code_simp
  have s: "length ?l + length ?c \<le> 62" "?l @ 46 # ?c = bytes_of_text ''leetcode.com''" "?c \<noteq> ?o" by code_simp+
  note c = domain_name_collisions [OF v, of "[]" "[]"]
  have "snd (parse_qname (qname_wire [?l, ?c]) []) \<noteq> snd (parse_qname (qname_wire [?l, ?o]) [])"
    using c [THEN conjunct2, THEN conjunct1] d s(3) by simp
  moreover have "parse_qname (qname_wire ([] @ (?l @ 46 # ?c) # []) @ []) [] = parse_qname (qname_wire [?l, ?c] @ []) []
      \<and> qname_wire ([] @ (?l @ 46 # ?c) # []) \<noteq> qname_wire [?l, ?c]"
    using c s(1) by blast
  ultimately show ?thesis using s(2) by simp
qed

end
