(* ===== verification/Dns_Answers.thy ===== *)
theory Dns_Answers
  imports Dns_Names
begin

text \<open>
  The answer section and the whole parser. First the loop of \<open>parse_rdata\<close>: it never panics, and
  whatever it collected is a list of 4- and 16-byte addresses (\<open>collected\<close>). Then
  \<open>parse_dns_into\<close>: when it panics, what it depends on (neither the slot's previous contents nor
  the bytes past \<open>payload_len\<close>), what a successful run leaves, and its result on a response with
  one address record. With several answers every iteration after the first restarts from an offset
  relative to the wrong base; \<open>parse_rdata_rereads_first\<close> states what the code does then.
\<close>

section \<open>Record types and collected addresses\<close>

definition record_type :: "u16 \<Rightarrow> RecordType" where
  "record_type val =
     (if val = 1 then RecA else if val = 5 then RecCNAME else if val = 28 then RecAAAA
      else RecUNSUPPORTED val)"

lemma RecordType_try_from_eq [simp]: "RecordType_try_from val = ret (record_type val)"
  by (simp add: RecordType_try_from_def record_type_def)

text \<open>The text and the family of an address by its length, and the state of a slot after
  \<open>addrs\<close> have been stored.\<close>

definition addr_text :: "bytes \<Rightarrow> string" where
  "addr_text a = (if length a = 4 then ipv4_display a else ipv6_display a)"

definition addr_family :: "bytes \<Rightarrow> u32" where
  "addr_family a = (if length a = 4 then AF_INET else AF_INET6)"

definition collected :: "bytes list \<Rightarrow> DnsResponse \<Rightarrow> bool" where
  "collected addrs slot \<longleftrightarrow>
     list_all (\<lambda>a. length a = 4 \<or> length a = 16) addrs
     \<and> resolved_ip_raw slot = concat addrs
     \<and> resolved_ip slot = concat (map addr_text addrs)
     \<and> ip_family slot = (if addrs = [] then 0 else addr_family (last addrs))"

fun repeatM :: "nat \<Rightarrow> ('s, 'e, unit) prog \<Rightarrow> ('s, 'e, unit) prog" where
  "repeatM 0 m = ret ()"
| "repeatM (Suc n) m = bindM m (\<lambda>_. repeatM n m)"

definition rr_wire :: "bytes \<Rightarrow> u16 \<Rightarrow> bytes \<Rightarrow> bytes \<Rightarrow> bytes \<Rightarrow> bytes" where
  "rr_wire name rtype cls ttl rdata =
     name @ be_bytes 2 rtype @ cls @ ttl @ be_bytes 2 (of_nat (length rdata) :: u16) @ rdata"

text \<open>An event around a DNS message, for the witnesses.\<close>

definition sample_event :: "bytes \<Rightarrow> RawDnsEvent" where
  "sample_event msg =
     \<lparr>ev_src_ip = from_ipv4 [8, 8, 8, 8], ev_dst_ip = from_ipv4 [10, 0, 0, 2], ev_src_port = 53,
      ev_dst_port = 40000, ev_pad = 0, ev_payload_len = of_nat (length msg), ev_timestamp_ns = 7,
      ev_payload = msg @ replicate (512 - length msg) 0\<rparr>"

definition sample_msg :: bytes where
  "sample_msg = [0, 1, 0x81, 0x80, 0, 1, 0, 1, 0, 0, 0, 0] @ qname_wire [[97, 98], [99]] @ [0, 1, 0, 1]
     @ rr_wire [0xC0, 12] 1 [0, 1] [0, 0, 0, 60] [1, 2, 3, 4]"

section \<open>The loop over the answers\<close>

lemma skip_name_no_panic [panic_free]: "skip_name p \<noteq> Panic"
proof -
  have "skip_name_loop p off \<noteq> Panic" for off
  proof (induction p off rule: skip_name_loop.induct)
    case (1 p off)
    then show ?case by (subst skip_name_loop.simps) (auto simp: Let_def)
  qed
  then show ?thesis by (simp add: skip_name_def)
qed

lemma index_ret: "i < length xs \<Longrightarrow> bindM (index_at i xs) f = f (xs ! i)"
  by simp

lemma nth4: "length r = 4 \<Longrightarrow> [r ! 0, r ! Suc 0, r ! 2, r ! 3] = r"
  by (rule nth_equalityI) (auto simp: less_Suc_eq numeral_eq_Suc)

lemma store_A:
  "length r = 4 \<Longrightarrow> store_rdata RecA 4 r slot =
     (Ok (), slot\<lparr>resolved_ip := resolved_ip slot @ ipv4_display r,
        resolved_ip_raw := resolved_ip_raw slot @ r, ip_family := AF_INET\<rparr>)"
  using nth4 [of r] by (simp add: store_rdata_def modify_def)

lemma store_AAAA:
  "length r = 16 \<Longrightarrow> store_rdata RecAAAA 16 r slot =
     (Ok (), slot\<lparr>resolved_ip := resolved_ip slot @ ipv6_display r,
        resolved_ip_raw := resolved_ip_raw slot @ r, ip_family := AF_INET6\<rparr>)"
  by (simp add: store_rdata_def modify_def)

lemma store_rdata_cases:
  assumes "length r = n"
  obtains (addr) "rt = RecA \<and> n = 4 \<or> rt = RecAAAA \<and> n = 16"
      "store_rdata rt n r slot = (Ok (), slot\<lparr>resolved_ip := resolved_ip slot @ addr_text r,
         resolved_ip_raw := resolved_ip_raw slot @ r, ip_family := addr_family r\<rparr>)"
  | (skip) "store_rdata rt n r slot = (Ok (), slot)"
  | (bad) "store_rdata rt n r slot = (Err UnexpectedEndOfPayload, slot)"
proof (cases rt)
  case RecA
  then show ?thesis using assms addr bad store_A [of r slot]
    by (cases "n = 4") (auto simp: addr_text_def addr_family_def store_rdata_def raise_def)
next
  case RecAAAA
  then show ?thesis using assms addr bad store_AAAA [of r slot]
    by (cases "n = 16") (auto simp: addr_text_def addr_family_def store_rdata_def raise_def)
qed (use skip in \<open>auto simp: store_rdata_def ret_def\<close>)

lemma collected_store:
  assumes "collected addrs slot" and "length r = n"
    and "store_rdata rt n r slot = (res, slot')"
  shows "\<exists>new. collected (addrs @ new) slot' \<and> length new \<le> 1 \<and> res \<noteq> Panic"
  using assms(2)
proof (cases rule: store_rdata_cases [where slot = slot and rt = rt])
  case addr
  with assms have "collected (addrs @ [r]) slot'" "res \<noteq> Panic"
    by (auto simp: collected_def)
  then show ?thesis by (intro exI [of _ "[r]"]) simp
next
  case skip
  with assms show ?thesis by (intro exI [of _ "[]"]) auto
next
  case bad
  with assms show ?thesis by (intro exI [of _ "[]"]) auto
qed

text \<open>One iteration whose record lies inside the payload.\<close>

lemma rdata_step:
  assumes off: "off < length p" and k: "skip_name (drop off p) = Ok k"
    and d: "k + 10 \<le> length p" and len: "unat (of_be [p ! (k + 8), p ! (k + 9)] :: u16) = n"
    and n: "k + 10 + n \<le> length p"
  shows "parse_rdata_loop p off (Suc m) slot =
    bindM (store_rdata (record_type (of_be [p ! k, p ! (k + 1)])) n (take n (drop (k + 10) p)))
      (\<lambda>_. parse_rdata_loop p (k + 10 + n) m) slot"
proof -
  have "bindM (lift_outcome (skip_name (drop off p))) f = f k" for f :: "nat \<Rightarrow> (DnsResponse, DnsParseError, unit) prog"
    using k by (simp add: fun_eq_iff lift_outcome_def)
  with off d len n show ?thesis
    by (simp add: RR_FIXED_HDR_LEN_def Let_def)
qed

text \<open>Every other iteration is an error that leaves the slot alone.\<close>

lemma rdata_step_cases:
  obtains (err) e where "parse_rdata_loop p off (Suc m) slot = (Err e, slot)"
  | (inside) k n where "off < length p" "k + 10 + n \<le> length p"
      "parse_rdata_loop p off (Suc m) slot =
        bindM (store_rdata (record_type (of_be [p ! k, p ! (k + 1)])) n (take n (drop (k + 10) p)))
          (\<lambda>_. parse_rdata_loop p (k + 10 + n) m) slot"
proof (cases "off < length p \<and> (\<exists>k. skip_name (drop off p) = Ok k)")
  case False
  then have "\<exists>e. parse_rdata_loop p off (Suc m) slot = (Err e, slot)"
    using skip_name_no_panic [of "drop off p"]
    by (cases "skip_name (drop off p)") (auto simp: raise_def bindM_def lift_outcome_def)
  then show ?thesis using err by blast
next
  case True
  then obtain k where k: "off < length p" "skip_name (drop off p) = Ok k" by blast
  define n where "n = unat (of_be [p ! (k + 8), p ! (k + 9)] :: u16)"
  show ?thesis
  proof (cases "k + 10 + n \<le> length p")
    case True
    then show ?thesis using k rdata_step [OF k, of n m slot] inside n_def by simp
  next
    case False
    have "bindM (lift_outcome (skip_name (drop off p))) f = f k" for f :: "nat \<Rightarrow> (DnsResponse, DnsParseError, unit) prog"
      using k by (simp add: fun_eq_iff lift_outcome_def)
    with False k have "\<exists>e. parse_rdata_loop p off (Suc m) slot = (Err e, slot)"
      by (auto simp: RR_FIXED_HDR_LEN_def Let_def n_def raise_def)
    then show ?thesis using err by blast
  qed
qed

declare parse_rdata_loop.simps(2) [simp del]

lemma collected_loop:
  assumes "collected addrs slot" and "parse_rdata_loop p off m slot = (res, slot')"
  shows "\<exists>new. collected (addrs @ new) slot' \<and> length new \<le> m \<and> res \<noteq> Panic"
  using assms
proof (induction m arbitrary: off addrs slot)
  case 0
  then show ?case by (intro exI [of _ "[]"]) (auto simp: ret_def)
next
  case (Suc m)
  show ?case
  proof (cases rule: rdata_step_cases [of p off m slot])
    case (err e)
    with Suc.prems show ?thesis by (intro exI [of _ "[]"]) auto
  next
    case (inside k n)
    let ?st = "store_rdata (record_type (of_be [p ! k, p ! (k + 1)])) n (take n (drop (k + 10) p)) slot"
    obtain r1 s1 where st: "?st = (r1, s1)" by fastforce
    from collected_store [OF Suc.prems(1) _ st] inside(2) obtain new1 where
      c1: "collected (addrs @ new1) s1" "length new1 \<le> 1" "r1 \<noteq> Panic" by auto
    show ?thesis
    proof (cases r1)
      case (Ok u)
      with inside(3) st Suc.prems(2) have "parse_rdata_loop p (k + 10 + n) m s1 = (res, slot')"
        by simp
      from Suc.IH [OF c1(1) this] obtain new2 where
        "collected ((addrs @ new1) @ new2) slot'" "length new2 \<le> m" "res \<noteq> Panic" by blast
      with c1(2) show ?thesis by (intro exI [of _ "new1 @ new2"]) simp
    next
      case (Err e)
      with inside(3) st Suc.prems(2) c1 show ?thesis by (intro exI [of _ new1]) auto
    qed (use c1(3) in simp)
  qed
qed

text \<open>The loop writes three fields of the slot only.\<close>

definition same_frame :: "DnsResponse \<Rightarrow> DnsResponse \<Rightarrow> bool" where
  "same_frame s t \<longleftrightarrow> src_ip s = src_ip t \<and> dst_ip s = dst_ip t \<and> src_port s = src_port t
     \<and> dst_port s = dst_port t \<and> timestamp_ns s = timestamp_ns t \<and> domain_name s = domain_name t"

lemma store_frame: "length r = n \<Longrightarrow> same_frame slot (snd (store_rdata rt n r slot))"
  by (erule store_rdata_cases [where slot = slot and rt = rt]) (auto simp: same_frame_def)

lemma loop_frame: "same_frame slot (snd (parse_rdata_loop p off m slot))"
proof (induction m arbitrary: off slot)
  case 0
  then show ?case by (simp add: ret_def same_frame_def)
next
  case (Suc m)
  show ?case
  proof (cases rule: rdata_step_cases [of p off m slot])
    case (err e)
    then show ?thesis by (simp add: same_frame_def)
  next
    case (inside k n)
    let ?st = "store_rdata (record_type (of_be [p ! k, p ! (k + 1)])) n (take n (drop (k + 10) p)) slot"
    obtain r1 s1 where st: "?st = (r1, s1)" by fastforce
    have "same_frame slot s1"
      using store_frame [of "take n (drop (k + 10) p)" n slot] inside(2) st by (metis length_take
          length_drop min.absorb2 snd_conv le_diff_conv2 add.commute add_leD1)
    with Suc.IH [of s1 "k + 10 + n"] inside(3) st show ?thesis
      by (cases r1) (auto simp: same_frame_def)
  qed
qed

section \<open>The whole parser\<close>

definition ip_ok :: "RawIpAddr \<Rightarrow> bool" where
  "ip_ok a \<longleftrightarrow> ia_family a = AF_INET \<or> ia_family a = AF_INET6"

definition ip_text :: "RawIpAddr \<Rightarrow> string" where
  "ip_text a =
     (if ia_family a = AF_INET then ipv4_display (take 4 (ia_bytes a)) else ipv6_display (ia_bytes a))"

definition base_slot :: "RawDnsEvent \<Rightarrow> DnsResponse" where
  "base_slot ev = default_DnsResponse\<lparr>src_ip := ip_text (ev_src_ip ev), dst_ip := ip_text (ev_dst_ip ev),
     src_port := ucast (ev_src_port ev), dst_port := ucast (ev_dst_port ev),
     timestamp_ns := ev_timestamp_ns ev\<rparr>"

definition live_payload :: "RawDnsEvent \<Rightarrow> bytes" where
  "live_payload ev = take (unat (ev_payload_len ev)) (ev_payload ev)"

lemma reset_slot_default: "reset_slot slot = default_DnsResponse"
  by (simp add: reset_slot_def default_DnsResponse_def)

lemma take4: "4 \<le> length xs \<Longrightarrow> [xs ! 0, xs ! Suc 0, xs ! 2, xs ! 3] = take 4 xs"
  using nth4 [of "take 4 xs"] by simp

lemma parse_ip_ok: "ip_ok a \<Longrightarrow> wf_ip a \<Longrightarrow> parse_ip a out = (Ok (), out @ ip_text a)"
  by (auto simp: parse_ip_def ip_ok_def ip_text_def modify_def wf_ip_def take4)

lemma parse_ip_bad:
  "\<not> ip_ok a \<Longrightarrow> parse_ip a out = (Err (UnsupportedAddressFamily (ia_family a)), out)"
  by (simp add: parse_ip_def ip_ok_def raise_def)

lemma parse_qname_no_panic [panic_free]: "fst (parse_qname p out) \<noteq> Panic"
proof -
  have "fst (parse_qname_loop p off tot out) \<noteq> Panic" for off tot out
  proof (induction p off tot out rule: parse_qname_loop.induct)
    case (1 p off tot out)
    then show ?case
      by (subst parse_qname_loop.simps) (auto simp: Let_def split: option.splits)
  qed
  then show ?thesis by (simp add: parse_qname_def raise_def)
qed

lemma wf_eventD:
  "wf_event ev \<Longrightarrow> wf_ip (ev_src_ip ev)" "wf_event ev \<Longrightarrow> wf_ip (ev_dst_ip ev)"
  "wf_event ev \<Longrightarrow> length (ev_payload ev) = 512"
  by (simp_all add: wf_event_def MAX_DNS_PAYLOAD_SIZE_def)

lemma parse_dns_front:
  assumes "wf_event ev" and "ip_ok (ev_src_ip ev)" and "ip_ok (ev_dst_ip ev)"
    and "12 \<le> unat (ev_payload_len ev)" and "unat (ev_payload_len ev) \<le> 512"
  shows "parse_dns_into ev slot =
    (let P = live_payload ev in
     case parse_qname (drop 12 P) [] of
       (Ok q, dn) \<Rightarrow>
         if 12 + q + 4 > length P then (Err UnexpectedEndOfPayload, (base_slot ev)\<lparr>domain_name := dn\<rparr>)
         else parse_rdata (drop (12 + q + 4) P) (of_be [P ! 6, P ! 7]) ((base_slot ev)\<lparr>domain_name := dn\<rparr>)
     | (Err e, dn) \<Rightarrow> (Err e, (base_slot ev)\<lparr>domain_name := dn\<rparr>)
     | (Panic, dn) \<Rightarrow> (Panic, (base_slot ev)\<lparr>domain_name := dn\<rparr>))"
  using assms wf_eventD [OF assms(1)]
  by (auto simp: parse_dns_into_def reset_slot_default on_field_def bindM_def modify_def
      parse_ip_ok default_DnsResponse_def base_slot_def DnsHdr_LEN_def Let_def live_payload_def
      DnsHdr_from_def raise_def ret_def split: prod.splits outcome.splits)

lemma parse_dns_bad_ip:
  assumes "wf_event ev" and "\<not> (ip_ok (ev_src_ip ev) \<and> ip_ok (ev_dst_ip ev))"
  shows "\<exists>af. fst (parse_dns_into ev slot) = Err (UnsupportedAddressFamily af)"
  using assms wf_eventD [OF assms(1)]
  by (cases "ip_ok (ev_src_ip ev)")
    (auto simp: parse_dns_into_def on_field_def bindM_def modify_def parse_ip_ok parse_ip_bad)

lemma parse_dns_short:
  assumes "wf_event ev" and "ip_ok (ev_src_ip ev)" and "ip_ok (ev_dst_ip ev)"
    and "unat (ev_payload_len ev) < 12"
  shows "parse_dns_into ev slot = (Err UnexpectedEndOfPayload, base_slot ev)"
  using assms wf_eventD [OF assms(1)]
  by (simp add: parse_dns_into_def reset_slot_default on_field_def bindM_def modify_def
      parse_ip_ok default_DnsResponse_def base_slot_def DnsHdr_LEN_def raise_def)

lemma parse_dns_long:
  assumes "wf_event ev" and "ip_ok (ev_src_ip ev)" and "ip_ok (ev_dst_ip ev)"
    and "512 < unat (ev_payload_len ev)"
  shows "parse_dns_into ev slot = (Panic, base_slot ev)"
  using assms wf_eventD [OF assms(1)]
  by (simp add: parse_dns_into_def reset_slot_default on_field_def bindM_def modify_def
      parse_ip_ok default_DnsResponse_def base_slot_def DnsHdr_LEN_def slice_to_def panic_def)

lemma length_live_payload:
  "wf_event ev \<Longrightarrow> unat (ev_payload_len ev) \<le> 512 \<Longrightarrow> length (live_payload ev) = unat (ev_payload_len ev)"
  by (simp add: live_payload_def wf_eventD)

lemma parse_rdata_no_panic [panic_free]:
  assumes "collected addrs slot"
  shows "fst (parse_rdata p cnt slot) \<noteq> Panic"
proof (cases "parse_rdata_loop p 0 (unat cnt) slot")
  case (Pair r s)
  from collected_loop [OF assms Pair] Pair show ?thesis by (auto simp: parse_rdata_def raise_def)
qed

lemma collected_base [simp]: "collected [] ((base_slot ev)\<lparr>domain_name := dn\<rparr>)"
  by (simp add: collected_def base_slot_def default_DnsResponse_def)

lemma parse_dns_no_panic:
  assumes "wf_event ev" and "unat (ev_payload_len ev) \<le> 512"
  shows "fst (parse_dns_into ev slot) \<noteq> Panic"
proof (cases "ip_ok (ev_src_ip ev) \<and> ip_ok (ev_dst_ip ev)")
  case False
  then show ?thesis using parse_dns_bad_ip [OF assms(1) False, of slot] by auto
next
  case ip: True
  show ?thesis
  proof (cases "unat (ev_payload_len ev) < 12")
    case True
    then show ?thesis using ip parse_dns_short [OF assms(1)] by simp
  next
    case False
    then show ?thesis
      using ip parse_dns_front [OF assms(1) _ _ _ assms(2), of slot]
        parse_qname_no_panic [of "drop 12 (live_payload ev)" "[]"]
        parse_rdata_no_panic [OF collected_base]
      by (auto simp: Let_def split: prod.splits outcome.splits if_splits)
  qed
qed

section \<open>Properties\<close>

text \<open>C14. The parser panics in one situation only: both address families are supported and
  \<open>payload_len\<close> exceeds the 512 bytes of the payload array. Every other event, however malformed its
  payload, ends in \<open>Ok\<close> or in an error value: no slice or index of the parser is ever out of range.\<close>

theorem parse_dns_panic_iff:
  assumes "wf_event ev"
  shows "fst (parse_dns_into ev slot) = Panic \<longleftrightarrow>
    ip_ok (ev_src_ip ev) \<and> ip_ok (ev_dst_ip ev) \<and> 512 < unat (ev_payload_len ev)"
proof (cases "ip_ok (ev_src_ip ev) \<and> ip_ok (ev_dst_ip ev)")
  case False
  then show ?thesis using parse_dns_bad_ip [OF assms False, of slot] by auto
next
  case True
  then show ?thesis
    using parse_dns_no_panic [OF assms, of slot] parse_dns_long [OF assms, of slot]
    by (cases "512 < unat (ev_payload_len ev)") auto
qed

lemma wf_sample_event: "length msg \<le> 512 \<Longrightarrow> wf_event (sample_event msg)"
  by (simp add: wf_event_def sample_event_def MAX_DNS_PAYLOAD_SIZE_def)

theorem parse_dns_panic_iff_witness:
  "wf_event ((sample_event [])\<lparr>ev_payload_len := 513\<rparr>)
   \<and> fst (parse_dns_into ((sample_event [])\<lparr>ev_payload_len := 513\<rparr>) default_DnsResponse) = Panic"
proof -
  have w: "wf_event ((sample_event [])\<lparr>ev_payload_len := 513\<rparr>)"
    using wf_sample_event [of "[]"] by (simp add: wf_event_def)
  show ?thesis
    using w parse_dns_panic_iff [OF w, of default_DnsResponse]
    by (simp add: sample_event_def ip_ok_def from_ipv4_def)
qed

text \<open>C27. The result does not depend on what the slot held before: the parser may be handed a
  recycled buffer with the contents of any earlier event, and outcome and slot are the same, on
  errors too.\<close>

theorem parse_dns_slot_independent: "parse_dns_into ev slot = parse_dns_into ev slot'"
  by (simp add: parse_dns_into_def reset_slot_default)

text \<open>The parser reads the addresses, the ports, the timestamp and the live part of the payload.\<close>

lemma parse_dns_live:
  assumes "wf_event ev" and "wf_event ev'" and "live_payload ev' = live_payload ev"
    and "ev_src_ip ev' = ev_src_ip ev" "ev_dst_ip ev' = ev_dst_ip ev" "ev_src_port ev' = ev_src_port ev"
      "ev_dst_port ev' = ev_dst_port ev" "ev_payload_len ev' = ev_payload_len ev" "ev_timestamp_ns ev' = ev_timestamp_ns ev"
  shows "parse_dns_into ev' slot = parse_dns_into ev slot"
proof -
  have "slice_to n (ev_payload ev') = (slice_to n (ev_payload ev) :: (DnsResponse, DnsParseError, bytes) prog)"
    if "n = unat (ev_payload_len ev)" for n
    using that assms(3,8) wf_eventD(3) [OF assms(1)] wf_eventD(3) [OF assms(2)] by (simp add: slice_to_def live_payload_def)
  then show ?thesis by (simp add: parse_dns_into_def Let_def assms(4-9))
qed

text \<open>C28. The result does not depend on the payload bytes past \<open>payload_len\<close> (what the ring buffer
  held before) nor on the padding.\<close>

theorem parse_dns_ignores_stale:
  assumes "wf_event ev" and "length stale = 512"
    and "take (unat (ev_payload_len ev)) stale = live_payload ev"
  shows "parse_dns_into (ev\<lparr>ev_payload := stale, ev_pad := pad\<rparr>) slot = parse_dns_into ev slot"
  by (rule parse_dns_live [OF assms(1)]) (use assms in \<open>simp_all add: live_payload_def wf_event_def MAX_DNS_PAYLOAD_SIZE_def\<close>)

theorem parse_dns_ignores_stale_witness:
  "parse_dns_into ((sample_event [1, 2])\<lparr>ev_payload := [1, 2] @ replicate 510 0xFF, ev_pad := 9\<rparr>)
     default_DnsResponse = parse_dns_into (sample_event [1, 2]) default_DnsResponse"
proof (rule parse_dns_ignores_stale)
  show "wf_event (sample_event [1, 2])" by (rule wf_sample_event) simp
qed (simp_all add: sample_event_def live_payload_def)

text \<open>A successful run: the question name was read, and the answers were collected from an empty
  slot.\<close>

lemma parse_dns_ok_run:
  assumes "wf_event ev" and "parse_dns_into ev slot = (Ok (), out)"
  obtains q dn addrs where "12 \<le> unat (ev_payload_len ev)" and "unat (ev_payload_len ev) \<le> 512"
    and "parse_qname (drop 12 (live_payload ev)) [] = (Ok q, dn)"
    and "collected addrs out"
    and "length addrs \<le> unat (of_be [live_payload ev ! 6, live_payload ev ! 7] :: u16)"
    and "same_frame ((base_slot ev)\<lparr>domain_name := dn\<rparr>) out"
proof -
  let ?P = "live_payload ev"
  have ip: "ip_ok (ev_src_ip ev)" "ip_ok (ev_dst_ip ev)"
    using parse_dns_bad_ip [OF assms(1), of slot] assms(2) by auto
  have len: "12 \<le> unat (ev_payload_len ev)" "unat (ev_payload_len ev) \<le> 512"
    using parse_dns_short [OF assms(1) ip, of slot] parse_dns_long [OF assms(1) ip, of slot] assms(2)
    by (auto simp: not_less [symmetric])
  note L = length_live_payload [OF assms(1) len(2)]
  from parse_dns_front [OF assms(1) ip len, of slot] assms(2) obtain q dn where
    q: "parse_qname (drop 12 ?P) [] = (Ok q, dn)" and
    r: "parse_rdata (drop (12 + q + 4) ?P) (of_be [?P ! 6, ?P ! 7]) ((base_slot ev)\<lparr>domain_name := dn\<rparr>)
      = (Ok (), out)"
    by (auto simp: Let_def split: prod.splits outcome.splits if_splits)
  from r have loop: "parse_rdata_loop (drop (12 + q + 4) ?P) 0 (unat (of_be [?P ! 6, ?P ! 7] :: u16))
      ((base_slot ev)\<lparr>domain_name := dn\<rparr>) = (Ok (), out)"
    by (simp add: parse_rdata_def raise_def split: if_splits)
  from collected_loop [OF collected_base loop] obtain addrs where
    addrs: "collected addrs out" "length addrs \<le> unat (of_be [?P ! 6, ?P ! 7] :: u16)" by auto
  have frame: "same_frame ((base_slot ev)\<lparr>domain_name := dn\<rparr>) out"
    using loop_frame [of "(base_slot ev)\<lparr>domain_name := dn\<rparr>"] loop by (metis snd_conv)
  from len q addrs frame show ?thesis by (rule that)
qed

text \<open>C11. What a successful run leaves in the slot: the addresses as text, the ports and the
  timestamp of the event, the labels of a well-formed question name joined by dots, and a list of
  at most \<open>ANCOUNT\<close> addresses of 4 or 16 bytes, concatenated as bytes and as text, with the family
  of the last one (0 if there is none).\<close>

theorem parse_dns_ok:
  assumes "wf_event ev" and "parse_dns_into ev slot = (Ok (), out)"
  shows "\<exists>ls addrs hdr rest. live_payload ev = hdr @ qname_wire ls @ rest \<and> length hdr = 12
    \<and> valid_qname ls \<and> domain_name out = dotted ls
    \<and> collected addrs out \<and> length addrs \<le> unat (of_be [hdr ! 6, hdr ! 7] :: u16)
    \<and> src_ip out = ip_text (ev_src_ip ev) \<and> dst_ip out = ip_text (ev_dst_ip ev)
    \<and> src_port out = ucast (ev_src_port ev) \<and> dst_port out = ucast (ev_dst_port ev)
    \<and> timestamp_ns out = ev_timestamp_ns ev"
proof -
  let ?P = "live_payload ev"
  obtain q dn addrs where len: "12 \<le> unat (ev_payload_len ev)" "unat (ev_payload_len ev) \<le> 512"
      and q: "parse_qname (drop 12 ?P) [] = (Ok q, dn)" and addrs: "collected addrs out"
        "length addrs \<le> unat (of_be [?P ! 6, ?P ! 7] :: u16)"
      and frame: "same_frame ((base_slot ev)\<lparr>domain_name := dn\<rparr>) out"
    by (rule parse_dns_ok_run [OF assms])
  note L = length_live_payload [OF assms(1) len(2)]
  from q obtain ls rest where ls: "drop 12 ?P = qname_wire ls @ rest" "valid_qname ls" "dn = dotted ls"
    by (rule parse_qname_sound)
  have "?P = take 12 ?P @ qname_wire ls @ rest" using ls(1) by (metis append_take_drop_id)
  then show ?thesis
    using addrs ls frame L len
    by (intro exI [of _ ls] exI [of _ addrs] exI [of _ "take 12 ?P"] exI [of _ rest])
      (simp add: same_frame_def base_slot_def)
qed

theorem parse_dns_ok_witness:
  "\<exists>out ls addrs. parse_dns_into (sample_event sample_msg) default_DnsResponse = (Ok (), out)
     \<and> valid_qname ls \<and> domain_name out = dotted ls \<and> collected addrs out \<and> timestamp_ns out = 7"
proof -
  have w: "wf_event (sample_event sample_msg)"
    by (rule wf_sample_event) code_simp
  have "fst (parse_dns_into (sample_event sample_msg) default_DnsResponse) = Ok ()"
    by code_simp
  then obtain out where run: "parse_dns_into (sample_event sample_msg) default_DnsResponse = (Ok (), out)"
    by (metis prod.collapse)
  have "ev_timestamp_ns (sample_event sample_msg) = 7" by (simp add: sample_event_def)
  with run parse_dns_ok [OF w run] show ?thesis by auto
qed

section \<open>Responses with one answer, and with several\<close>

lemma length2_conv: "length xs = 2 \<longleftrightarrow> (\<exists>x y. xs = [x, y])"
  by (auto simp: numeral_2_eq_2 length_Suc_conv)

lemma length4_conv: "length xs = 4 \<longleftrightarrow> (\<exists>a b c d. xs = [a, b, c, d])"
proof -
  have "length xs = Suc (Suc (Suc (Suc 0))) \<longleftrightarrow> (\<exists>a b c d. xs = [a, b, c, d])"
    by (auto simp: length_Suc_conv)
  then show ?thesis by (simp add: numeral_eq_Suc)
qed

lemma be2_split: "\<exists>x y. be_bytes 2 (w :: u16) = [x, y] \<and> of_be [x, y] = w"
proof -
  obtain x y where "be_bytes 2 w = [x, y]"
    using length2_conv [of "be_bytes 2 w"] by auto
  moreover have "of_be (be_bytes 2 w) = w" by simp
  ultimately show ?thesis by metis
qed

lemma rr_wire_fields:
  assumes "length cls = 2" and "length ttl = 4" and "length a < 65536"
    and "p = rr_wire nm ty cls ttl a @ rest"
  shows "of_be [p ! length nm, p ! (length nm + 1)] = ty"
    and "unat (of_be [p ! (length nm + 8), p ! (length nm + 9)] :: u16) = length a"
    and "take (length a) (drop (length nm + 10) p) = a"
    and "length nm + 10 + length a + length rest = length p"
    and "drop (length nm + 10 + length a) p = rest"
proof -
  obtain t0 t1 where t: "be_bytes 2 ty = [t0, t1]" "of_be [t0, t1] = ty"
    using be2_split by blast
  obtain l0 l1 where l: "be_bytes 2 (of_nat (length a) :: u16) = [l0, l1]"
      "of_be [l0, l1] = (of_nat (length a) :: u16)"
    using be2_split by blast
  obtain c0 c1 where c: "cls = [c0, c1]"
    using assms(1) by (auto simp: length2_conv)
  obtain x0 x1 x2 x3 where x: "ttl = [x0, x1, x2, x3]"
    using assms(2) by (auto simp: length4_conv)
  have p: "p = nm @ [t0, t1, c0, c1, x0, x1, x2, x3, l0, l1] @ a @ rest"
    by (simp add: assms(4) rr_wire_def t l c x)
  show "of_be [p ! length nm, p ! (length nm + 1)] = ty"
    and "unat (of_be [p ! (length nm + 8), p ! (length nm + 9)] :: u16) = length a"
    and "take (length a) (drop (length nm + 10) p) = a"
    and "length nm + 10 + length a + length rest = length p"
    using t(2) l(2) assms(3) by (simp_all add: p nth_append unat_of_nat)
  have "p = (nm @ [t0, t1, c0, c1, x0, x1, x2, x3, l0, l1] @ a) @ rest" by (simp add: p)
  then have "drop (length (nm @ [t0, t1, c0, c1, x0, x1, x2, x3, l0, l1] @ a)) p = rest"
    by (metis append_eq_conv_conj)
  moreover have "length (nm @ [t0, t1, c0, c1, x0, x1, x2, x3, l0, l1] @ a) = length nm + 10 + length a"
    by simp
  ultimately show "drop (length nm + 10 + length a) p = rest" by metis
qed

lemma skip_answer_name: "answer_name nm \<Longrightarrow> skip_name (nm @ rest) = Ok (length nm)"
  using answer.scan_complete [of nm rest] by simp

lemma answer_name_pos: "answer_name nm \<Longrightarrow> 0 < length nm"
  using answer.name_nonempty by blast

lemma answer_name_pointer: "b0 AND COMPRESSION_MASK = COMPRESSION_MASK \<Longrightarrow> answer_name [b0, b1]"
  unfolding answer_name_def name_tail_def
  by (intro exI [of _ "[]"] exI [of _ "[b0, b1]"]) simp

text \<open>An iteration that starts where a name of the length of the first record's name stands reads
  the first record.\<close>

lemma rdata_step_first:
  assumes "length cls = 2" and "length ttl = 4" and "length a < 65536"
    and p: "p = rr_wire nm ty cls ttl a @ rest"
    and off: "off < length p" and skip: "skip_name (drop off p) = Ok (length nm)"
  shows "parse_rdata_loop p off (Suc m) slot =
    bindM (store_rdata (record_type ty) (length a) a)
      (\<lambda>_. parse_rdata_loop p (length nm + 10 + length a) m) slot"
proof -
  note f = rr_wire_fields [OF assms(1-3) p]
  have "length nm + 10 \<le> length p" "length nm + 10 + length a \<le> length p" using f(4) by simp_all
  from rdata_step [OF off skip this(1) f(2) this(2), of m slot] f(1,3) show ?thesis by simp
qed

text \<open>A DNS message with one address record.\<close>

definition one_answer_msg :: "bytes \<Rightarrow> bytes list \<Rightarrow> bytes \<Rightarrow> bool" where
  "one_answer_msg msg ls a \<longleftrightarrow>
     (\<exists>hdr qtc nm ty cls ttl rest. msg = hdr @ qname_wire ls @ qtc @ rr_wire nm ty cls ttl a @ rest
        \<and> length hdr = 12 \<and> of_be [hdr ! 6, hdr ! 7] = (1 :: u16) \<and> valid_qname ls \<and> length qtc = 4
        \<and> answer_name nm \<and> length cls = 2 \<and> length ttl = 4 \<and> (ty, length a) \<in> {(1, 4), (28, 16)})"

lemma parse_one_answer:
  assumes "wf_event ev" and "ip_ok (ev_src_ip ev)" and "ip_ok (ev_dst_ip ev)"
    and "unat (ev_payload_len ev) \<le> 512" and "one_answer_msg (live_payload ev) ls a"
  shows "parse_dns_into ev slot =
    (Ok (), (base_slot ev)\<lparr>domain_name := dotted ls, resolved_ip := addr_text a,
       resolved_ip_raw := a, ip_family := addr_family a\<rparr>)"
proof -
  obtain hdr qtc nm ty cls ttl rest where
      wire: "live_payload ev = hdr @ qname_wire ls @ qtc @ rr_wire nm ty cls ttl a @ rest"
      and m: "length hdr = 12" "of_be [hdr ! 6, hdr ! 7] = (1 :: u16)" "valid_qname ls" "length qtc = 4"
        "answer_name nm" "length cls = 2" "length ttl = 4" "(ty, length a) \<in> {(1, 4), (28, 16)}"
    using assms(5) unfolding one_answer_msg_def by blast
  let ?P = "live_payload ev" and ?R = "rr_wire nm ty cls ttl a @ rest"
  let ?B = "(base_slot ev)\<lparr>domain_name := dotted ls\<rparr>"
  have "length ?P = unat (ev_payload_len ev)" using assms(1,4) by (rule length_live_payload)
  then have len: "12 \<le> unat (ev_payload_len ev)" using wire m(1) by simp
  have q: "parse_qname (drop 12 ?P) [] = (Ok (length (qname_wire ls)), dotted ls)"
    using parse_qname_eq [OF m(3)] wire m(1) by simp
  have r: "drop (12 + length (qname_wire ls) + 4) ?P = ?R" using wire m(1,4) by simp
  have h: "?P ! 6 = hdr ! 6" "?P ! 7 = hdr ! 7" using wire m(1) by (simp_all add: nth_append)
  have a: "length a < 65536" using m(8) by auto
  have ne: "?R \<noteq> []" using answer_name_pos [OF m(5)] by (auto simp: rr_wire_def)
  have skip: "skip_name (drop 0 ?R) = Ok (length nm)"
    using skip_answer_name [OF m(5)] by (simp add: rr_wire_def)
  have "parse_rdata ?R 1 ?B = bindM (store_rdata (record_type ty) (length a) a) (\<lambda>_. ret ()) ?B"
    using rdata_step_first [OF m(6,7) a refl _ skip, of 0 ?B] ne by (auto simp: parse_rdata_def)
  also have "\<dots> = (Ok (), ?B\<lparr>resolved_ip := addr_text a, resolved_ip_raw := a, ip_family := addr_family a\<rparr>)"
    using m(8) store_A [of a ?B] store_AAAA [of a ?B]
    by (auto simp: record_type_def addr_text_def addr_family_def base_slot_def default_DnsResponse_def
        ret_def bindM_def)
  finally show ?thesis
    using parse_dns_front [OF assms(1-3) len assms(4), of slot] q r h m(1,2,4) wire
    by (simp add: Let_def)
qed

text \<open>C12. A response with one address record: whatever labels the question has, whatever form the
  record's name has (labels, pointer, or labels ended by a pointer) and whatever follows the record,
  the parser returns the question name and exactly the address of the record, IPv4 or IPv6.\<close>

theorem parse_dns_single_answer:
  assumes "wf_event ev" and "ip_ok (ev_src_ip ev)" and "ip_ok (ev_dst_ip ev)"
    and "unat (ev_payload_len ev) \<le> 512"
    and wire: "live_payload ev = hdr @ qname_wire ls @ qtc @ rr_wire nm ty cls ttl a @ rest"
    and "length hdr = 12" and "of_be [hdr ! 6, hdr ! 7] = (1 :: u16)" and "valid_qname ls"
    and "length qtc = 4" and "answer_name nm" and "length cls = 2" and "length ttl = 4"
    and "(ty, length a) \<in> {(1, 4), (28, 16)}"
  shows "parse_dns_into ev slot =
    (Ok (), (base_slot ev)\<lparr>domain_name := dotted ls, resolved_ip := addr_text a,
       resolved_ip_raw := a, ip_family := addr_family a\<rparr>)"
  using assms(1-4)
proof (rule parse_one_answer)
  show "one_answer_msg (live_payload ev) ls a"
    unfolding one_answer_msg_def using assms(5-) by blast
qed

theorem parse_dns_single_answer_witness:
  "parse_dns_into (sample_event sample_msg) default_DnsResponse =
     (Ok (), (base_slot (sample_event sample_msg))\<lparr>domain_name := dotted [[97, 98], [99]],
        resolved_ip := addr_text [1, 2, 3, 4], resolved_ip_raw := [1, 2, 3, 4],
        ip_family := addr_family [1, 2, 3, 4]\<rparr>)"
proof (rule parse_dns_single_answer)
  show "wf_event (sample_event sample_msg)" by (rule wf_sample_event) code_simp
  show "live_payload (sample_event sample_msg) =
    [0, 1, 0x81, 0x80, 0, 1, 0, 1, 0, 0, 0, 0] @ qname_wire [[97, 98], [99]] @ [0, 1, 0, 1]
      @ rr_wire [0xC0, 12] 1 [0, 1] [0, 0, 0, 60] [1, 2, 3, 4] @ []"
    by code_simp
  show "ip_ok (ev_src_ip (sample_event sample_msg))" "ip_ok (ev_dst_ip (sample_event sample_msg))"
      "unat (ev_payload_len (sample_event sample_msg)) \<le> 512" "valid_qname [[97, 98], [99]]"
    by code_simp+
  show "of_be [[0, 1, 0x81, 0x80, 0, 1, 0, 1, 0, 0, 0, 0] ! 6, [0, 1, 0x81, 0x80, 0, 1, 0, 1, 0, 0, 0, 0] ! 7]
      = (1 :: u16)"
    by code_simp
  show "answer_name [0xC0, 12]" by (rule answer_name_pointer) (simp add: COMPRESSION_MASK_def)
qed simp_all

text \<open>With several answers the loop does not advance. \<open>skip_name\<close> returns an offset relative
  to the slice it was given, and the code stores it as an offset into the whole payload; when the
  second record's name takes as many bytes as the first's (two compression pointers, in practice),
  every iteration parses the first record again.\<close>

lemma parse_rdata_rereads_first:
  assumes "answer_name nm" and "length cls = 2" and "length ttl = 4" and "length a < 65536"
    and "skip_name rest = Ok (length nm)"
  shows "parse_rdata (rr_wire nm ty cls ttl a @ rest) cnt slot =
    repeatM (unat cnt) (store_rdata (record_type ty) (length a) a) slot"
proof -
  let ?p = "rr_wire nm ty cls ttl a @ rest" and ?st = "store_rdata (record_type ty) (length a) a"
  note f = rr_wire_fields [OF assms(2-4), of ?p nm ty rest, OF refl]
  have "rest \<noteq> []" using assms(5) answer.scan_bounds [of rest "length nm"]
      answer_name_pos [OF assms(1)] by auto
  then have off: "length nm + 10 + length a < length ?p" using f(4) by (simp flip: length_greater_0_conv)
  have skip1: "skip_name (drop (length nm + 10 + length a) ?p) = Ok (length nm)"
    using f(5) assms(5) by simp
  have again: "parse_rdata_loop ?p (length nm + 10 + length a) m s = repeatM m ?st s" for m s
  proof (induction m arbitrary: s)
    case 0
    then show ?case by simp
  next
    case (Suc m)
    have "parse_rdata_loop ?p (length nm + 10 + length a) m = repeatM m ?st"
      by (rule ext) (rule Suc.IH)
    then show ?case
      using rdata_step_first [OF assms(2-4) refl off skip1, of m s] by simp
  qed
  have skip0: "skip_name (drop 0 ?p) = Ok (length nm)"
    using skip_answer_name [OF assms(1)] by (simp add: rr_wire_def)
  have pos: "0 < length ?p" using off by linarith
  show ?thesis
  proof (cases "unat cnt")
    case 0
    with pos show ?thesis by (auto simp: parse_rdata_def)
  next
    case (Suc m)
    have "parse_rdata_loop ?p (length nm + 10 + length a) m = repeatM m ?st"
      by (rule ext) (rule again)
    with Suc pos rdata_step_first [OF assms(2-4) refl pos skip0, of m slot] show ?thesis
      by (auto simp: parse_rdata_def)
  qed
qed

lemma repeat_store:
  assumes "(ty, length a) \<in> {(1, 4), (28, 16)}"
  shows "repeatM n (store_rdata (record_type ty) (length a) a) slot =
     (Ok (), if n = 0 then slot else
        slot\<lparr>resolved_ip := resolved_ip slot @ concat (replicate n (addr_text a)),
          resolved_ip_raw := resolved_ip_raw slot @ concat (replicate n a), ip_family := addr_family a\<rparr>)"
proof -
  have store: "store_rdata (record_type ty) (length a) a s =
      (Ok (), s\<lparr>resolved_ip := resolved_ip s @ addr_text a, resolved_ip_raw := resolved_ip_raw s @ a,
         ip_family := addr_family a\<rparr>)" for s
    using assms store_A [of a s] store_AAAA [of a s]
    by (auto simp: record_type_def addr_text_def addr_family_def)
  show ?thesis
  proof (induction n arbitrary: slot)
    case 0
    then show ?case by (simp add: ret_def)
  next
    case (Suc n)
    then show ?case by (cases "n = 0") (simp_all add: store ret_def)
  qed
qed

lemma repeat_store_skip:
  "ty \<noteq> 1 \<Longrightarrow> ty \<noteq> 28 \<Longrightarrow> repeatM n (store_rdata (record_type ty) k a) slot = (Ok (), slot)"
  by (induction n) (simp_all add: ret_def record_type_def store_rdata_def)

text \<open>C34. A response with \<open>cnt > 0\<close> answers whose first answer is an address record, \<open>A\<close> with 4 bytes or
  \<open>AAAA\<close> with 16, and whose second answer has a name of as many bytes on the wire as the first's, as two
  compression pointers have: the addresses of all answers after the first are ignored and the first
  address is stored \<open>cnt\<close> times, as bytes and, without a separator, as text.\<close>

theorem multi_answer_repeats_first:
  assumes "answer_name nm" and "answer_name nm'" and "length nm' = length nm"
    and "length cls = 2" and "length ttl = 4" and "(ty, length a) \<in> {(1, 4), (28, 16)}" and "0 < unat cnt"
  shows "parse_rdata (rr_wire nm ty cls ttl a @ nm' @ rest) cnt slot =
    (Ok (), slot\<lparr>resolved_ip := resolved_ip slot @ concat (replicate (unat cnt) (addr_text a)),
       resolved_ip_raw := resolved_ip_raw slot @ concat (replicate (unat cnt) a),
       ip_family := addr_family a\<rparr>)"
proof -
  have "length a < 65536" using assms(6) by auto
  from parse_rdata_rereads_first [OF assms(1,4,5) this]
  have "parse_rdata (rr_wire nm ty cls ttl a @ nm' @ rest) cnt slot =
      repeatM (unat cnt) (store_rdata (record_type ty) (length a) a) slot"
    using skip_answer_name [OF assms(2)] assms(3) by simp
  then show ?thesis using repeat_store [OF assms(6)] assms(7) by simp
qed

theorem multi_answer_repeats_first_witness:
  "resolved_ip_raw (snd (parse_rdata (rr_wire [0xC0, 12] 1 [0, 1] [0, 0, 0, 60] [1, 2, 3, 4]
       @ [0xC0, 12] @ [0, 1, 0, 1, 0, 0, 0, 60, 0, 4, 5, 6, 7, 8]) 2 default_DnsResponse))
     = [1, 2, 3, 4, 1, 2, 3, 4]
   \<and> ip_family (snd (parse_rdata (rr_wire [0xC0, 12] 28 [0, 1] [0, 0, 0, 60] (replicate 16 1)
       @ [0xC0, 12] @ []) 3 default_DnsResponse)) = AF_INET6"
proof -
  have nm: "answer_name [0xC0, 12]" by (rule answer_name_pointer) (simp add: COMPRESSION_MASK_def)
  have "parse_rdata (rr_wire [0xC0, 12] 1 [0, 1] [0, 0, 0, 60] [1, 2, 3, 4]
       @ [0xC0, 12] @ [0, 1, 0, 1, 0, 0, 0, 60, 0, 4, 5, 6, 7, 8]) 2 default_DnsResponse
    = (Ok (), default_DnsResponse\<lparr>resolved_ip := resolved_ip default_DnsResponse
          @ concat (replicate (unat (2 :: u16)) (addr_text [1, 2, 3, 4])),
        resolved_ip_raw := resolved_ip_raw default_DnsResponse
          @ concat (replicate (unat (2 :: u16)) [1, 2, 3, 4]), ip_family := addr_family [1, 2, 3, 4]\<rparr>)"
    using nm nm by (rule multi_answer_repeats_first) simp_all
  moreover have "concat (replicate 2 [1, 2, 3, 4]) = [1, 2, 3, 4, 1, 2, 3, 4 :: u8]" by code_simp
  moreover have "parse_rdata (rr_wire [0xC0, 12] 28 [0, 1] [0, 0, 0, 60] (replicate 16 1) @ [0xC0, 12] @ []) 3
      default_DnsResponse
    = (Ok (), default_DnsResponse\<lparr>resolved_ip := resolved_ip default_DnsResponse
          @ concat (replicate (unat (3 :: u16)) (addr_text (replicate 16 1))),
        resolved_ip_raw := resolved_ip_raw default_DnsResponse
          @ concat (replicate (unat (3 :: u16)) (replicate 16 1)), ip_family := addr_family (replicate 16 1)\<rparr>)"
    using nm nm by (rule multi_answer_repeats_first) simp_all
  ultimately show ?thesis by (simp add: default_DnsResponse_def addr_family_def)
qed

text \<open>C35. A response whose first answer is not an address record (a \<open>CNAME\<close>, say) and whose second
  answer has a name of as many bytes on the wire as the first's, as two compression pointers have: no
  address is extracted, although the parse succeeds and whatever address records follow.\<close>

theorem cname_first_hides_addresses:
  assumes "answer_name nm" and "answer_name nm'" and "length nm' = length nm"
    and "length cls = 2" and "length ttl = 4" and "length a < 65536" and "ty \<noteq> 1" and "ty \<noteq> 28"
  shows "parse_rdata (rr_wire nm ty cls ttl a @ nm' @ rest) cnt slot = (Ok (), slot)"
proof -
  from parse_rdata_rereads_first [OF assms(1,4-6)]
  have "parse_rdata (rr_wire nm ty cls ttl a @ nm' @ rest) cnt slot =
      repeatM (unat cnt) (store_rdata (record_type ty) (length a) a) slot"
    using skip_answer_name [OF assms(2)] assms(3) by simp
  then show ?thesis using assms(7,8) by (simp add: repeat_store_skip)
qed

theorem cname_first_hides_addresses_witness:
  "parse_rdata (rr_wire [0xC0, 12] 5 [0, 1] [0, 0, 0, 60] [0xC0, 20]
       @ [0xC0, 42] @ [0, 1, 0, 1, 0, 0, 0, 60, 0, 4, 5, 6, 7, 8]) 2 default_DnsResponse
   = (Ok (), default_DnsResponse)"
  by (rule cname_first_hides_addresses) (simp_all add: answer_name_pointer COMPRESSION_MASK_def)

end
