(* ===== verification/Policy.thy ===== *)
theory Policy
  imports Dns_Answers
begin

text \<open>
  The FQDN policy engine (\<open>cilium-mini-rs/src/policy.rs\<close>). The trait \<open>DnsObserver\<close> is the locale
  \<open>dns_observer\<close>: what the parser task relies on when it hands a response to its observer. The
  engine implements it for every kernel map. The map itself (\<open>aya::maps::HashMap\<close> over a BPF hash)
  is not code of the repository: its \<open>insert\<close> is the parameter \<open>ins\<close>, which either fails or
  succeeds and never panics, and \<open>bpf_hash\<close> states its documented behaviour for the properties
  that need it.
\<close>

section \<open>The observer interface\<close>

text \<open>A response as the parser leaves it: its raw bytes are the addresses it collected.\<close>

definition parsed :: "DnsResponse \<Rightarrow> bool" where
  "parsed r \<longleftrightarrow> (\<exists>addrs. collected addrs r)"

locale dns_observer =
  fixes upd :: "DnsResponse \<Rightarrow> ('o, 'e, unit) prog"
    and inv :: "'o \<Rightarrow> bool"
  assumes upd_no_panic: "parsed r \<Longrightarrow> inv obs \<Longrightarrow> fst (upd r obs) \<noteq> Panic"
    and upd_inv: "inv obs \<Longrightarrow> inv (snd (upd r obs))"
begin

text \<open>A run over parsed responses, each result ignored as the task ignores it.\<close>

lemma upd_run:
  "\<forall>r \<in> set rs. parsed r \<Longrightarrow> inv obs \<Longrightarrow>
     inv (fold (\<lambda>r s. snd (upd r s)) rs obs)
     \<and> (\<forall>k < length rs. fst (upd (rs ! k) (fold (\<lambda>r s. snd (upd r s)) (take k rs) obs)) \<noteq> Panic)"
proof (induction rs arbitrary: obs)
  case Nil
  then show ?case by simp
next
  case (Cons r rs)
  have inv1: "inv (snd (upd r obs))" using Cons.prems(2) by (rule upd_inv)
  have rs: "\<forall>x \<in> set rs. parsed x" using Cons.prems(1) by simp
  note IH = Cons.IH [OF rs inv1]
  have "fst (upd ((r # rs) ! k) (fold (\<lambda>r s. snd (upd r s)) (take k (r # rs)) obs)) \<noteq> Panic"
    if "k < length (r # rs)" for k
  proof (cases k)
    case 0
    then show ?thesis using upd_no_panic Cons.prems by simp
  next
    case (Suc j)
    then show ?thesis using IH that by simp
  qed
  with IH show ?case by simp
qed

end

section \<open>The engine\<close>

datatype 'e PolicyError = ExpectedBytes nat nat | FamilyBug | MapError 'e | ContextError string 'e

record 'm FqdnPolicyEngine =
  allowed_ip_map :: 'm
  allowed_domains :: "string set"

type_synonym ('m, 'e) map_insert = "RawIpAddr \<Rightarrow> u8 \<Rightarrow> u64 \<Rightarrow> 'm \<Rightarrow> ('e + unit) \<times> 'm"

definition FqdnPolicyEngine_new ::
  "('raw \<Rightarrow> 'e + 'm) \<Rightarrow> 'raw \<Rightarrow> string set \<Rightarrow> 'e PolicyError + 'm FqdnPolicyEngine" where
  "FqdnPolicyEngine_new try_from ebpf_map domains =
     (case try_from ebpf_map of
        Inl e \<Rightarrow> Inl (ContextError ''failed to convert map to HashMap'' e)
      | Inr m \<Rightarrow> Inr \<lparr>allowed_ip_map = m, allowed_domains = domains\<rparr>)"

text \<open>\<open>chunks_exact(n).next()\<close>, \<open>Option::unwrap\<close> and \<open>try_into::<[u8; n]>\<close>.\<close>

definition chunks_exact_next :: "nat \<Rightarrow> 'a list \<Rightarrow> 'a list option" where
  "chunks_exact_next n xs = (if n \<le> length xs then Some (take n xs) else None)"

definition unwrap :: "'a option \<Rightarrow> ('s, 'e, 'a) prog" where
  "unwrap x = (case x of Some a \<Rightarrow> ret a | None \<Rightarrow> panic)"

definition try_into_array :: "nat \<Rightarrow> 'e \<Rightarrow> 'a list \<Rightarrow> ('s, 'e, 'a list) prog" where
  "try_into_array n err xs = (if length xs = n then ret xs else raise err)"

text \<open>The \<open>match\<close> on the family that computes \<open>ip_addr\<close>, then the method itself.\<close>

definition response_ip_addr :: "DnsResponse \<Rightarrow> ('s, 'e PolicyError, RawIpAddr) prog" where
  "response_ip_addr dns_response =
     (if ip_family dns_response = AF_INET then
        bindM (unwrap (chunks_exact_next 4 (resolved_ip_raw dns_response))) (\<lambda>chunk.
        bindM (try_into_array 4 (ExpectedBytes 4 (length (resolved_ip_raw dns_response))) chunk) (\<lambda>arr.
        ret (from_ipv4 arr)))
      else if ip_family dns_response = AF_INET6 then
        bindM (unwrap (chunks_exact_next 16 (resolved_ip_raw dns_response))) (\<lambda>chunk.
        bindM (try_into_array 16 (ExpectedBytes 16 (length (resolved_ip_raw dns_response))) chunk) (\<lambda>arr.
        ret (from_ipv6 arr)))
      else raise FamilyBug)"

definition update ::
  "('m, 'e) map_insert \<Rightarrow> DnsResponse \<Rightarrow> ('m FqdnPolicyEngine, 'e PolicyError, unit) prog" where
  "update ins dns_response self =
     (if domain_name dns_response \<notin> allowed_domains self then (Ok (), self)
      else bindM (response_ip_addr dns_response) (\<lambda>ip_addr self.
        case ins ip_addr 0 0 (allowed_ip_map self) of
          (Inl e, m) \<Rightarrow> (Err (MapError e), self\<lparr>allowed_ip_map := m\<rparr>)
        | (Inr _, m) \<Rightarrow> (Ok (), self\<lparr>allowed_ip_map := m\<rparr>)) self)"

section \<open>What the kernel map promises\<close>

definition bpf_hash :: "('m, 'e) map_insert \<Rightarrow> ('m \<Rightarrow> RawIpAddr \<Rightarrow> u8 option) \<Rightarrow> bool" where
  "bpf_hash ins lookup \<longleftrightarrow>
     (\<forall>k v fl m. case ins k v fl m of
        (Inr _, m') \<Rightarrow> lookup m' = (lookup m)(k \<mapsto> v)
      | (Inl e, m') \<Rightarrow> lookup m' = lookup m)"

text \<open>A map of at most 1024 entries as an association list: an instance of the contract, used by
  the witnesses.\<close>

definition list_insert :: "((RawIpAddr \<times> u8) list, string) map_insert" where
  "list_insert k v fl m =
     (if map_of m k = None \<and> length m \<ge> 1024 then (Inl ''E2BIG'', m) else (Inr (), (k, v) # m))"

lemma bpf_hash_list: "bpf_hash list_insert map_of"
  by (simp add: bpf_hash_def list_insert_def)

lemma bpf_hash_fail:
  assumes "bpf_hash ins lookup" and "ins k v fl m = (Inl e, m')"
  shows "lookup m' = lookup m"
  using assms(1) [unfolded bpf_hash_def, THEN spec, of k, THEN spec, of v, THEN spec, of fl, THEN spec, of m] assms(2)
  by simp

lemma bpf_hash_ok:
  assumes "bpf_hash ins lookup" and "ins k v fl m = (Inr u, m')"
  shows "lookup m' = (lookup m)(k \<mapsto> v)"
  using assms(1) [unfolded bpf_hash_def, THEN spec, of k, THEN spec, of v, THEN spec, of fl, THEN spec, of m] assms(2)
  by simp

lemma insert_cases:
  obtains (fail) e m' where "ins k v fl m = (Inl e, m')"
  | (ok) m' where "ins k v fl m = (Inr (), m')"
proof (cases "ins k v fl m")
  case (Pair r m')
  then show ?thesis using fail ok by (cases r) auto
qed

section \<open>The engine is an observer\<close>

lemma collected_length:
  assumes "collected addrs r"
  shows "ip_family r = AF_INET \<Longrightarrow> 4 \<le> length (resolved_ip_raw r)"
    and "ip_family r = AF_INET6 \<Longrightarrow> 16 \<le> length (resolved_ip_raw r)"
    and "ip_family r = 0 \<or> ip_family r = AF_INET \<or> ip_family r = AF_INET6"
proof -
  have last: "length (last addrs) \<le> length (concat addrs)" if "addrs \<noteq> []"
    using that by (induction addrs) auto
  have len: "length (last addrs) = 4 \<or> length (last addrs) = 16" if "addrs \<noteq> []"
    using assms that by (auto simp: collected_def list_all_iff)
  show "4 \<le> length (resolved_ip_raw r)" if "ip_family r = AF_INET"
    using that assms last len by (cases "addrs = []") (auto simp: collected_def AF_INET_def)
  show "16 \<le> length (resolved_ip_raw r)" if "ip_family r = AF_INET6"
    using that assms last len
    by (cases "addrs = []") (auto simp: collected_def AF_INET_def AF_INET6_def addr_family_def)
  show "ip_family r = 0 \<or> ip_family r = AF_INET \<or> ip_family r = AF_INET6"
    using assms by (auto simp: collected_def addr_family_def)
qed

text \<open>The key an engine inserts for a response with an address.\<close>

definition policy_key :: "DnsResponse \<Rightarrow> RawIpAddr" where
  "policy_key r = (if ip_family r = AF_INET then from_ipv4 (take 4 (resolved_ip_raw r))
     else from_ipv6 (take 16 (resolved_ip_raw r)))"

lemma AF_distinct [simp]: "AF_INET \<noteq> AF_INET6" "AF_INET6 \<noteq> AF_INET" "AF_INET \<noteq> 0" "AF_INET6 \<noteq> 0"
  by (simp_all add: AF_INET_def AF_INET6_def)

lemma update_other_domain:
  "domain_name r \<notin> allowed_domains eng \<Longrightarrow> update ins r eng = (Ok (), eng)"
  by (simp add: update_def)

lemma update_no_address:
  "domain_name r \<in> allowed_domains eng \<Longrightarrow> ip_family r \<noteq> AF_INET \<Longrightarrow> ip_family r \<noteq> AF_INET6 \<Longrightarrow>
     update ins r eng = (Err FamilyBug, eng)"
  by (simp add: update_def response_ip_addr_def raise_def)

lemma update_address:
  assumes "domain_name r \<in> allowed_domains eng"
    and "ip_family r = AF_INET \<and> 4 \<le> length (resolved_ip_raw r)
      \<or> ip_family r = AF_INET6 \<and> 16 \<le> length (resolved_ip_raw r)"
  shows "update ins r eng =
    (case ins (policy_key r) 0 0 (allowed_ip_map eng) of
       (Inl e, m) \<Rightarrow> (Err (MapError e), eng\<lparr>allowed_ip_map := m\<rparr>)
     | (Inr _, m) \<Rightarrow> (Ok (), eng\<lparr>allowed_ip_map := m\<rparr>))"
  using assms by (auto simp: update_def response_ip_addr_def policy_key_def chunks_exact_next_def unwrap_def try_into_array_def)

lemma update_cases:
  assumes "parsed r"
  obtains (other) "domain_name r \<notin> allowed_domains eng" "update ins r eng = (Ok (), eng)"
  | (none) "domain_name r \<in> allowed_domains eng" "ip_family r = 0" "update ins r eng = (Err FamilyBug, eng)"
  | (full) e m where "domain_name r \<in> allowed_domains eng" "ip_family r \<noteq> 0"
      "ins (policy_key r) 0 0 (allowed_ip_map eng) = (Inl e, m)"
      "update ins r eng = (Err (MapError e), eng\<lparr>allowed_ip_map := m\<rparr>)"
  | (inserted) m where "domain_name r \<in> allowed_domains eng" "ip_family r \<noteq> 0"
      "ins (policy_key r) 0 0 (allowed_ip_map eng) = (Inr (), m)"
      "update ins r eng = (Ok (), eng\<lparr>allowed_ip_map := m\<rparr>)"
proof -
  from assms obtain addrs where c: "collected addrs r" by (auto simp: parsed_def)
  show ?thesis
  proof (cases "domain_name r \<in> allowed_domains eng \<and> ip_family r \<noteq> 0")
    case False
    then show ?thesis using other none update_other_domain [of r eng ins] update_no_address [of r eng ins] by auto
  next
    case True
    with collected_length [OF c] have "ip_family r = AF_INET \<and> 4 \<le> length (resolved_ip_raw r)
        \<or> ip_family r = AF_INET6 \<and> 16 \<le> length (resolved_ip_raw r)" by auto
    note u = update_address [OF _ this, of eng ins]
    from True u show ?thesis
      by (cases rule: insert_cases [of ins "policy_key r" 0 0 "allowed_ip_map eng"])
        (auto intro: full inserted)
  qed
qed

lemma update_lookup_other:
  assumes "bpf_hash ins lookup" and "parsed r" and "k \<noteq> policy_key r"
  shows "lookup (allowed_ip_map (snd (update ins r eng))) k = lookup (allowed_ip_map eng) k"
  using assms(2) by (cases rule: update_cases [of r eng ins])
    (simp_all add: assms(3) bpf_hash_fail [OF assms(1)] bpf_hash_ok [OF assms(1)])

lemma response_ip_addr_state: "snd (response_ip_addr r s) = s"
  by (simp add: response_ip_addr_def chunks_exact_next_def unwrap_def try_into_array_def ret_def
      panic_def raise_def)

lemma update_domains:
  fixes ins :: "('m, 'e) map_insert"
  shows "allowed_domains (snd (update ins r eng)) = allowed_domains eng"
proof (cases "response_ip_addr r eng :: ('e PolicyError, RawIpAddr) outcome \<times> 'm FqdnPolicyEngine")
  case (Pair a s)
  then have "s = eng" using response_ip_addr_state by (metis snd_conv)
  with Pair show ?thesis
    by (cases a) (auto simp: update_def bindM_def split: prod.splits sum.splits)
qed

interpretation fqdn: dns_observer "update ins" "\<lambda>eng. allowed_domains eng = domains"
  for ins :: "('m, 'e) map_insert" and domains
proof unfold_locales
  fix r :: DnsResponse and obs :: "'m FqdnPolicyEngine"
  assume "parsed r"
  then show "fst (update ins r obs) \<noteq> Panic"
    by (cases rule: update_cases [of r obs ins]) simp_all
qed (simp add: update_domains)

section \<open>The map over time\<close>

text \<open>A hash map of bounded size refuses a new key when it is full.\<close>

definition bounded_hash :: "nat \<Rightarrow> ('m, 'e) map_insert \<Rightarrow> ('m \<Rightarrow> RawIpAddr \<Rightarrow> u8 option) \<Rightarrow> bool" where
  "bounded_hash cap ins lookup \<longleftrightarrow> bpf_hash ins lookup
     \<and> (\<forall>k v fl m. lookup m k = None \<and> cap \<le> card (dom (lookup m)) \<longrightarrow> (\<exists>e. fst (ins k v fl m) = Inl e))"

lemma bounded_list: "bounded_hash 1024 list_insert map_of"
proof -
  have "\<exists>e. fst (list_insert k v fl m) = Inl e" if "map_of m k = None" "1024 \<le> card (dom (map_of m))" for k v fl m
  proof -
    have "card (dom (map_of m)) \<le> length m"
      by (metis card_image_le card_length dom_map_of_conv_image_fst finite_set order.trans)
    with that show ?thesis by (simp add: list_insert_def)
  qed
  then show ?thesis by (simp add: bounded_hash_def bpf_hash_list)
qed

lemma update_inserts_or_not:
  fixes ins :: "('m, 'e) map_insert"
  obtains (same) "snd (update ins r eng) = eng"
  | (insert) k res m where "ins k 0 0 (allowed_ip_map eng) = (res, m)" "snd (update ins r eng) = eng\<lparr>allowed_ip_map := m\<rparr>"
proof (cases "response_ip_addr r eng :: ('e PolicyError, RawIpAddr) outcome \<times> 'm FqdnPolicyEngine")
  case (Pair a s)
  then have s: "s = eng" using response_ip_addr_state by (metis snd_conv)
  show ?thesis
  proof (cases "\<exists>k. a = Ok k \<and> domain_name r \<in> allowed_domains eng")
    case True
    then obtain k where k: "a = Ok k" "domain_name r \<in> allowed_domains eng" by blast
    obtain res m where "ins k 0 0 (allowed_ip_map eng) = (res, m)" by fastforce
    with Pair s k insert show ?thesis by (cases res) (auto simp: update_def bindM_def)
  next
    case False
    with Pair s same show ?thesis by (cases a) (auto simp: update_def bindM_def)
  qed
qed

text \<open>An entry, once made, stays: every insertion writes 0.\<close>

lemma fold_update_keeps:
  assumes "bpf_hash ins lookup" and "lookup (allowed_ip_map eng) k = Some 0"
  shows "lookup (allowed_ip_map (fold (\<lambda>r e. snd (update ins r e)) rs eng)) k = Some 0"
  using assms(2)
proof (induction rs arbitrary: eng)
  case (Cons r rs)
  have "lookup (allowed_ip_map (snd (update ins r eng))) k = Some 0"
  proof (cases rule: update_inserts_or_not [of ins r eng])
    case (insert k' res m)
    then show ?thesis
      using Cons.prems bpf_hash_fail [OF assms(1)] bpf_hash_ok [OF assms(1)] by (cases res) simp_all
  qed (simp add: Cons.prems)
  then show ?case using Cons.IH by simp
qed simp

lemma fold_update_domains:
  "allowed_domains (fold (\<lambda>r e. snd (update ins r e)) rs eng) = allowed_domains eng"
  by (induction rs arbitrary: eng) (simp_all add: update_domains)

text \<open>No key ever leaves the map, it keeps its bound, and a full map stays as it is.\<close>

definition saturates :: "nat \<Rightarrow> RawIpAddr set \<Rightarrow> RawIpAddr set \<Rightarrow> bool" where
  "saturates cap D D' \<longleftrightarrow> D \<subseteq> D' \<and> (finite D \<and> card D \<le> cap \<longrightarrow> finite D' \<and> card D' \<le> cap \<and> (card D = cap \<longrightarrow> D' = D))"

lemma saturates_refl [simp]: "saturates cap D D"
  by (simp add: saturates_def)

lemma saturates_trans: "saturates cap A B \<Longrightarrow> saturates cap B C \<Longrightarrow> saturates cap A C"
  unfolding saturates_def by (metis order.trans)

lemma saturates_insert:
  assumes "k \<in> D \<or> \<not> cap \<le> card D"
  shows "saturates cap D (insert k D)"
  using assms by (cases "k \<in> D") (auto simp: saturates_def insert_absorb card_insert_if)

lemma update_saturates:
  assumes "bounded_hash cap ins lookup"
  shows "saturates cap (dom (lookup (allowed_ip_map eng))) (dom (lookup (allowed_ip_map (snd (update ins r eng)))))"
proof (cases rule: update_inserts_or_not [of ins r eng])
  case (insert k res m)
  have h: "bpf_hash ins lookup" using assms by (simp add: bounded_hash_def)
  let ?D = "dom (lookup (allowed_ip_map eng))"
  show ?thesis
  proof (cases res)
    case (Inl e)
    then show ?thesis using insert bpf_hash_fail [OF h, of k 0 0 "allowed_ip_map eng" e m] by simp
  next
    case (Inr u)
    then have "dom (lookup m) = Set.insert k ?D"
      using insert bpf_hash_ok [OF h, of k 0 0 "allowed_ip_map eng" u m] by simp
    moreover have "k \<in> ?D \<or> \<not> cap \<le> card ?D"
      using assms insert(1) Inr unfolding bounded_hash_def by (metis domIff fst_conv sum.distinct(1))
    ultimately show ?thesis using insert(2) by (simp add: saturates_insert)
  qed
qed simp

lemma fold_update_saturates:
  assumes "bounded_hash cap ins lookup"
  shows "saturates cap (dom (lookup (allowed_ip_map eng)))
    (dom (lookup (allowed_ip_map (fold (\<lambda>r e. snd (update ins r e)) rs eng))))"
proof (induction rs arbitrary: eng)
  case (Cons r rs)
  show ?case using saturates_trans [OF update_saturates [OF assms] Cons.IH] by simp
qed simp

section \<open>Properties\<close>

text \<open>A parsed response for the witnesses: two IPv4 addresses for \<open>leetcode.com\<close>.\<close>

definition sample_response :: "bytes list \<Rightarrow> DnsResponse" where
  "sample_response addrs = default_DnsResponse\<lparr>domain_name := ''leetcode.com'',
     resolved_ip := concat (map addr_text addrs), resolved_ip_raw := concat addrs,
     ip_family := (if addrs = [] then 0 else addr_family (last addrs))\<rparr>"

definition sample_engine :: "(RawIpAddr \<times> u8) list FqdnPolicyEngine" where
  "sample_engine = \<lparr>allowed_ip_map = [], allowed_domains = {''leetcode.com''}\<rparr>"

lemma collected_sample:
  "list_all (\<lambda>a. length a = 4 \<or> length a = 16) addrs \<Longrightarrow> collected addrs (sample_response addrs)"
  by (simp add: collected_def sample_response_def default_DnsResponse_def)

lemma parsed_sample:
  "list_all (\<lambda>a. length a = 4 \<or> length a = 16) addrs \<Longrightarrow> parsed (sample_response addrs)"
  using collected_sample parsed_def by blast

text \<open>C15. What \<open>update\<close> does with a response the parser produced, on every branch, for any kernel
  map: nothing for a domain that is not allowed; an error and no change if the response carries no
  address; otherwise one insertion, whose failure is the only other error. It never panics: the
  \<open>unwrap\<close> of the first chunk is covered by the bytes the parser stored.\<close>

theorem update_branches:
  assumes "parsed r"
  shows "update ins r eng =
    (if domain_name r \<notin> allowed_domains eng then (Ok (), eng)
     else if ip_family r = 0 then (Err FamilyBug, eng)
     else case ins (policy_key r) 0 0 (allowed_ip_map eng) of
         (Inl e, m) \<Rightarrow> (Err (MapError e), eng\<lparr>allowed_ip_map := m\<rparr>)
       | (Inr _, m) \<Rightarrow> (Ok (), eng\<lparr>allowed_ip_map := m\<rparr>))"
  using assms by (cases rule: update_cases [of r eng ins]) simp_all

theorem update_branches_witness:
  "update list_insert (sample_response []) sample_engine = (Err FamilyBug, sample_engine)"
proof -
  have p: "parsed (sample_response [])" by (rule parsed_sample) simp
  show ?thesis
    using update_branches [OF p, of list_insert sample_engine]
    by (simp add: sample_response_def sample_engine_def default_DnsResponse_def)
qed

text \<open>C16. The allow-list guards the kernel map: after \<open>update\<close>, every key maps to what it mapped to
  before, except that a successful update for an allowed domain maps the response's key to 0.\<close>

theorem update_map_effect:
  assumes "bpf_hash ins lookup" and "parsed r"
  shows "lookup (allowed_ip_map (snd (update ins r eng))) k =
    (if fst (update ins r eng) = Ok () \<and> domain_name r \<in> allowed_domains eng \<and> k = policy_key r
     then Some 0 else lookup (allowed_ip_map eng) k)"
  using assms(2) by (cases rule: update_cases [of r eng ins])
    (simp_all add: bpf_hash_fail [OF assms(1)] bpf_hash_ok [OF assms(1)])

theorem update_map_effect_witness:
  "map_of (allowed_ip_map (snd (update list_insert (sample_response [[1, 2, 3, 4]]) sample_engine)))
     (from_ipv4 [1, 2, 3, 4]) = Some 0"
proof -
  have p: "parsed (sample_response [[1, 2, 3, 4]])" by (rule parsed_sample) simp
  have k: "policy_key (sample_response [[1, 2, 3, 4]]) = from_ipv4 [1, 2, 3, 4]" by code_simp
  have "fst (update list_insert (sample_response [[1, 2, 3, 4]]) sample_engine) = Ok ()" by code_simp
  moreover have "domain_name (sample_response [[1, 2, 3, 4]]) \<in> allowed_domains sample_engine"
    by (simp add: sample_response_def sample_engine_def)
  ultimately show ?thesis
    using update_map_effect [OF bpf_hash_list p, of sample_engine "from_ipv4 [1, 2, 3, 4]"]
    by (simp add: k)
qed

lemma policy_key_first_ipv4:
  assumes "collected (a # addrs) r" and "list_all (\<lambda>b. length b = 4) (a # addrs)"
  shows "policy_key r = from_ipv4 a" and "ip_family r = AF_INET"
proof -
  have "length (last (a # addrs)) = 4" using assms(2) by (auto simp: list_all_iff)
  then show "ip_family r = AF_INET" using assms(1) by (simp add: collected_def addr_family_def)
  then show "policy_key r = from_ipv4 a" using assms by (simp add: policy_key_def collected_def)
qed

lemma from_ipv4_inject:
  assumes "length a = 4" and "length b = 4"
  shows "from_ipv4 a = from_ipv4 b \<longleftrightarrow> a = b"
proof
  assume "from_ipv4 a = from_ipv4 b"
  then have eq: "[a ! 0, a ! Suc 0, a ! 2, a ! 3] = [b ! 0, b ! Suc 0, b ! 2, b ! 3]"
    by (simp add: from_ipv4_def)
  have "a = [a ! 0, a ! Suc 0, a ! 2, a ! 3]" by (rule nth4 [OF assms(1), symmetric])
  also note eq
  also have "[b ! 0, b ! Suc 0, b ! 2, b ! 3] = b" by (rule nth4 [OF assms(2)])
  finally show "a = b" .
qed simp

text \<open>Of several resolved IPv4 addresses only the first is authorised: an address of the response
  that differs from the first and was not in the kernel map before is not in it afterwards. (The
  design document has the observer insert every address.)\<close>

lemma only_first_address_allowed:
  assumes "bpf_hash ins lookup" and "collected (a # addrs) r"
    and "list_all (\<lambda>b. length b = 4) (a # addrs)" and "b \<in> set addrs" and "b \<noteq> a"
    and "lookup (allowed_ip_map eng) (from_ipv4 b) = None"
  shows "lookup (allowed_ip_map (snd (update ins r eng))) (from_ipv4 b) = None"
proof -
  note k = policy_key_first_ipv4 [OF assms(2,3)]
  have p: "parsed r" using assms(2) parsed_def by blast
  have ne: "from_ipv4 b \<noteq> policy_key r"
    using assms(3-5) by (auto simp: k from_ipv4_inject list_all_iff)
  show ?thesis using update_lookup_other [OF assms(1) p ne, of eng] assms(6) by simp
qed

end
