(* ===== verification/Commit_Log.thy ===== *)
theory Commit_Log
  imports Dns_Parser
begin

text \<open>
  The file writer of \<open>cilium-mini-rs/src/topology.rs\<close> (\<open>spawn_file_writer\<close>): length-prefixed
  protobuf records behind a \<open>BufWriter\<close>. \<open>std::io::BufWriter\<close> and the \<open>write_all\<close> loop of
  \<open>std::io::Write\<close> are modelled as the standard library has them, including what is left in the
  buffer when a write fails. The operating system's \<open>write\<close> on the file opened for appending is the
  parameter \<open>os\<close> over a file state \<open>'w\<close> (it may write a part, be interrupted or fail), and the
  encoder that \<open>prost\<close> generates is the parameter \<open>encode\<close>, which appends to a buffer. \<open>appends\<close>,
  \<open>progress\<close> and \<open>encodes\<close> state their documented behaviour; \<open>remembers\<close> names the states after a
  failed write, for what holds on files that do fail. A loop that is interrupted for ever does not
  return, so results are options.
\<close>

section \<open>The standard library's writers\<close>

datatype io_result = Written nat | Interrupted | Failed

type_synonym 'w os_write = "bytes \<Rightarrow> 'w \<Rightarrow> io_result \<times> 'w"

record 'w BufWriter =
  bw_buf :: bytes
  bw_capacity :: nat
  bw_inner :: 'w

text \<open>The loop of \<open>Write::write_all\<close> and of \<open>BufWriter::flush_buf\<close>: success, the bytes not yet
  written, and the file.\<close>

partial_function (option) write_loop :: "'w os_write \<Rightarrow> bytes \<Rightarrow> 'w \<Rightarrow> (bool \<times> bytes \<times> 'w) option" where
  "write_loop os buf w =
     (if buf = [] then Some (True, [], w)
      else case os buf w of
          (Written n, w') \<Rightarrow> if n = 0 then Some (False, buf, w') else write_loop os (drop n buf) w'
        | (Interrupted, w') \<Rightarrow> write_loop os buf w'
        | (Failed, w') \<Rightarrow> Some (False, buf, w'))"

definition with_capacity :: "nat \<Rightarrow> 'w \<Rightarrow> 'w BufWriter" where
  "with_capacity cap file = \<lparr>bw_buf = [], bw_capacity = cap, bw_inner = file\<rparr>"

definition flush_buf :: "'w os_write \<Rightarrow> 'w BufWriter \<Rightarrow> (bool \<times> 'w BufWriter) option" where
  "flush_buf os bw = map_option (\<lambda>(ok, rest, w). (ok, bw\<lparr>bw_buf := rest, bw_inner := w\<rparr>))
     (write_loop os (bw_buf bw) (bw_inner bw))"

definition spare_capacity :: "'w BufWriter \<Rightarrow> nat" where
  "spare_capacity bw = bw_capacity bw - length (bw_buf bw)"

definition buf_write_all :: "'w os_write \<Rightarrow> bytes \<Rightarrow> 'w BufWriter \<Rightarrow> (bool \<times> 'w BufWriter) option" where
  "buf_write_all os data bw =
     (if length data < spare_capacity bw then Some (True, bw\<lparr>bw_buf := bw_buf bw @ data\<rparr>)
      else case (if spare_capacity bw < length data then flush_buf os bw else Some (True, bw)) of
          None \<Rightarrow> None
        | Some (False, bw1) \<Rightarrow> Some (False, bw1)
        | Some (True, bw1) \<Rightarrow>
            if bw_capacity bw1 \<le> length data
            then map_option (\<lambda>(ok, rest, w). (ok, bw1\<lparr>bw_inner := w\<rparr>)) (write_loop os data (bw_inner bw1))
            else Some (True, bw1\<lparr>bw_buf := bw_buf bw1 @ data\<rparr>))"

section \<open>The writer thread\<close>

type_synonym encoder = "DnsResponse \<Rightarrow> bytes \<Rightarrow> bool \<times> bytes"

definition LOG_CAPACITY :: nat where
  "LOG_CAPACITY = 256 * 1024"

text \<open>The chained \<open>write_all\<close> calls: the body is written only if the prefix was.\<close>

definition write_record :: "'w os_write \<Rightarrow> bytes \<Rightarrow> 'w BufWriter \<Rightarrow> (bool \<times> 'w BufWriter) option" where
  "write_record os proto_buffer writer =
     (let proto_len = of_nat (length proto_buffer) :: u32
      in case buf_write_all os (be_bytes 4 proto_len) writer of
           Some (True, writer1) \<Rightarrow> buf_write_all os proto_buffer writer1
         | r \<Rightarrow> r)"

text \<open>One iteration of the receive loop, over the scratch buffer and the writer.\<close>

definition file_writer_step ::
  "'w os_write \<Rightarrow> encoder \<Rightarrow> DnsResponse \<Rightarrow> bytes \<times> 'w BufWriter \<Rightarrow> (bytes \<times> 'w BufWriter) option" where
  "file_writer_step os encode dns_event = (\<lambda>(proto_buffer, writer).
     let cleared = [] in
     case encode dns_event cleared of
       (False, buf) \<Rightarrow> Some (buf, writer)
     | (True, buf) \<Rightarrow> map_option (\<lambda>(ok, writer'). (buf, writer')) (write_record os buf writer))"

text \<open>The end of the thread: the explicit \<open>flush\<close>, then the one of \<open>Drop for BufWriter\<close>.\<close>

definition file_writer_finish :: "'w os_write \<Rightarrow> 'w BufWriter \<Rightarrow> 'w option" where
  "file_writer_finish os writer =
     (case flush_buf os writer of None \<Rightarrow> None
      | Some (_, w1) \<Rightarrow> map_option (bw_inner \<circ> snd) (flush_buf os w1))"

fun file_writer_loop ::
  "'w os_write \<Rightarrow> encoder \<Rightarrow> DnsResponse list \<Rightarrow> bytes \<times> 'w BufWriter \<Rightarrow> (bytes \<times> 'w BufWriter) option" where
  "file_writer_loop os encode [] st = Some st"
| "file_writer_loop os encode (r # rs) st =
     (case file_writer_step os encode r st of None \<Rightarrow> None
      | Some st' \<Rightarrow> file_writer_loop os encode rs st')"

text \<open>The thread on the responses it receives before its channel closes.\<close>

definition file_writer :: "'w os_write \<Rightarrow> encoder \<Rightarrow> 'w \<Rightarrow> DnsResponse list \<Rightarrow> 'w option" where
  "file_writer os encode file rs =
     (case file_writer_loop os encode rs ([], with_capacity LOG_CAPACITY file) of None \<Rightarrow> None
      | Some (_, writer) \<Rightarrow> file_writer_finish os writer)"

section \<open>What the file and the encoder promise\<close>

definition appends :: "'w os_write \<Rightarrow> ('w \<Rightarrow> bytes) \<Rightarrow> bool" where
  "appends os content \<longleftrightarrow>
     (\<forall>buf w. case os buf w of
        (Written n, w') \<Rightarrow> n \<le> length buf \<and> content w' = content w @ take n buf
      | (_, w') \<Rightarrow> content w' = content w)"

text \<open>Every write makes progress: it writes something, or is interrupted, which the rank bounds.\<close>

definition progress :: "'w os_write \<Rightarrow> ('w \<Rightarrow> nat) \<Rightarrow> bool" where
  "progress os rank \<longleftrightarrow>
     (\<forall>buf w. buf \<noteq> [] \<longrightarrow> (case os buf w of
        (Written n, w') \<Rightarrow> 0 < n | (Interrupted, w') \<Rightarrow> rank w' < rank w | (Failed, w') \<Rightarrow> False))"

text \<open>A file that remembers a failed write: once a call has failed (or has accepted nothing), \<open>failed\<close>
  holds of every later state. For a file that never fails take \<open>failed\<close> to be false everywhere.\<close>

definition os_keeps :: "'w os_write \<Rightarrow> ('w \<Rightarrow> bool) \<Rightarrow> bool" where
  "os_keeps os P \<longleftrightarrow> (\<forall>buf w. P w \<longrightarrow> P (snd (os buf w)))"

definition remembers :: "'w os_write \<Rightarrow> ('w \<Rightarrow> bool) \<Rightarrow> bool" where
  "remembers os failed \<longleftrightarrow> os_keeps os failed
     \<and> (\<forall>buf w. buf \<noteq> [] \<longrightarrow> fst (os buf w) \<in> {Failed, Written 0} \<longrightarrow> failed (snd (os buf w)))"

definition encodes :: "encoder \<Rightarrow> (DnsResponse \<Rightarrow> bytes) \<Rightarrow> bool" where
  "encodes encode msg \<longleftrightarrow> (\<forall>r buf. encode r buf = (True, buf @ msg r))"

section \<open>The log format\<close>

definition frame :: "bytes \<Rightarrow> bytes" where
  "frame b = be_bytes 4 (of_nat (length b) :: u32) @ b"

text \<open>A reader of the format: the records of a log, or nothing if it ends inside one.\<close>

function read_frames :: "bytes \<Rightarrow> bytes list option" where
  "read_frames log =
     (if log = [] then Some []
      else let n = unat (of_be (take 4 log) :: u32) in
        if length log < 4 + n then None
        else map_option (Cons (take n (drop 4 log))) (read_frames (drop (4 + n) log)))"
  by pat_completeness auto
termination by (relation "measure length") auto

declare read_frames.simps [simp del]

lemma read_frames_Nil [simp]: "read_frames [] = Some []"
  by (simp add: read_frames.simps)

lemma length_frame [simp]: "length (frame b) = 4 + length b"
  by (simp add: frame_def)

lemma read_frames_cons:
  assumes "length b < 2 ^ 32"
  shows "read_frames (frame b @ rest) = map_option (Cons b) (read_frames rest)"
proof -
  have n: "unat (of_be (take 4 (frame b @ rest)) :: u32) = length b"
    using assms by (simp add: frame_def unat_of_nat)
  have "frame b @ rest \<noteq> []" by (metis length_frame append_is_Nil_conv list.size(3) add_is_0 zero_neq_numeral)
  moreover have "drop 4 (frame b @ rest) = b @ rest" by (simp add: frame_def)
  moreover have "drop (4 + length b) (frame b @ rest) = rest" by (simp add: frame_def)
  ultimately show ?thesis
    using n by (subst read_frames.simps) (simp add: Let_def)
qed

lemma read_frames_concat:
  "\<forall>b \<in> set bs. length b < 2 ^ 32 \<Longrightarrow> read_frames (concat (map frame bs)) = Some bs"
  by (induction bs) (simp_all add: read_frames_cons)

section \<open>The write loop\<close>

lemma appendsD:
  assumes "appends os content"
  shows "os buf w = (Written n, w') \<Longrightarrow> n \<le> length buf \<and> content w' = content w @ take n buf"
    and "os buf w = (Interrupted, w') \<Longrightarrow> content w' = content w"
    and "os buf w = (Failed, w') \<Longrightarrow> content w' = content w"
proof -
  have "case os buf w of (Written n, w') \<Rightarrow> n \<le> length buf \<and> content w' = content w @ take n buf
      | (_, w') \<Rightarrow> content w' = content w"
    using assms by (simp add: appends_def)
  then show "os buf w = (Written n, w') \<Longrightarrow> n \<le> length buf \<and> content w' = content w @ take n buf"
    and "os buf w = (Interrupted, w') \<Longrightarrow> content w' = content w"
    and "os buf w = (Failed, w') \<Longrightarrow> content w' = content w"
    by (simp_all)
qed

text \<open>Nothing is lost or invented on the way: what reached the file and what is left over are the
  bytes of the call, and the call succeeds exactly if nothing is left.\<close>

lemma write_loop_conserves:
  assumes "appends os content" and "write_loop os buf w = Some (ok, rest, w')"
  shows "\<exists>g. content w' = content w @ g \<and> buf = g @ rest \<and> (ok \<longleftrightarrow> rest = [])"
proof -
  let ?P = "\<lambda>os buf w (ok, rest, w'). appends os content \<longrightarrow>
    (\<exists>g. content w' = content w @ g \<and> buf = g @ rest \<and> (ok \<longleftrightarrow> rest = []))"
  have "?P os buf w (ok, rest, w')"
  proof (rule write_loop.raw_induct [where P = ?P, OF _ assms(2)])
    fix loop os buf w y
    assume IH: "\<And>os buf w y. loop os buf w = Some y \<Longrightarrow> ?P os buf w y"
      and body: "(if buf = [] then Some (True, [], w)
        else case os buf w of
            (Written n, w') \<Rightarrow> if n = 0 then Some (False, buf, w') else loop os (drop n buf) w'
          | (Interrupted, w') \<Rightarrow> loop os buf w'
          | (Failed, w') \<Rightarrow> Some (False, buf, w')) = Some y"
    obtain r w1 where o: "os buf w = (r, w1)" by fastforce
    obtain ok rest w' where y: "y = (ok, rest, w')" by (cases y)
    have "\<exists>g. content w' = content w @ g \<and> buf = g @ rest \<and> (ok \<longleftrightarrow> rest = [])"
      if a: "appends os content"
    proof (cases "buf = [] \<or> r = Failed \<or> r = Written 0")
      case True
      then show ?thesis using body o y appendsD(1,3) [OF a] by (intro exI [of _ "[]"]) (fastforce split: if_splits)
    next
      case False
      let ?n = "case r of Written n \<Rightarrow> n | _ \<Rightarrow> 0"
      have "loop os (drop ?n buf) w1 = Some (ok, rest, w')"
        using False body o y by (auto split: io_result.splits)
      from IH [OF this] a obtain g where g: "content w' = content w1 @ g" "drop ?n buf = g @ rest"
          "ok \<longleftrightarrow> rest = []" by auto
      have "content w1 = content w @ take ?n buf"
        using False o appendsD [OF a] by (fastforce split: io_result.splits)
      moreover have "buf = take ?n buf @ g @ rest" using g(2) by (metis append_take_drop_id)
      ultimately show ?thesis using g(1,3) by (intro exI [of _ "take ?n buf @ g"]) simp
    qed
    then show "?P os buf w y" by (simp add: y)
  qed
  then show ?thesis using assms(1) by simp
qed

text \<open>With a file that makes progress the loop returns, and has written everything.\<close>

lemma write_loop_complete:
  assumes "appends os content" and "progress os rank"
  shows "\<exists>w'. write_loop os buf w = Some (True, [], w') \<and> content w' = content w @ buf"
proof (induction "(length buf, rank w)" arbitrary: buf w rule: wf_induct_rule [OF wf_lex_prod [OF wf_less_than wf_less_than]])
  case 1
  show ?case
  proof (cases "buf = []")
    case True
    then show ?thesis by (simp add: write_loop.simps)
  next
    case False
    obtain r w1 where o: "os buf w = (r, w1)" by fastforce
    have pr: "case (r, w1) of (Written n, w') \<Rightarrow> 0 < n | (Interrupted, w') \<Rightarrow> rank w' < rank w | (Failed, w') \<Rightarrow> False"
      using assms(2) False o unfolding progress_def by metis
    show ?thesis
    proof (cases r)
      case (Written n)
      with pr False have "((length (drop n buf), rank w1), (length buf, rank w)) \<in> less_than <*lex*> less_than"
        by simp
      from 1 [OF this] obtain w' where w': "write_loop os (drop n buf) w1 = Some (True, [], w')"
          "content w' = content w1 @ drop n buf" by blast
      with pr False o Written show ?thesis
        using appendsD(1) [OF assms(1), of buf w n w1] by (subst write_loop.simps) simp
    next
      case Interrupted
      with pr have "((length buf, rank w1), (length buf, rank w)) \<in> less_than <*lex*> less_than" by simp
      from 1 [OF this] show ?thesis
        using False o Interrupted appendsD(2) [OF assms(1), of buf w w1] by (subst write_loop.simps) simp
    next
      case Failed
      with pr show ?thesis by simp
    qed
  qed
qed

section \<open>The buffered writer\<close>

text \<open>The bytes a writer is responsible for: those in the file, then those in the buffer.\<close>

definition stream_of :: "('w \<Rightarrow> bytes) \<Rightarrow> 'w BufWriter \<Rightarrow> bytes" where
  "stream_of content bw = content (bw_inner bw) @ bw_buf bw"

definition bw_ok :: "nat \<Rightarrow> 'w BufWriter \<Rightarrow> bool" where
  "bw_ok cap bw \<longleftrightarrow> bw_capacity bw = cap \<and> length (bw_buf bw) \<le> cap"

lemma flush_conserves:
  assumes "appends os content" and "bw_ok cap bw" and "flush_buf os bw = Some (ok, bw')"
  shows "stream_of content bw' = stream_of content bw \<and> bw_ok cap bw' \<and> (ok \<longleftrightarrow> bw_buf bw' = [])"
proof -
  obtain rest w where run: "write_loop os (bw_buf bw) (bw_inner bw) = Some (ok, rest, w)"
      and bw': "bw' = bw\<lparr>bw_buf := rest, bw_inner := w\<rparr>"
    using assms(3) by (auto simp: flush_buf_def)
  obtain g where "content w = content (bw_inner bw) @ g" "bw_buf bw = g @ rest" "ok \<longleftrightarrow> rest = []"
    using write_loop_conserves [OF assms(1) run] by blast
  with bw' assms(2) show ?thesis by (simp add: stream_of_def bw_ok_def)
qed

lemma flush_complete:
  assumes "appends os content" and "progress os rank"
  shows "\<exists>bw'. flush_buf os bw = Some (True, bw')"
  using write_loop_complete [OF assms, of "bw_buf bw" "bw_inner bw"] by (auto simp: flush_buf_def)

text \<open>Whatever the file does, a call appends a prefix of its data to the stream, and all of it if it
  succeeds.\<close>

lemma buf_write_all_prefix:
  assumes "appends os content" and "bw_ok cap bw" and "buf_write_all os data bw = Some (ok, bw')"
  shows "\<exists>p. prefix p data \<and> stream_of content bw' = stream_of content bw @ p
    \<and> bw_ok cap bw' \<and> (ok \<longrightarrow> p = data)"
proof (cases "length data < spare_capacity bw")
  case True
  then have "bw' = bw\<lparr>bw_buf := bw_buf bw @ data\<rparr>" using assms(3) by (simp add: buf_write_all_def)
  with True assms(2) show ?thesis
    by (intro exI [of _ data]) (auto simp: stream_of_def bw_ok_def spare_capacity_def)
next
  case False
  obtain ok1 bw1 where front: "(if spare_capacity bw < length data then flush_buf os bw else Some (True, bw))
      = Some (ok1, bw1)"
    using assms(3) False by (auto simp: buf_write_all_def split: option.splits)
  have s1: "stream_of content bw1 = stream_of content bw" and i1: "bw_ok cap bw1"
    and e1: "ok1 \<longrightarrow> length data \<le> cap - length (bw_buf bw1) \<or> bw_buf bw1 = []"
    using flush_conserves [OF assms(1,2), of ok1 bw1] front assms(2) False
    by (auto simp: spare_capacity_def bw_ok_def split: if_splits)
  show ?thesis
  proof (cases "ok1 \<and> cap \<le> length data")
    case True
    then have empty: "bw_buf bw1 = []"
      using e1 i1 by (cases "bw_buf bw1") (auto simp: bw_ok_def)
    obtain rest w where run: "write_loop os data (bw_inner bw1) = Some (ok, rest, w)"
        and bw': "bw' = bw1\<lparr>bw_inner := w\<rparr>"
      using assms(3) False front True i1 by (auto simp: buf_write_all_def bw_ok_def)
    obtain g where "content w = content (bw_inner bw1) @ g" "data = g @ rest" "ok \<longleftrightarrow> rest = []"
      using write_loop_conserves [OF assms(1) run] by blast
    with bw' empty i1 s1 show ?thesis
      by (intro exI [of _ g]) (auto simp: stream_of_def bw_ok_def)
  next
    case cold: False
    then have "ok = ok1" and "bw' = (if ok1 then bw1\<lparr>bw_buf := bw_buf bw1 @ data\<rparr> else bw1)"
      using assms(3) False front i1 by (auto simp: buf_write_all_def bw_ok_def split: bool.splits)
    with cold s1 i1 e1 show ?thesis
      by (intro exI [of _ "if ok1 then data else []"]) (auto simp: stream_of_def bw_ok_def)
  qed
qed

lemma buf_write_all_complete:
  assumes "appends os content" and "progress os rank"
  shows "\<exists>bw'. buf_write_all os data bw = Some (True, bw')"
proof -
  obtain bw1 where "(if spare_capacity bw < length data then flush_buf os bw else Some (True, bw)) = Some (True, bw1)"
    using flush_complete [OF assms, of bw] by (cases "spare_capacity bw < length data") auto
  moreover obtain w where "write_loop os data (bw_inner bw1) = Some (True, [], w)"
    using write_loop_complete [OF assms] by blast
  ultimately show ?thesis by (simp add: buf_write_all_def)
qed

section \<open>Records\<close>

lemma write_record_prefix:
  assumes "appends os content" and "bw_ok cap bw" and "write_record os b bw = Some (ok, bw')"
  shows "\<exists>p. prefix p (frame b) \<and> stream_of content bw' = stream_of content bw @ p
    \<and> bw_ok cap bw' \<and> (ok \<longrightarrow> p = frame b)"
proof -
  let ?len = "be_bytes 4 (of_nat (length b) :: u32)"
  obtain ok1 bw1 where one: "buf_write_all os ?len bw = Some (ok1, bw1)"
    using assms(3) by (cases "buf_write_all os ?len bw") (auto simp: write_record_def)
  from buf_write_all_prefix [OF assms(1,2) one] obtain p1 where p1: "prefix p1 ?len"
      "stream_of content bw1 = stream_of content bw @ p1" "bw_ok cap bw1" "ok1 \<longrightarrow> p1 = ?len" by blast
  show ?thesis
  proof (cases ok1)
    case True
    then have two: "buf_write_all os b bw1 = Some (ok, bw')"
      using assms(3) one by (simp add: write_record_def)
    from buf_write_all_prefix [OF assms(1) p1(3) two] obtain p2 where "prefix p2 b"
      "stream_of content bw' = stream_of content bw1 @ p2" "bw_ok cap bw'" "ok \<longrightarrow> p2 = b" by blast
    with p1 True show ?thesis by (intro exI [of _ "?len @ p2"]) (auto simp: frame_def)
  next
    case False
    then have "ok = False" "bw' = bw1" using assms(3) one by (simp_all add: write_record_def)
    with p1 show ?thesis by (intro exI [of _ p1]) (auto simp: frame_def intro: prefix_order.trans)
  qed
qed

lemma write_record_complete:
  assumes "appends os content" and "progress os rank"
  shows "\<exists>bw'. write_record os b bw = Some (True, bw')"
proof -
  obtain bw1 where "buf_write_all os (be_bytes 4 (of_nat (length b) :: u32)) bw = Some (True, bw1)"
    using buf_write_all_complete [OF assms] by blast
  then show ?thesis using buf_write_all_complete [OF assms, of b bw1] by (simp add: write_record_def)
qed

lemma finish_complete:
  assumes "appends os content" and "progress os rank" and "bw_ok cap bw"
  shows "\<exists>w. file_writer_finish os bw = Some w \<and> content w = stream_of content bw"
proof -
  obtain bw1 where f1: "flush_buf os bw = Some (True, bw1)" using flush_complete [OF assms(1,2)] by blast
  obtain bw2 where f2: "flush_buf os bw1 = Some (True, bw2)" using flush_complete [OF assms(1,2)] by blast
  note c1 = flush_conserves [OF assms(1,3) f1]
  then have "bw_ok cap bw1" by simp
  note c2 = flush_conserves [OF assms(1) this f2]
  from c1 c2 f1 f2 show ?thesis by (auto simp: file_writer_finish_def stream_of_def)
qed

lemma step_encodes:
  "encodes encode msg \<Longrightarrow> file_writer_step os encode r (buf, bw) =
     map_option (\<lambda>(ok, writer'). (msg r, writer')) (write_record os (msg r) bw)"
  by (simp add: file_writer_step_def encodes_def)

lemma loop_complete:
  assumes "appends os content" and "progress os rank" and "encodes encode msg" and "bw_ok cap bw"
  shows "\<exists>buf' bw'. file_writer_loop os encode rs (buf, bw) = Some (buf', bw') \<and> bw_ok cap bw'
    \<and> stream_of content bw' = stream_of content bw @ concat (map (frame \<circ> msg) rs)"
  using assms(4)
proof (induction rs arbitrary: buf bw)
  case Nil
  then show ?case by simp
next
  case (Cons r rs)
  obtain bw1 where run: "write_record os (msg r) bw = Some (True, bw1)"
    using write_record_complete [OF assms(1,2)] by blast
  from write_record_prefix [OF assms(1) Cons.prems run]
  have bw1: "bw_ok cap bw1" "stream_of content bw1 = stream_of content bw @ frame (msg r)" by auto
  from Cons.IH [OF bw1(1), of "msg r"] bw1(2) run show ?case
    by (auto simp: step_encodes [OF assms(3)])
qed

lemma loop_prefixes:
  assumes "appends os content" and "encodes encode msg" and "bw_ok cap bw"
    and "file_writer_loop os encode rs (buf, bw) = Some (buf', bw')"
  shows "\<exists>ps. list_all2 (\<lambda>p r. prefix p (frame (msg r))) ps rs
    \<and> stream_of content bw' = stream_of content bw @ concat ps \<and> bw_ok cap bw'"
  using assms(3,4)
proof (induction rs arbitrary: buf bw)
  case Nil
  then show ?case by simp
next
  case (Cons r rs)
  obtain ok bw1 where run: "write_record os (msg r) bw = Some (ok, bw1)"
      and rest: "file_writer_loop os encode rs (msg r, bw1) = Some (buf', bw')"
    using Cons.prems(2) by (auto simp: step_encodes [OF assms(2)] split: option.splits)
  from write_record_prefix [OF assms(1) Cons.prems(1) run] obtain p where p: "prefix p (frame (msg r))"
      "stream_of content bw1 = stream_of content bw @ p" "bw_ok cap bw1" by blast
  from Cons.IH [OF p(3) rest] obtain ps where "list_all2 (\<lambda>p r. prefix p (frame (msg r))) ps rs"
      "stream_of content bw' = stream_of content bw1 @ concat ps" "bw_ok cap bw'" by blast
  with p show ?case by (intro exI [of _ "p # ps"]) simp
qed

text \<open>Small records stay in the buffer: no call reaches the file.\<close>

definition log_size :: "bytes list \<Rightarrow> nat" where
  "log_size bs = sum_list (map (length \<circ> frame) bs)"

lemma log_size_simps [simp]: "log_size [] = 0" "log_size (bs @ [b]) = log_size bs + 4 + length b"
  by (simp_all add: log_size_def)

lemma buf_write_all_fits:
  assumes "length data < spare_capacity bw"
  shows "buf_write_all os data bw = Some (True, bw\<lparr>bw_buf := bw_buf bw @ data\<rparr>)"
  using assms by (simp add: buf_write_all_def)

lemma write_record_fits:
  assumes "4 + length b < spare_capacity bw"
  shows "write_record os b bw = Some (True, bw\<lparr>bw_buf := bw_buf bw @ frame b\<rparr>)"
  using assms by (simp add: write_record_def buf_write_all_fits spare_capacity_def frame_def)

lemma length_frames: "length (concat (map (frame \<circ> msg) rs)) = log_size (map msg rs)"
  by (simp add: log_size_def length_concat comp_def)

lemma new_writer [simp]:
  "bw_ok cap (with_capacity cap w)" "stream_of content (with_capacity cap w) = content w"
  by (simp_all add: bw_ok_def with_capacity_def stream_of_def)

section \<open>Failed writes\<close>

text \<open>What every call of the file keeps, the writer keeps; and it reports an error only after a call of the
  file failed.\<close>

lemma os_keepsD: "os_keeps os P \<Longrightarrow> os buf w = (r, w') \<Longrightarrow> P w \<Longrightarrow> P w'"
  unfolding os_keeps_def by (metis snd_conv)

lemma remembersD:
  assumes "remembers os failed"
  shows "os_keeps os failed"
    and "os buf w = (r, w') \<Longrightarrow> buf \<noteq> [] \<Longrightarrow> r = Failed \<or> r = Written 0 \<Longrightarrow> failed w'"
  using assms unfolding remembers_def by (auto dest!: spec [of _ buf] spec [of _ w])

lemma write_loop_traces:
  assumes "write_loop os buf w = Some (ok, rest, w')"
  shows "(os_keeps os P \<longrightarrow> P w \<longrightarrow> P w') \<and> (remembers os failed \<longrightarrow> \<not> ok \<longrightarrow> failed w')"
proof -
  let ?P = "\<lambda>os buf w (ok, rest, w'). (os_keeps os P \<longrightarrow> P w \<longrightarrow> P w')
    \<and> (remembers os failed \<longrightarrow> \<not> ok \<longrightarrow> failed w')"
  have "?P os buf w (ok, rest, w')"
  proof (rule write_loop.raw_induct [where P = ?P, OF _ assms])
    fix loop os buf w y
    assume IH: "\<And>os buf w y. loop os buf w = Some y \<Longrightarrow> ?P os buf w y"
      and body: "(if buf = [] then Some (True, [], w)
        else case os buf w of
            (Written n, w') \<Rightarrow> if n = 0 then Some (False, buf, w') else loop os (drop n buf) w'
          | (Interrupted, w') \<Rightarrow> loop os buf w'
          | (Failed, w') \<Rightarrow> Some (False, buf, w')) = Some y"
    obtain r w1 where o: "os buf w = (r, w1)" by fastforce
    have k: "P w1" if "os_keeps os P" "P w" using that o os_keepsD [of os P] by blast
    show "?P os buf w y"
    proof (cases "buf = [] \<or> r = Failed \<or> r = Written 0")
      case True
      then show ?thesis using body o k remembersD(2) [of os failed buf w r w1] by (auto split: if_splits)
    next
      case False
      then obtain buf1 where "loop os buf1 w1 = Some y" using body o by (auto split: io_result.splits)
      from IH [OF this] k show ?thesis by (cases y) auto
    qed
  qed
  then show ?thesis by simp
qed

lemma flush_traces:
  assumes "flush_buf os bw = Some (ok, bw')"
  shows "(os_keeps os P \<longrightarrow> P (bw_inner bw) \<longrightarrow> P (bw_inner bw'))
    \<and> (remembers os failed \<longrightarrow> \<not> ok \<longrightarrow> failed (bw_inner bw'))"
  using assms write_loop_traces [of os "bw_buf bw" "bw_inner bw" ok _ _ P failed]
  by (auto simp: flush_buf_def)

lemma buf_write_all_traces:
  assumes "buf_write_all os data bw = Some (ok, bw')"
  shows "(os_keeps os P \<longrightarrow> P (bw_inner bw) \<longrightarrow> P (bw_inner bw'))
    \<and> (remembers os failed \<longrightarrow> \<not> ok \<longrightarrow> failed (bw_inner bw'))"
proof (cases "length data < spare_capacity bw")
  case True
  with assms show ?thesis by (auto simp: buf_write_all_def)
next
  case False
  obtain ok1 bw1 where front: "(if spare_capacity bw < length data then flush_buf os bw else Some (True, bw))
      = Some (ok1, bw1)"
    using assms False by (auto simp: buf_write_all_def split: option.splits)
  then have "(os_keeps os P \<longrightarrow> P (bw_inner bw) \<longrightarrow> P (bw_inner bw1))
      \<and> (remembers os failed \<longrightarrow> \<not> ok1 \<longrightarrow> failed (bw_inner bw1))"
    using flush_traces [of os bw ok1 bw1 P failed] by (auto split: if_splits)
  note front_traces = this
  show ?thesis
  proof (cases "ok1 \<and> bw_capacity bw1 \<le> length data")
    case True
    then obtain rest w where run: "write_loop os data (bw_inner bw1) = Some (ok, rest, w)"
        and "bw' = bw1\<lparr>bw_inner := w\<rparr>"
      using assms False front by (auto simp: buf_write_all_def)
    with front_traces write_loop_traces [OF run, of P failed] show ?thesis by auto
  next
    case cold: False
    then have "ok = ok1" and "bw_inner bw' = bw_inner bw1"
      using assms False front by (auto simp: buf_write_all_def split: bool.splits)
    with front_traces show ?thesis by simp
  qed
qed

lemma write_record_traces:
  assumes "write_record os b bw = Some (ok, bw')"
  shows "(os_keeps os P \<longrightarrow> P (bw_inner bw) \<longrightarrow> P (bw_inner bw'))
    \<and> (remembers os failed \<longrightarrow> \<not> ok \<longrightarrow> failed (bw_inner bw'))"
proof -
  let ?len = "be_bytes 4 (of_nat (length b) :: u32)"
  obtain ok1 bw1 where one: "buf_write_all os ?len bw = Some (ok1, bw1)"
    using assms by (cases "buf_write_all os ?len bw") (auto simp: write_record_def)
  with assms show ?thesis
    using buf_write_all_traces [OF one, of P failed] buf_write_all_traces [of os b bw1 ok bw' P failed]
    by (cases ok1) (auto simp: write_record_def)
qed

lemma loop_keeps:
  assumes "os_keeps os P" and "file_writer_loop os encode rs (buf, bw) = Some (buf', bw')" and "P (bw_inner bw)"
  shows "P (bw_inner bw')"
  using assms(2,3)
proof (induction rs arbitrary: buf bw)
  case (Cons r rs)
  then obtain buf1 bw1 where s: "file_writer_step os encode r (buf, bw) = Some (buf1, bw1)"
      "file_writer_loop os encode rs (buf1, bw1) = Some (buf', bw')"
    by (auto split: option.splits)
  obtain ok b where e: "encode r [] = (ok, b)" by fastforce
  have "P (bw_inner bw1)"
    using s(1) e Cons.prems(2) assms(1) write_record_traces [of os b bw _ bw1 P P]
    by (cases ok) (auto simp: file_writer_step_def)
  with Cons.IH s(2) show ?case by blast
qed simp

lemma loop_unfailed:
  assumes "appends os content" and "encodes encode msg" and "remembers os failed" and "bw_ok cap bw"
    and "file_writer_loop os encode rs (buf, bw) = Some (buf', bw')" and "\<not> failed (bw_inner bw')"
  shows "stream_of content bw' = stream_of content bw @ concat (map (frame \<circ> msg) rs)"
  using assms(4,5)
proof (induction rs arbitrary: buf bw)
  case (Cons r rs)
  obtain ok bw1 where run: "write_record os (msg r) bw = Some (ok, bw1)"
      and rest: "file_writer_loop os encode rs (msg r, bw1) = Some (buf', bw')"
    using Cons.prems(2) by (auto simp: step_encodes [OF assms(2)] split: option.splits)
  have "\<not> failed (bw_inner bw1)"
    using loop_keeps [OF remembersD(1) [OF assms(3)] rest] assms(6) by blast
  then have ok using write_record_traces [OF run] assms(3) by blast
  with write_record_prefix [OF assms(1) Cons.prems(1) run] Cons.IH [OF _ rest] show ?case by auto
qed simp

lemma finish_cases:
  assumes "appends os content" and "bw_ok cap bw" and "file_writer_finish os bw = Some w"
  shows "\<exists>lost. content w @ lost = stream_of content bw \<and> length lost \<le> cap
      \<and> (remembers os failed \<longrightarrow> failed w \<or> lost = [])"
    and "os_keeps os P \<Longrightarrow> P (bw_inner bw) \<Longrightarrow> P w"
proof -
  obtain ok1 bw1 ok2 bw2 where f: "flush_buf os bw = Some (ok1, bw1)" "flush_buf os bw1 = Some (ok2, bw2)"
      and w: "w = bw_inner bw2"
    using assms(3) by (auto simp: file_writer_finish_def split: option.splits)
  note c1 = flush_conserves [OF assms(1,2) f(1)]
  then have "bw_ok cap bw1" by simp
  note c2 = flush_conserves [OF assms(1) this f(2)]
  show "\<exists>lost. content w @ lost = stream_of content bw \<and> length lost \<le> cap
      \<and> (remembers os failed \<longrightarrow> failed w \<or> lost = [])"
    using c1 c2 w flush_traces [OF f(2), of _ failed]
    by (intro exI [of _ "bw_buf bw2"]) (auto simp: stream_of_def bw_ok_def)
  show "os_keeps os P \<Longrightarrow> P (bw_inner bw) \<Longrightarrow> P w"
    using flush_traces [OF f(1), of P] flush_traces [OF f(2), of P] w by blast
qed

section \<open>Properties\<close>

text \<open>A file for the witnesses: it writes at most three bytes at a time and is interrupted a few
  times first; and an encoder that keeps the domain name only.\<close>

definition sample_disk :: "(nat \<times> bytes) os_write" where
  "sample_disk buf = (\<lambda>(k, c). if 0 < k then (Interrupted, (k - 1, c))
     else (Written (min 3 (length buf)), (0, c @ take 3 buf)))"

definition full_disk :: "bytes os_write" where
  "full_disk buf c = (Failed, c)"

definition small_disk :: "(nat \<times> bytes) os_write" where
  "small_disk buf = (\<lambda>(k, c). if k = 0 then (Failed, (0, c))
     else (Written (min k (length buf)), (k - length buf, c @ take k buf)))"

definition sample_encode :: encoder where
  "sample_encode r buf = (True, buf @ map (of_nat \<circ> of_char) (domain_name r))"

lemma sample_disk_ok: "appends sample_disk snd" "progress sample_disk fst"
  by (auto simp: appends_def progress_def sample_disk_def min_def)

lemma full_disk_ok: "appends full_disk id"
  by (simp add: appends_def full_disk_def)

lemma small_disk_ok: "appends small_disk snd" "remembers small_disk (\<lambda>(k, _). k = 0)"
  by (auto simp: appends_def remembers_def os_keeps_def small_disk_def min_def split: if_splits)

lemma frame_ab: "frame [97, 98] = [0, 0, 0, 2, 97, 98]"
  by code_simp

lemma sample_encode_ok: "encodes sample_encode (\<lambda>r. map (of_nat \<circ> of_char) (domain_name r))"
  by (simp add: encodes_def sample_encode_def)

lemma file_writer_returns:
  assumes "appends os content" and "progress os rank" and "encodes encode msg"
  shows "\<exists>file'. file_writer os encode file rs = Some file'
    \<and> content file' = content file @ concat (map (frame \<circ> msg) rs)"
proof -
  obtain buf' bw' where run: "file_writer_loop os encode rs ([], with_capacity LOG_CAPACITY file) = Some (buf', bw')"
      and ok: "bw_ok LOG_CAPACITY bw'"
      and s: "stream_of content bw' = content file @ concat (map (frame \<circ> msg) rs)"
    using loop_complete [OF assms, of LOG_CAPACITY "with_capacity LOG_CAPACITY file" rs "[]"] by auto
  obtain file' where "file_writer_finish os bw' = Some file'" "content file' = stream_of content bw'"
    using finish_complete [OF assms(1,2) ok] by blast
  with run s show ?thesis by (simp add: file_writer_def)
qed

text \<open>C19. The commit log round trip: on a file that makes progress the writer thread returns, and
  reading the log back gives the records that were there before followed by the encoding of every
  response it received, in order, with nothing missing from the buffer.\<close>

theorem log_roundtrip:
  assumes "appends os content" and "progress os rank" and "encodes encode msg"
    and "content file = concat (map frame old)"
    and "list_all (\<lambda>b. length b < 2 ^ 32) (old @ map msg rs)"
  shows "\<exists>file'. file_writer os encode file rs = Some file'
    \<and> read_frames (content file') = Some (old @ map msg rs)"
proof -
  obtain file' where f: "file_writer os encode file rs = Some file'"
      "content file' = content file @ concat (map (frame \<circ> msg) rs)"
    using file_writer_returns [OF assms(1-3)] by blast
  have "content file' = concat (map frame (old @ map msg rs))"
    by (simp add: f(2) assms(4) comp_def)
  then have "read_frames (content file') = Some (old @ map msg rs)"
    using read_frames_concat assms(5) by (simp only: list_all_iff)
  with f(1) show ?thesis by simp
qed

theorem log_roundtrip_witness:
  "\<exists>file'. file_writer sample_disk sample_encode (2, []) [default_DnsResponse\<lparr>domain_name := ''ab''\<rparr>] = Some file'
     \<and> read_frames (snd file') = Some [[97, 98]]"
  using log_roundtrip [OF sample_disk_ok sample_encode_ok, of "(2, [])" "[]"
      "[default_DnsResponse\<lparr>domain_name := ''ab''\<rparr>]"]
  by (simp add: default_DnsResponse_def)

lemma appends_grows: "appends os content \<Longrightarrow> os_keeps os (\<lambda>w. prefix c (content w))"
  unfolding os_keeps_def
proof (intro allI impI)
  fix buf w
  assume a: "appends os content" and "prefix c (content w)"
  obtain r w' where o: "os buf w = (r, w')" by fastforce
  then show "prefix c (content (snd (os buf w)))"
    using \<open>prefix c (content w)\<close> appendsD [OF a] by (cases r) fastforce+
qed

text \<open>C38. On any file that only appends, whichever of its writes fail: if the writer thread ends, the file
  is the old file followed by some bytes \<open>g\<close>. These and at most 256 KiB that stayed in the buffer make up
  one prefix of the frame of each record, in order. If no write of the file failed, \<open>g\<close> is the frames of
  all records in full.\<close>

theorem log_prefixes:
  assumes "appends os content" and "encodes encode msg" and "remembers os failed"
    and "file_writer os encode file rs = Some file'"
  shows "\<exists>ps g lost. list_all2 (\<lambda>p r. prefix p (frame (msg r))) ps rs \<and> g @ lost = concat ps
    \<and> content file' = content file @ g \<and> length lost \<le> LOG_CAPACITY
    \<and> (failed file' \<or> g = concat (map (frame \<circ> msg) rs))"
proof -
  obtain buf' bw' where run: "file_writer_loop os encode rs ([], with_capacity LOG_CAPACITY file) = Some (buf', bw')"
      and f: "file_writer_finish os bw' = Some file'"
    using assms(4) by (auto simp: file_writer_def split: option.splits)
  from loop_prefixes [OF assms(1,2) new_writer(1) run] obtain ps where
    ps: "list_all2 (\<lambda>p r. prefix p (frame (msg r))) ps rs" "stream_of content bw' = content file @ concat ps"
    "bw_ok LOG_CAPACITY bw'" by auto
  obtain lost where lost: "content file' @ lost = content file @ concat ps" "length lost \<le> LOG_CAPACITY"
      "failed file' \<or> lost = []"
    using finish_cases(1) [OF assms(1) ps(3) f, of failed] ps(2) assms(3) by auto
  note grows = appends_grows [OF assms(1), of "content file"]
  have "prefix (content file) (content (bw_inner bw'))"
    using loop_keeps [OF grows run] by (simp add: with_capacity_def)
  from finish_cases(2) [OF assms(1) ps(3) f grows this] obtain g where g: "content file' = content file @ g"
    by (auto simp: prefix_def)
  have "g = concat (map (frame \<circ> msg) rs)" if "\<not> failed file'"
  proof -
    have "\<not> failed (bw_inner bw')"
      using finish_cases(2) [OF assms(1) ps(3) f remembersD(1) [OF assms(3)]] that by blast
    from loop_unfailed [OF assms(1-3) new_writer(1) run this] lost(1,3) that g ps(2) show ?thesis by simp
  qed
  then show ?thesis using ps(1) lost(1,2) g by (intro exI [of _ ps] exI [of _ g] exI [of _ lost]) auto
qed

theorem log_prefixes_witness:
  "(\<exists>ps g lost. list_all2 (\<lambda>p r. prefix p (frame (map (of_nat \<circ> of_char) (domain_name r)))) ps
        [default_DnsResponse\<lparr>domain_name := ''ab''\<rparr>]
      \<and> g @ lost = concat ps \<and> [7, 0, 0, 0, 2, 97] = 7 # g \<and> length lost \<le> LOG_CAPACITY)
   \<and> (\<exists>file'. file_writer sample_disk sample_encode (2, [7]) [default_DnsResponse\<lparr>domain_name := ''ab''\<rparr>]
        = Some file' \<and> snd file' = [7, 0, 0, 0, 2, 97, 98])"
proof
  let ?r = "default_DnsResponse\<lparr>domain_name := ''ab''\<rparr>"
  have w: "write_record os [97, 98] (with_capacity LOG_CAPACITY w) =
      Some (True, (with_capacity LOG_CAPACITY w)\<lparr>bw_buf := [0, 0, 0, 2, 97, 98]\<rparr>)" for os and w :: 'w
    by (simp add: write_record_fits spare_capacity_def with_capacity_def LOG_CAPACITY_def frame_ab)
  have "file_writer_loop small_disk sample_encode [?r] ([], with_capacity LOG_CAPACITY (5, [7])) =
      Some ([97, 98], (with_capacity LOG_CAPACITY (5, [7]))\<lparr>bw_buf := [0, 0, 0, 2, 97, 98]\<rparr>)"
    by (simp add: step_encodes [OF sample_encode_ok] default_DnsResponse_def w)
  then have "file_writer small_disk sample_encode (5, [7]) [?r] = Some (0, [7, 0, 0, 0, 2, 97])"
    by (simp add: file_writer_def file_writer_finish_def flush_buf_def write_loop.simps small_disk_def
        with_capacity_def del: file_writer_loop.simps)
  from log_prefixes [OF small_disk_ok(1) sample_encode_ok small_disk_ok(2) this]
  show "\<exists>ps g lost. list_all2 (\<lambda>p r. prefix p (frame (map (of_nat \<circ> of_char) (domain_name r)))) ps [?r]
      \<and> g @ lost = concat ps \<and> [7, 0, 0, 0, 2, 97] = 7 # g \<and> length lost \<le> LOG_CAPACITY"
    by auto
  obtain file' where f: "file_writer sample_disk sample_encode (2, [7]) [?r] = Some file'"
    using file_writer_returns [OF sample_disk_ok sample_encode_ok] by blast
  have "remembers sample_disk (\<lambda>_. False)"
    by (auto simp: remembers_def os_keeps_def sample_disk_def min_def)
  from log_prefixes [OF sample_disk_ok(1) sample_encode_ok this f]
  have "snd file' = 7 # frame [97, 98]" by (auto simp: default_DnsResponse_def)
  with f show "\<exists>file'. file_writer sample_disk sample_encode (2, [7]) [?r] = Some file'
      \<and> snd file' = [7, 0, 0, 0, 2, 97, 98]" by (simp add: frame_ab)
qed

text \<open>C37. A record can be torn: when the buffer has room for the length prefix but not for the body
  and the flush fails, the error is reported but the bare prefix stays in the buffer. The next record
  is then written behind it, and a reader takes that record's bytes for the missing body.\<close>

theorem torn_record:
  assumes "appends os content" and "\<forall>buf. os buf (bw_inner bw) = (Failed, bw_inner bw)"
    and "4 < spare_capacity bw" and "spare_capacity bw < 4 + length b"
  shows "\<exists>bw'. write_record os b bw = Some (False, bw')
    \<and> stream_of content bw' = stream_of content bw @ be_bytes 4 (of_nat (length b) :: u32)"
proof -
  let ?len = "be_bytes 4 (of_nat (length b) :: u32)"
  let ?bw1 = "bw\<lparr>bw_buf := bw_buf bw @ ?len\<rparr>"
  have one: "buf_write_all os ?len bw = Some (True, ?bw1)" using assms(3) by (simp add: buf_write_all_def)
  have len: "spare_capacity ?bw1 < length b" using assms(3,4) by (simp add: spare_capacity_def)
  have ne: "bw_buf bw @ ?len \<noteq> []" by (metis length_be_bytes append_is_Nil_conv list.size(3) zero_neq_numeral)
  have "write_loop os (bw_buf bw @ ?len) (bw_inner bw) = Some (False, bw_buf bw @ ?len, bw_inner bw)"
    using ne assms(2) by (subst write_loop.simps) simp
  then have "flush_buf os ?bw1 = Some (False, ?bw1)" by (simp add: flush_buf_def)
  with len have "buf_write_all os b ?bw1 = Some (False, ?bw1)" by (simp add: buf_write_all_def)
  with one show ?thesis by (simp add: write_record_def stream_of_def)
qed

theorem torn_record_witness:
  "(\<exists>bw'. write_record full_disk [1, 2, 3] ((with_capacity 8 [])\<lparr>bw_buf := [0, 0, 0]\<rparr>) = Some (False, bw')
     \<and> stream_of id bw' = [0, 0, 0] @ [0, 0, 0, 3])
   \<and> read_frames ([0, 0, 0, 3] @ frame [9]) = None"
proof -
  have "be_bytes 4 (of_nat (length [1, 2, 3 :: u8]) :: u32) = [0, 0, 0, 3]" by code_simp
  moreover have "read_frames ([0, 0, 0, 3] @ frame [9]) = None" by code_simp
  ultimately show ?thesis
    using torn_record [OF full_disk_ok, of "(with_capacity 8 [])\<lparr>bw_buf := [0, 0, 0]\<rparr>" "[1, 2, 3]"]
    by (simp add: full_disk_def with_capacity_def spare_capacity_def stream_of_def)
qed

end
