(* ===== verification/Topology.thy ===== *)
theory Topology
  imports Policy Commit_Log
begin

text \<open>
  The processing topology (\<open>cilium-mini-rs/src/topology.rs\<close>): three concurrent tasks joined by two
  bounded channels. The loop bodies of the tasks are functions (\<open>ebpf_reader_step\<close>,
  \<open>dns_parser_step\<close> and, in \<open>Commit_Log\<close>, \<open>file_writer_step\<close>); their interleaving, the kernel
  filling the ring, receiving and closing are the rules of the step relation \<open>step\<close>. A receive and
  the end of its loop body are separate steps, since the received slot is borrowed in between.

  The channels (\<open>thingbuf\<close>) are parameters: a record of operations over a channel state, whose
  documented behaviour \<open>channel_ok\<close> states through the queue a channel holds. A slot handed out by
  \<open>try_send_ref\<close> holds whatever an earlier message left in it.
\<close>

section \<open>Channels\<close>

datatype 'a send_ref = Slot 'a | SendClosed | SendFull
datatype 'a recv_result = Item 'a | Pending | RecvNone

record ('c, 'a) channel =
  try_send_ref :: "'c \<Rightarrow> 'a send_ref"
  fill_slot :: "'a \<Rightarrow> 'c \<Rightarrow> 'c"
  recv_ref :: "'c \<Rightarrow> 'a recv_result"
  release :: "'c \<Rightarrow> 'c"
  close_tx :: "'c \<Rightarrow> 'c"
  close_rx :: "'c \<Rightarrow> 'c"

record 'a chan_view =
  queue :: "'a list"
  tx_closed :: bool
  rx_closed :: bool

definition CHANNEL_CAPACITY :: nat where
  "CHANNEL_CAPACITY = 1000"

definition send_ok :: "nat \<Rightarrow> 'a chan_view \<Rightarrow> 'a send_ref \<Rightarrow> bool" where
  "send_ok cap v r = (case r of
     SendClosed \<Rightarrow> rx_closed v
   | SendFull \<Rightarrow> \<not> rx_closed v \<and> cap \<le> length (queue v)
   | Slot _ \<Rightarrow> \<not> rx_closed v \<and> length (queue v) < cap)"

definition recv_ok :: "'a chan_view \<Rightarrow> 'a recv_result \<Rightarrow> bool" where
  "recv_ok v r = (case r of
     Item x \<Rightarrow> queue v \<noteq> [] \<and> hd (queue v) = x
   | Pending \<Rightarrow> queue v = [] \<and> \<not> tx_closed v
   | RecvNone \<Rightarrow> queue v = [] \<and> tx_closed v)"

definition channel_ok :: "('c, 'a) channel \<Rightarrow> nat \<Rightarrow> ('c \<Rightarrow> 'a chan_view) \<Rightarrow> bool" where
  "channel_ok ops cap view \<longleftrightarrow>
     (\<forall>c. send_ok cap (view c) (try_send_ref ops c) \<and> recv_ok (view c) (recv_ref ops c)
        \<and> (\<forall>old v. try_send_ref ops c = Slot old \<longrightarrow>
             view (fill_slot ops v c) = (view c)\<lparr>queue := queue (view c) @ [v]\<rparr>)
        \<and> view (release ops c) = (view c)\<lparr>queue := tl (queue (view c))\<rparr>
        \<and> view (close_tx ops c) = (view c)\<lparr>tx_closed := True\<rparr>
        \<and> view (close_rx ops c) = (view c)\<lparr>rx_closed := True\<rparr>)"

section \<open>The loop bodies\<close>

datatype task = Starting | Running | Returned | Panicked

definition ebpf_reader_step :: "('c, RawDnsEvent) channel \<Rightarrow> bytes \<Rightarrow> 'c \<Rightarrow> task \<times> 'c" where
  "ebpf_reader_step ops item c =
     (if length item \<noteq> size_of RawDnsEvent_layout then (Running, c)
      else case try_send_ref ops c of
          Slot _ \<Rightarrow> (Running, fill_slot ops (event_of_bytes item) c)
        | SendClosed \<Rightarrow> (Returned, c)
        | SendFull \<Rightarrow> (Running, c))"

text \<open>\<open>std::mem::swap\<close> leaves the slot's old contents in the local response.\<close>

definition dns_parser_step ::
  "(DnsResponse \<Rightarrow> ('o, 'e, unit) prog) \<Rightarrow> ('d, DnsResponse) channel \<Rightarrow> RawDnsEvent \<Rightarrow>
     DnsResponse \<times> 'o \<times> 'd \<Rightarrow> task \<times> DnsResponse \<times> 'o \<times> 'd" where
  "dns_parser_step upd ops raw_dns_event = (\<lambda>(local_dns_response, dns_obs, dns_tx).
     case parse_dns_into raw_dns_event local_dns_response of
       (Panic, resp) \<Rightarrow> (Panicked, resp, dns_obs, dns_tx)
     | (Err e, resp) \<Rightarrow> (Running, resp, dns_obs, dns_tx)
     | (Ok _, resp) \<Rightarrow>
         (case upd resp dns_obs of
            (Panic, obs') \<Rightarrow> (Panicked, resp, obs', dns_tx)
          | (_, obs') \<Rightarrow>
              (case try_send_ref ops dns_tx of
                 Slot old \<Rightarrow> (Running, old, obs', fill_slot ops resp dns_tx)
               | SendClosed \<Rightarrow> (Returned, resp, obs', dns_tx)
               | SendFull \<Rightarrow> (Running, resp, obs', dns_tx))))"

section \<open>The system\<close>

record ('c, 'd, 'o, 'w) topology =
  ring :: "bytes list"
  raw_chan :: 'c
  dns_chan :: 'd
  reader_task :: task
  parser_task :: task
  parser_current :: "RawDnsEvent option"
  local_response :: DnsResponse
  observer :: 'o
  writer_task :: task
  writer_current :: "DnsResponse option"
  proto_buffer :: bytes
  log_writer :: "'w BufWriter"

record ('c, 'd, 'o, 'e, 'w) world =
  raw_ops :: "('c, RawDnsEvent) channel"
  dns_ops :: "('d, DnsResponse) channel"
  obs_update :: "DnsResponse \<Rightarrow> ('o, 'e, unit) prog"
  open_log :: bool
  log_write :: "'w os_write"
  log_encode :: encoder

datatype topology_error = ContextErr string string

text \<open>The conversions of the kernel map may fail; then no task is started.\<close>

definition assembly_processing_topology ::
  "('map \<Rightarrow> string + 'rb) \<Rightarrow> ('rb \<Rightarrow> string + bytes list) \<Rightarrow> (nat \<Rightarrow> 'c) \<Rightarrow> (nat \<Rightarrow> 'd) \<Rightarrow> 'w \<Rightarrow> 'map \<Rightarrow> 'o \<Rightarrow>
     topology_error + ('c, 'd, 'o, 'w) topology" where
  "assembly_processing_topology ring_buf_try_from async_fd_new raw_channel dns_channel file ebpf_map dns_obs =
     (case ring_buf_try_from ebpf_map of
        Inl e \<Rightarrow> Inl (ContextErr ''failed to convert map to RingBuf'' e)
      | Inr ring_buf \<Rightarrow>
          (case async_fd_new ring_buf of
             Inl e \<Rightarrow> Inl (ContextErr ''failed to create AsyncFd'' e)
           | Inr items \<Rightarrow>
               Inr \<lparr>ring = items, raw_chan = raw_channel CHANNEL_CAPACITY, dns_chan = dns_channel CHANNEL_CAPACITY,
                 reader_task = Running, parser_task = Running, parser_current = None,
                 local_response = default_DnsResponse, observer = dns_obs,
                 writer_task = Starting, writer_current = None, proto_buffer = [],
                 log_writer = with_capacity LOG_CAPACITY file\<rparr>))"

text \<open>What an observer of a run sees: items the kernel submits, items and responses that are
  dropped, responses handed to the policy, responses taken by the writer.\<close>

datatype label = Kernel bytes | DropRaw bytes | Observed DnsResponse | DropDns DnsResponse | Logged DnsResponse

definition reader_labels :: "('c, RawDnsEvent) channel \<Rightarrow> bytes \<Rightarrow> 'c \<Rightarrow> label list" where
  "reader_labels ops item c =
     (if length item \<noteq> size_of RawDnsEvent_layout then []
      else case try_send_ref ops c of Slot _ \<Rightarrow> [] | _ \<Rightarrow> [DropRaw item])"

definition parser_labels ::
  "(DnsResponse \<Rightarrow> ('o, 'e, unit) prog) \<Rightarrow> ('d, DnsResponse) channel \<Rightarrow> RawDnsEvent \<Rightarrow>
     DnsResponse \<times> 'o \<times> 'd \<Rightarrow> label list" where
  "parser_labels upd ops ev = (\<lambda>(loc, obs, dns_tx).
     case parse_dns_into ev loc of
       (Ok _, resp) \<Rightarrow> Observed resp #
         (case (fst (upd resp obs), try_send_ref ops dns_tx) of
            (Panic, _) \<Rightarrow> [DropDns resp] | (_, Slot _) \<Rightarrow> [] | _ \<Rightarrow> [DropDns resp])
     | _ \<Rightarrow> [])"

inductive step ::
  "('c, 'd, 'o, 'e, 'w) world \<Rightarrow> ('c, 'd, 'o, 'w) topology \<Rightarrow> label list \<Rightarrow> ('c, 'd, 'o, 'w) topology \<Rightarrow> bool"
  for W where
  kernel_submit:
    "step W s [Kernel item] (s\<lparr>ring := ring s @ [item]\<rparr>)"
| reader_item:
    "reader_task s = Running \<Longrightarrow> ring s = item # rest \<Longrightarrow>
     ebpf_reader_step (raw_ops W) item (raw_chan s) = (st, c) \<Longrightarrow>
     step W s (reader_labels (raw_ops W) item (raw_chan s))
       (s\<lparr>ring := rest, reader_task := st,
          raw_chan := (if st = Running then c else close_tx (raw_ops W) c)\<rparr>)"
| parser_recv:
    "parser_task s = Running \<Longrightarrow> parser_current s = None \<Longrightarrow>
     recv_ref (raw_ops W) (raw_chan s) = Item ev \<Longrightarrow>
     step W s [] (s\<lparr>parser_current := Some ev\<rparr>)"
| parser_event:
    "parser_current s = Some ev \<Longrightarrow>
     dns_parser_step (obs_update W) (dns_ops W) ev (local_response s, observer s, dns_chan s) = (st, resp, obs, d) \<Longrightarrow>
     step W s (parser_labels (obs_update W) (dns_ops W) ev (local_response s, observer s, dns_chan s))
       (s\<lparr>parser_current := None, parser_task := st, local_response := resp, observer := obs,
          raw_chan := (if st = Running then release (raw_ops W) (raw_chan s)
             else close_rx (raw_ops W) (release (raw_ops W) (raw_chan s))),
          dns_chan := (if st = Running then d else close_tx (dns_ops W) d)\<rparr>)"
| parser_end:
    "parser_task s = Running \<Longrightarrow> parser_current s = None \<Longrightarrow>
     recv_ref (raw_ops W) (raw_chan s) = RecvNone \<Longrightarrow>
     step W s [] (s\<lparr>parser_task := Returned, raw_chan := close_rx (raw_ops W) (raw_chan s),
       dns_chan := close_tx (dns_ops W) (dns_chan s)\<rparr>)"
| writer_open:
    "writer_task s = Starting \<Longrightarrow>
     step W s [] (s\<lparr>writer_task := (if open_log W then Running else Panicked),
       dns_chan := (if open_log W then dns_chan s else close_rx (dns_ops W) (dns_chan s))\<rparr>)"
| writer_recv:
    "writer_task s = Running \<Longrightarrow> writer_current s = None \<Longrightarrow>
     recv_ref (dns_ops W) (dns_chan s) = Item r \<Longrightarrow>
     step W s [] (s\<lparr>writer_current := Some r\<rparr>)"
| writer_event:
    "writer_current s = Some r \<Longrightarrow>
     file_writer_step (log_write W) (log_encode W) r (proto_buffer s, log_writer s) = Some (buf, bw) \<Longrightarrow>
     step W s [Logged r] (s\<lparr>writer_current := None, proto_buffer := buf, log_writer := bw,
       dns_chan := release (dns_ops W) (dns_chan s)\<rparr>)"
| writer_end:
    "writer_task s = Running \<Longrightarrow> writer_current s = None \<Longrightarrow>
     recv_ref (dns_ops W) (dns_chan s) = RecvNone \<Longrightarrow>
     file_writer_finish (log_write W) (log_writer s) = Some file \<Longrightarrow>
     step W s [] (s\<lparr>writer_task := Returned, dns_chan := close_rx (dns_ops W) (dns_chan s),
       log_writer := (log_writer s)\<lparr>bw_buf := [], bw_inner := file\<rparr>\<rparr>)"

inductive_cases step_elim: "step W s l t"

inductive runs ::
  "('c, 'd, 'o, 'e, 'w) world \<Rightarrow> ('c, 'd, 'o, 'w) topology \<Rightarrow> label list \<Rightarrow> ('c, 'd, 'o, 'w) topology \<Rightarrow> bool"
  for W s0 where
  runs_start: "runs W s0 [] s0"
| runs_step: "runs W s0 tr s \<Longrightarrow> step W s l t \<Longrightarrow> runs W s0 (tr @ l) t"

end
