(* ===== verification/Pipeline.thy ===== *)
theory Pipeline
  imports Topology
begin

text \<open>
  Properties of the running topology, over every interleaving of its tasks. \<open>flow_inv\<close> says that
  what is logged, queued or still in the ring is, in order, what the submitted items parse to, less
  what was dropped; \<open>task_inv\<close> ties the ends of the tasks to the closing of the channels. Both are
  invariants of \<open>runs\<close>, proved rule by rule. The parser never panics and no task ends, for any
  observer that keeps the contract of \<open>dns_observer\<close>; the properties use it for the FQDN engine.
\<close>

section \<open>Traces\<close>

definition submitted :: "label list \<Rightarrow> bytes list" where
  "submitted tr = List.map_filter (\<lambda>l. case l of Kernel i \<Rightarrow> Some i | _ \<Rightarrow> None) tr"

definition observed :: "label list \<Rightarrow> DnsResponse list" where
  "observed tr = List.map_filter (\<lambda>l. case l of Observed r \<Rightarrow> Some r | _ \<Rightarrow> None) tr"

definition logged :: "label list \<Rightarrow> DnsResponse list" where
  "logged tr = List.map_filter (\<lambda>l. case l of Logged r \<Rightarrow> Some r | _ \<Rightarrow> None) tr"

definition no_drops :: "label list \<Rightarrow> bool" where
  "no_drops tr = list_all (\<lambda>l. case l of DropRaw _ \<Rightarrow> False | DropDns _ \<Rightarrow> False | _ \<Rightarrow> True) tr"

text \<open>The response an item stands for, if it is an event and parses.\<close>

definition event_response :: "RawDnsEvent \<Rightarrow> DnsResponse option" where
  "event_response ev = (case parse_dns_into ev default_DnsResponse of (Ok _, r) \<Rightarrow> Some r | _ \<Rightarrow> None)"

definition item_response :: "bytes \<Rightarrow> DnsResponse option" where
  "item_response item = (if length item = 576 then event_response (event_of_bytes item) else None)"

definition responses :: "bytes list \<Rightarrow> DnsResponse list" where
  "responses items = List.map_filter item_response items"

definition event_responses :: "RawDnsEvent list \<Rightarrow> DnsResponse list" where
  "event_responses evs = List.map_filter event_response evs"

text \<open>In order and without inventions; and complete if nothing was dropped.\<close>

definition in_order :: "label list \<Rightarrow> 'a list \<Rightarrow> 'a list \<Rightarrow> bool" where
  "in_order tr xs ys \<longleftrightarrow> subseq xs ys \<and> (no_drops tr \<longrightarrow> xs = ys)"

lemma map_filter_append [simp]:
  "List.map_filter f (xs @ ys) = List.map_filter f xs @ List.map_filter f ys"
  by (induction xs) (auto simp: map_filter_simps split: option.splits)

lemmas trace_defs = submitted_def observed_def logged_def no_drops_def responses_def event_responses_def

lemma trace_append [simp]:
  "submitted (tr @ l) = submitted tr @ submitted l" "observed (tr @ l) = observed tr @ observed l"
  "logged (tr @ l) = logged tr @ logged l" "no_drops (tr @ l) \<longleftrightarrow> no_drops tr \<and> no_drops l"
  "responses (xs @ ys) = responses xs @ responses ys"
  "event_responses (us @ vs) = event_responses us @ event_responses vs"
  by (simp_all add: trace_defs)

lemma trace_simps [simp]:
  "submitted [] = []" "observed [] = []" "logged [] = []" "no_drops []"
  "submitted (Kernel i # tr) = i # submitted tr" "observed (Kernel i # tr) = observed tr"
  "logged (Kernel i # tr) = logged tr" "no_drops (Kernel i # tr) = no_drops tr"
  "submitted (DropRaw i # tr) = submitted tr" "observed (DropRaw i # tr) = observed tr"
  "logged (DropRaw i # tr) = logged tr" "\<not> no_drops (DropRaw i # tr)"
  "submitted (Observed r # tr) = submitted tr" "observed (Observed r # tr) = r # observed tr"
  "logged (Observed r # tr) = logged tr" "no_drops (Observed r # tr) = no_drops tr"
  "submitted (DropDns r # tr) = submitted tr" "observed (DropDns r # tr) = observed tr"
  "logged (DropDns r # tr) = logged tr" "\<not> no_drops (DropDns r # tr)"
  "submitted (Logged r # tr) = submitted tr" "observed (Logged r # tr) = observed tr"
  "logged (Logged r # tr) = r # logged tr" "no_drops (Logged r # tr) = no_drops tr"
  by (simp_all add: trace_defs map_filter_simps)

lemma responses_simps [simp]:
  "responses [] = []" "event_responses [] = []"
  "responses (i # is) = (case item_response i of None \<Rightarrow> [] | Some r \<Rightarrow> [r]) @ responses is"
  "event_responses (e # es) = (case event_response e of None \<Rightarrow> [] | Some r \<Rightarrow> [r]) @ event_responses es"
  by (simp_all add: trace_defs map_filter_simps split: option.splits)

lemma in_order_refl [simp]: "in_order tr xs xs"
  by (simp add: in_order_def)

lemma in_order_grow: "in_order tr xs ys \<Longrightarrow> in_order (tr @ l) (xs @ zs) (ys @ zs)"
  by (simp add: in_order_def)

lemma in_order_more: "in_order tr xs ys \<Longrightarrow> in_order (tr @ l) xs ys"
  by (simp add: in_order_def)

lemma in_order_front: "in_order tr (xs @ zs) ys \<Longrightarrow> subseq xs ys"
  by (meson in_order_def subseq_order.refl subseq_order.trans subseq_rev_drop_many)

lemma in_order_drop:
  assumes "in_order tr (xs @ ds @ zs) ys" and "ds = [] \<or> \<not> no_drops l"
  shows "in_order (tr @ l) (xs @ zs) ys"
proof -
  have "subseq (xs @ zs) (xs @ ds @ zs)" by (simp add: subseq_append' subseq_drop_many)
  with assms show ?thesis
    by (auto simp: in_order_def dest: subseq_order.trans)
qed

section \<open>Channels and loop bodies\<close>

lemma channel_okD:
  assumes "channel_ok ops cap view"
  shows "send_ok cap (view c) (try_send_ref ops c)" and "recv_ok (view c) (recv_ref ops c)"
    and "try_send_ref ops c = Slot old \<Longrightarrow> view (fill_slot ops v c) = (view c)\<lparr>queue := queue (view c) @ [v]\<rparr>"
    and "view (release ops c) = (view c)\<lparr>queue := tl (queue (view c))\<rparr>"
    and "view (close_tx ops c) = (view c)\<lparr>tx_closed := True\<rparr>"
    and "view (close_rx ops c) = (view c)\<lparr>rx_closed := True\<rparr>"
  using assms unfolding channel_ok_def by blast+

lemma parse_fresh: "parse_dns_into ev loc = parse_dns_into ev default_DnsResponse"
  by (simp add: parse_dns_into_def reset_slot_default)

lemma reader_step_cases:
  assumes "ebpf_reader_step ops item c = (st, c')"
  obtains (skip) "length item \<noteq> 576" "st = Running" "c' = c" "reader_labels ops item c = []"
  | (sent) old where "length item = 576" "try_send_ref ops c = Slot old" "st = Running"
      "c' = fill_slot ops (event_of_bytes item) c" "reader_labels ops item c = []"
  | (full) "length item = 576" "try_send_ref ops c = SendFull" "st = Running" "c' = c"
      "reader_labels ops item c = [DropRaw item]"
  | (closed) "length item = 576" "try_send_ref ops c = SendClosed" "st = Returned" "c' = c"
      "reader_labels ops item c = [DropRaw item]"
  using assms
  by (cases "try_send_ref ops c"; cases "length item = 576")
    (auto simp: ebpf_reader_step_def reader_labels_def size_RawDnsEvent)

lemma parser_step_cases:
  assumes "dns_parser_step upd ops ev (loc, obs, d) = (st, resp, obs', d')"
  obtains (skip) "event_response ev = None" "d' = d" "obs' = obs" "parser_labels upd ops ev (loc, obs, d) = []"
      "st = (if fst (parse_dns_into ev default_DnsResponse) = Panic then Panicked else Running)"
  | (sent) r old where "event_response ev = Some r" "try_send_ref ops d = Slot old" "d' = fill_slot ops r d"
      "obs' = snd (upd r obs)" "parser_labels upd ops ev (loc, obs, d) = [Observed r]"
      "st = Running" "fst (upd r obs) \<noteq> Panic"
  | (lost) r where "event_response ev = Some r" "d' = d" "obs' = snd (upd r obs)"
      "parser_labels upd ops ev (loc, obs, d) = [Observed r, DropDns r]"
      "st = (if fst (upd r obs) = Panic then Panicked else if try_send_ref ops d = SendClosed then Returned else Running)"
      "fst (upd r obs) = Panic \<or> (\<forall>old. try_send_ref ops d \<noteq> Slot old)"
proof -
  obtain out r where "parse_dns_into ev default_DnsResponse = (out, r)" by fastforce
  then have p: "parse_dns_into ev loc = (out, r)" "parse_dns_into ev default_DnsResponse = (out, r)"
    by (simp_all add: parse_fresh [of ev loc])
  obtain res o1 where u: "upd r obs = (res, o1)" by fastforce
  note run = assms [unfolded dns_parser_step_def, simplified p u prod.case]
  show ?thesis
  proof (cases "\<exists>x. out = Ok x")
    case False
    then show ?thesis
      using run p by (intro skip) (cases out; simp add: event_response_def parser_labels_def)+
  next
    case True
    then obtain x where out: "out = Ok x" by blast
    then have er: "event_response ev = Some r" using p by (simp add: event_response_def)
    show ?thesis
    proof (cases "res = Panic \<or> (\<forall>old. try_send_ref ops d \<noteq> Slot old)")
      case True
      have "d' = d" "obs' = snd (upd r obs)" "parser_labels upd ops ev (loc, obs, d) = [Observed r, DropDns r]"
        "st = (if fst (upd r obs) = Panic then Panicked
           else if try_send_ref ops d = SendClosed then Returned else Running)"
        "fst (upd r obs) = Panic \<or> (\<forall>old. try_send_ref ops d \<noteq> Slot old)"
        using run True out u p
        by (cases res; cases "try_send_ref ops d"; simp add: parser_labels_def)+
      with er show ?thesis by (rule lost)
    next
      case False
      then obtain old where s: "try_send_ref ops d = Slot old" and np: "res \<noteq> Panic" by blast
      have "d' = fill_slot ops r d" "obs' = snd (upd r obs)" "parser_labels upd ops ev (loc, obs, d) = [Observed r]"
        "st = Running" "fst (upd r obs) \<noteq> Panic"
        using run s np out u p by (cases res; simp add: parser_labels_def)+
      with er s show ?thesis by (rule sent)
    qed
  qed
qed

section \<open>Invariants\<close>

text \<open>A borrowed slot is the head of its queue; a task that has ended has closed its ends of the
  channels, and only then are they closed; the queues respect the capacity.\<close>

definition task_inv :: "('c \<Rightarrow> RawDnsEvent chan_view) \<Rightarrow> ('d \<Rightarrow> DnsResponse chan_view) \<Rightarrow>
    ('c, 'd, 'o, 'w) topology \<Rightarrow> bool" where
  "task_inv v1 v2 s \<longleftrightarrow>
     (case parser_current s of None \<Rightarrow> True
      | Some ev \<Rightarrow> parser_task s = Running \<and> queue (v1 (raw_chan s)) \<noteq> [] \<and> hd (queue (v1 (raw_chan s))) = ev)
     \<and> (case writer_current s of None \<Rightarrow> True
      | Some r \<Rightarrow> writer_task s = Running \<and> queue (v2 (dns_chan s)) \<noteq> [] \<and> hd (queue (v2 (dns_chan s))) = r)
     \<and> (tx_closed (v1 (raw_chan s)) \<longleftrightarrow> reader_task s \<noteq> Running)
     \<and> (rx_closed (v1 (raw_chan s)) \<longleftrightarrow> parser_task s \<noteq> Running)
     \<and> (tx_closed (v2 (dns_chan s)) \<longleftrightarrow> parser_task s \<noteq> Running)
     \<and> (rx_closed (v2 (dns_chan s)) \<longleftrightarrow> writer_task s = Returned \<or> writer_task s = Panicked)
     \<and> length (queue (v1 (raw_chan s))) \<le> CHANNEL_CAPACITY
     \<and> length (queue (v2 (dns_chan s))) \<le> CHANNEL_CAPACITY"

definition flow_inv :: "('c, 'd, 'o, 'e, 'w) world \<Rightarrow> ('c \<Rightarrow> RawDnsEvent chan_view) \<Rightarrow> ('d \<Rightarrow> DnsResponse chan_view) \<Rightarrow>
    ('c, 'd, 'o, 'w) topology \<Rightarrow> label list \<Rightarrow> ('c, 'd, 'o, 'w) topology \<Rightarrow> bool" where
  "flow_inv W v1 v2 s0 tr s \<longleftrightarrow>
     in_order tr (logged tr @ queue (v2 (dns_chan s)) @ event_responses (queue (v1 (raw_chan s))) @ responses (ring s))
       (responses (ring s0 @ submitted tr))
     \<and> in_order tr (observed tr @ event_responses (queue (v1 (raw_chan s))) @ responses (ring s))
       (responses (ring s0 @ submitted tr))
     \<and> observer s = fold (\<lambda>r obs. snd (obs_update W r obs)) (observed tr) (observer s0)"

text \<open>The state the topology starts in.\<close>

definition empty_view :: "'a chan_view" where
  "empty_view = \<lparr>queue = [], tx_closed = False, rx_closed = False\<rparr>"

definition started :: "('c \<Rightarrow> RawDnsEvent chan_view) \<Rightarrow> ('d \<Rightarrow> DnsResponse chan_view) \<Rightarrow>
    ('c, 'd, 'o, 'w) topology \<Rightarrow> bool" where
  "started v1 v2 s \<longleftrightarrow> v1 (raw_chan s) = empty_view \<and> v2 (dns_chan s) = empty_view
     \<and> reader_task s = Running \<and> parser_task s = Running \<and> writer_task s = Starting
     \<and> parser_current s = None \<and> writer_current s = None"

lemma assembly_started:
  assumes "assembly_processing_topology conv mkfd raw_channel dns_channel file ebpf_map obs = Inr s0"
    and "v1 (raw_channel CHANNEL_CAPACITY) = empty_view" and "v2 (dns_channel CHANNEL_CAPACITY) = empty_view"
  shows "started v1 v2 s0"
  using assms by (auto simp: assembly_processing_topology_def started_def split: sum.splits)

lemma assembly_initial:
  assumes "assembly_processing_topology conv mkfd raw_channel dns_channel file ebpf_map obs = Inr s0"
  shows "observer s0 = obs" and "log_writer s0 = with_capacity LOG_CAPACITY file"
  using assms by (auto simp: assembly_processing_topology_def split: sum.splits)

lemma started_inv:
  assumes "started v1 v2 s0"
  shows "task_inv v1 v2 s0" and "flow_inv W v1 v2 s0 [] s0"
  using assms by (simp_all add: started_def task_inv_def flow_inv_def empty_view_def)

lemma send_slot_less: "send_ok cap v (Slot old) \<Longrightarrow> length (queue v) < cap"
  by (simp add: send_ok_def)

lemma tl_append_hd: "q \<noteq> [] \<Longrightarrow> hd q = x \<Longrightarrow> q = x # tl q"
  by auto

lemma task_inv_step:
  assumes c1: "channel_ok (raw_ops W) CHANNEL_CAPACITY v1" and c2: "channel_ok (dns_ops W) CHANNEL_CAPACITY v2"
    and "task_inv v1 v2 s" and "step W s l t"
  shows "task_inv v1 v2 t"
  using assms(4)
proof cases
  case (reader_item item rest st c)
  have so: "send_ok CHANNEL_CAPACITY (v1 (raw_chan s)) (try_send_ref (raw_ops W) (raw_chan s))"
    by (rule channel_okD(1) [OF c1])
  from reader_item(5) show ?thesis
    by (cases rule: reader_step_cases)
      (use reader_item assms(3) so in \<open>auto simp: task_inv_def channel_okD(3-) [OF c1] send_ok_def split: option.splits\<close>)
next
  case (parser_event ev st resp obs d)
  have so: "send_ok CHANNEL_CAPACITY (v2 (dns_chan s)) (try_send_ref (dns_ops W) (dns_chan s))"
    by (rule channel_okD(1) [OF c2])
  from parser_event(4) show ?thesis
    by (cases rule: parser_step_cases)
      (use parser_event assms(3) so in \<open>auto simp: task_inv_def channel_okD(4-) [OF c1] channel_okD(3-) [OF c2] send_ok_def
        split: option.splits if_splits\<close>)
next
  case (parser_recv ev)
  with assms(3) channel_okD(2) [OF c1, of "raw_chan s"] show ?thesis
    by (auto simp: task_inv_def recv_ok_def split: option.splits)
next
  case (writer_recv r)
  with assms(3) channel_okD(2) [OF c2, of "dns_chan s"] show ?thesis
    by (auto simp: task_inv_def recv_ok_def split: option.splits)
qed (use assms(3) in \<open>auto simp: task_inv_def channel_okD(4-) [OF c1] channel_okD(4-) [OF c2] split: option.splits\<close>)

lemma flow_inv_step:
  assumes c1: "channel_ok (raw_ops W) CHANNEL_CAPACITY v1" and c2: "channel_ok (dns_ops W) CHANNEL_CAPACITY v2"
    and ti: "task_inv v1 v2 s" and "flow_inv W v1 v2 s0 tr s" and "step W s l t"
  shows "flow_inv W v1 v2 s0 (tr @ l) t"
proof -
  let ?Q1 = "event_responses (queue (v1 (raw_chan s)))" and ?Q2 = "queue (v2 (dns_chan s))"
  let ?I = "responses (ring s0 @ submitted tr)"
  have log: "in_order tr ((logged tr @ ?Q2 @ ?Q1) @ responses (ring s)) ?I"
    and obs: "in_order tr ((observed tr @ ?Q1) @ responses (ring s)) ?I"
    and st: "observer s = fold (\<lambda>r obs. snd (obs_update W r obs)) (observed tr) (observer s0)"
    using assms(4) by (simp_all add: flow_inv_def)
  note closes = channel_okD(4-) [OF c1] channel_okD(4-) [OF c2]
  from assms(5) show ?thesis
  proof cases
    case (kernel_submit item)
    then show ?thesis
      using in_order_grow [OF log, of l "responses [item]"] in_order_grow [OF obs, of l "responses [item]"] st
      by (simp add: flow_inv_def)
  next
    case (reader_item item rest st1 c)
    from reader_item(5) show ?thesis
    proof (cases rule: reader_step_cases)
      case skip
      then show ?thesis using reader_item in_order_more [OF log, of l] in_order_more [OF obs, of l] st
        by (simp add: flow_inv_def item_response_def)
    next
      case (sent old)
      then show ?thesis using reader_item in_order_more [OF log, of l] in_order_more [OF obs, of l] st
        by (simp add: flow_inv_def item_response_def channel_okD(3) [OF c1])
    next
      case full
      with reader_item in_order_drop [of tr "logged tr @ ?Q2 @ ?Q1" "responses [item]" "responses rest" ?I l]
        in_order_drop [of tr "observed tr @ ?Q1" "responses [item]" "responses rest" ?I l] log obs st
      show ?thesis by (simp add: flow_inv_def)
    next
      case closed
      with reader_item in_order_drop [of tr "logged tr @ ?Q2 @ ?Q1" "responses [item]" "responses rest" ?I l]
        in_order_drop [of tr "observed tr @ ?Q1" "responses [item]" "responses rest" ?I l] log obs st
      show ?thesis by (simp add: flow_inv_def closes)
    qed
  next
    case (parser_event ev st1 resp obs1 d)
    let ?tl = "event_responses (tl (queue (v1 (raw_chan s))))"
    from ti parser_event(3) have "queue (v1 (raw_chan s)) = ev # tl (queue (v1 (raw_chan s)))"
      by (simp add: task_inv_def tl_append_hd)
    then have q1: "?Q1 = (case event_response ev of None \<Rightarrow> [] | Some r \<Rightarrow> [r]) @ ?tl"
      by (metis responses_simps(4))
    from parser_event(4) show ?thesis
    proof (cases rule: parser_step_cases)
      case skip
      then show ?thesis
        using parser_event q1 in_order_more [OF log, of l] in_order_more [OF obs, of l] st
        by (simp add: flow_inv_def closes)
    next
      case (sent r old)
      then show ?thesis
        using parser_event q1 in_order_more [OF log, of l] in_order_more [OF obs, of l] st
        by (simp add: flow_inv_def closes channel_okD(3) [OF c2])
    next
      case (lost r)
      with parser_event q1 in_order_drop [of tr "logged tr @ ?Q2" "[r]" "?tl @ responses (ring s)" ?I l] log
        in_order_more [OF obs, of l] st
      show ?thesis by (simp add: flow_inv_def closes)
    qed
  next
    case (writer_event r buf bw)
    from ti writer_event(3) obtain q where "?Q2 = r # q" by (cases ?Q2) (auto simp: task_inv_def)
    then show ?thesis
      using writer_event in_order_more [OF log, of l] in_order_more [OF obs, of l] st
      by (simp add: flow_inv_def closes)
  qed (use in_order_more [OF log, of l] in_order_more [OF obs, of l] st in \<open>simp_all add: flow_inv_def closes\<close>)
qed

text \<open>The observer's state between any two moments of a run.\<close>

lemma labels_observed:
  "observed (reader_labels ops item c) = []"
  by (auto simp: reader_labels_def split: send_ref.splits)

lemma observer_runs:
  assumes "runs W s tr t"
  shows "observer t = fold (\<lambda>r obs. snd (obs_update W r obs)) (observed tr) (observer s)"
  using assms
proof induction
  case (runs_step tr u l t)
  from runs_step(2) show ?case
  proof cases
    case (parser_event ev st resp obs d)
    from parser_event(4) show ?thesis
      by (cases rule: parser_step_cases) (use parser_event runs_step(3) in simp_all)
  qed (use runs_step(3) in \<open>simp_all add: labels_observed\<close>)
qed simp

lemma observed_step:
  assumes "step W s l t" and "Observed r \<in> set l"
  shows "observer t = snd (obs_update W r (observer s))"
  using assms(1)
proof cases
  case (parser_event ev st resp obs d)
  from parser_event(4) show ?thesis
    by (cases rule: parser_step_cases) (use parser_event assms(2) in auto)
qed (use assms(2) in \<open>auto simp: reader_labels_def split: if_splits send_ref.splits\<close>)

lemma runs_inv:
  assumes "channel_ok (raw_ops W) CHANNEL_CAPACITY v1" and "channel_ok (dns_ops W) CHANNEL_CAPACITY v2"
    and "started v1 v2 s0" and "runs W s0 tr s"
  shows "task_inv v1 v2 s \<and> flow_inv W v1 v2 s0 tr s"
  using assms(4)
proof induction
  case runs_start
  then show ?case using started_inv [OF assms(3)] by blast
next
  case (runs_step tr s l t)
  then show ?case using task_inv_step [OF assms(1,2)] flow_inv_step [OF assms(1,2)] by blast
qed

section \<open>The tasks stay alive\<close>

text \<open>What the kernel side submits: any bytes, but an item of the size of an event has a
  \<open>payload_len\<close> of at most 512.\<close>

definition item_ok :: "bytes \<Rightarrow> bool" where
  "item_ok item \<longleftrightarrow> (length item = 576 \<longrightarrow> unat (ev_payload_len (event_of_bytes item)) \<le> 512)"

definition event_ok :: "RawDnsEvent \<Rightarrow> bool" where
  "event_ok ev \<longleftrightarrow> wf_event ev \<and> unat (ev_payload_len ev) \<le> 512"

lemma item_event_ok: "item_ok item \<Longrightarrow> length item = 576 \<Longrightarrow> event_ok (event_of_bytes item)"
  by (simp add: item_ok_def event_ok_def raw_event.wf_of)

lemma event_ok_parse:
  assumes "event_ok ev"
  shows "fst (parse_dns_into ev slot) \<noteq> Panic" and "event_response ev = Some r \<Longrightarrow> parsed r"
proof -
  show "fst (parse_dns_into ev slot) \<noteq> Panic"
    using assms parse_dns_no_panic by (simp add: event_ok_def)
  assume "event_response ev = Some r"
  then have "parse_dns_into ev default_DnsResponse = (Ok (), r)"
    by (auto simp: event_response_def split: prod.splits outcome.splits)
  then show "parsed r"
    using assms by (auto simp: event_ok_def parsed_def elim: parse_dns_ok_run)
qed

definition alive :: "('o \<Rightarrow> bool) \<Rightarrow> ('c, 'd, 'o, 'e, 'w) world \<Rightarrow> ('c \<Rightarrow> RawDnsEvent chan_view) \<Rightarrow>
    ('c, 'd, 'o, 'w) topology \<Rightarrow> bool" where
  "alive keeps W v1 s \<longleftrightarrow>
     list_all item_ok (ring s) \<and> list_all event_ok (queue (v1 (raw_chan s))) \<and> keeps (observer s)
     \<and> parser_task s \<noteq> Panicked
     \<and> (open_log W \<longrightarrow> reader_task s = Running \<and> parser_task s = Running
          \<and> (writer_task s = Starting \<or> writer_task s = Running))"

lemma list_all_tl: "list_all P xs \<Longrightarrow> list_all P (tl xs)"
  by (cases xs) simp_all

context dns_observer
begin

lemma alive_step:
  assumes "obs_update W = upd"
    and c1: "channel_ok (raw_ops W) CHANNEL_CAPACITY v1" and c2: "channel_ok (dns_ops W) CHANNEL_CAPACITY v2"
    and ti: "task_inv v1 v2 s" and "alive inv W v1 s" and "step W s l t" and "list_all item_ok (submitted l)"
  shows "alive inv W v1 t"
  using assms(6)
proof cases
  case (kernel_submit item)
  then show ?thesis using assms(5,7) by (simp add: alive_def)
next
  case (reader_item item rest st c)
  have so: "send_ok CHANNEL_CAPACITY (v1 (raw_chan s)) (try_send_ref (raw_ops W) (raw_chan s))"
    by (rule channel_okD(1) [OF c1])
  from reader_item(5) show ?thesis
    by (cases rule: reader_step_cases)
      (use reader_item assms(5) ti so in \<open>auto simp: alive_def task_inv_def send_ok_def item_event_ok
        channel_okD(3-) [OF c1]\<close>)
next
  case (parser_event ev st resp obs d)
  have so: "send_ok CHANNEL_CAPACITY (v2 (dns_chan s)) (try_send_ref (dns_ops W) (dns_chan s))"
    by (rule channel_okD(1) [OF c2])
  have ev: "event_ok ev"
    using ti assms(5) parser_event(3) by (auto simp: task_inv_def alive_def list_all_iff)
  have tl: "list_all event_ok (tl (queue (v1 (raw_chan s))))"
    using assms(5) by (simp add: alive_def list_all_tl)
  have obs: "inv (observer s)" using assms(5) by (simp add: alive_def)
  from parser_event(4) show ?thesis
    by (cases rule: parser_step_cases)
      (use parser_event assms(1,5) ti so ev tl obs in \<open>auto simp: alive_def task_inv_def send_ok_def
        upd_inv upd_no_panic event_ok_parse channel_okD(4-) [OF c1]\<close>)
next
  case parser_end
  then show ?thesis
    using assms(5) ti channel_okD(2) [OF c1, of "raw_chan s"]
    by (auto simp: alive_def task_inv_def recv_ok_def channel_okD(4-) [OF c1])
next
  case (writer_end f)
  then show ?thesis
    using assms(5) ti channel_okD(2) [OF c2, of "dns_chan s"]
    by (auto simp: alive_def task_inv_def recv_ok_def)
qed (use assms(5) in \<open>auto simp: alive_def\<close>)

lemma alive_runs:
  assumes "obs_update W = upd"
    and c: "channel_ok (raw_ops W) CHANNEL_CAPACITY v1" "channel_ok (dns_ops W) CHANNEL_CAPACITY v2"
    and "started v1 v2 s0" and "inv (observer s0)" and "runs W s0 tr s"
    and "list_all item_ok (ring s0 @ submitted tr)"
  shows "alive inv W v1 s"
  using assms(6,7)
proof induction
  case runs_start
  then show ?case using assms(4,5) by (simp add: alive_def started_def empty_view_def)
next
  case (runs_step tr s l t)
  have ti: "task_inv v1 v2 s" using runs_inv [OF c assms(4) runs_step(1)] by blast
  have al: "alive inv W v1 s" and l: "list_all item_ok (submitted l)" using runs_step by simp_all
  show ?case by (rule alive_step [OF assms(1) c ti al runs_step(2) l])
qed

end

section \<open>The log of a run\<close>

definition log_inv :: "('w \<Rightarrow> bytes) \<Rightarrow> (DnsResponse \<Rightarrow> bytes) \<Rightarrow> bytes \<Rightarrow> label list \<Rightarrow>
    ('c, 'd, 'o, 'w) topology \<Rightarrow> bool" where
  "log_inv content msg old tr s \<longleftrightarrow> bw_ok LOG_CAPACITY (log_writer s)
     \<and> stream_of content (log_writer s) = old @ concat (map (frame \<circ> msg) (logged tr))"

lemma writer_end_stream:
  assumes "appends os content" and "progress os rank" and "bw_ok cap bw" and "file_writer_finish os bw = Some f"
  shows "bw_ok cap (bw\<lparr>bw_buf := [], bw_inner := f\<rparr>)
    \<and> stream_of content (bw\<lparr>bw_buf := [], bw_inner := f\<rparr>) = stream_of content bw"
  using finish_complete [OF assms(1-3)] assms(3,4) by (auto simp: bw_ok_def stream_of_def)

lemma labels_not_logged [simp]:
  "logged (reader_labels ops item c) = []" "logged (parser_labels upd ops2 ev x) = []"
  by (auto simp: reader_labels_def parser_labels_def split: send_ref.splits prod.splits outcome.splits)

lemma log_inv_runs:
  assumes "appends (log_write W) content" and "progress (log_write W) rank" and "encodes (log_encode W) msg"
    and "log_writer s0 = with_capacity LOG_CAPACITY f0" and "runs W s0 tr s"
  shows "log_inv content msg (content f0) tr s"
  using assms(5)
proof induction
  case runs_start
  then show ?case by (simp add: log_inv_def assms(4))
next
  case (runs_step tr s l t)
  note li = runs_step(3) [unfolded log_inv_def]
  from runs_step(2) show ?case
  proof cases
    case (writer_event r buf bw)
    obtain bw1 where run: "write_record (log_write W) (msg r) (log_writer s) = Some (True, bw1)"
      using write_record_complete [OF assms(1,2)] by blast
    from write_record_prefix [OF assms(1) _ run, of LOG_CAPACITY] li
    have "bw_ok LOG_CAPACITY bw1" "stream_of content bw1 = stream_of content (log_writer s) @ frame (msg r)" by auto
    then show ?thesis using writer_event run li by (simp add: log_inv_def step_encodes [OF assms(3)])
  next
    case (writer_end f)
    then show ?thesis using li writer_end_stream [OF assms(1,2), of LOG_CAPACITY "log_writer s" f]
      by (simp add: log_inv_def)
  qed (use li in \<open>simp_all add: log_inv_def\<close>)
qed

definition buffered_only :: "'w \<Rightarrow> (DnsResponse \<Rightarrow> bytes) \<Rightarrow> label list \<Rightarrow> ('c, 'd, 'o, 'w) topology \<Rightarrow> bool" where
  "buffered_only f msg tr s \<longleftrightarrow>
     (log_size (map msg (logged tr)) < LOG_CAPACITY \<and> writer_task s \<noteq> Returned \<longrightarrow>
        log_writer s = \<lparr>bw_buf = concat (map (frame \<circ> msg) (logged tr)), bw_capacity = LOG_CAPACITY, bw_inner = f\<rparr>)"

lemma buffered_only_runs:
  assumes "encodes (log_encode W) msg" and "log_writer s0 = with_capacity LOG_CAPACITY f"
    and "channel_ok (raw_ops W) CHANNEL_CAPACITY v1" and "channel_ok (dns_ops W) CHANNEL_CAPACITY v2"
    and "started v1 v2 s0" and "runs W s0 tr s"
  shows "buffered_only f msg tr s"
  using assms(6)
proof induction
  case runs_start
  then show ?case using assms(2) by (simp add: buffered_only_def with_capacity_def)
next
  case (runs_step tr s l t)
  have ti: "task_inv v1 v2 s" using runs_inv [OF assms(3-5) runs_step(1)] by blast
  from runs_step(2) show ?case
  proof cases
    case (writer_event r buf bw)
    have run: "writer_task s = Running" using ti writer_event(3) by (simp add: task_inv_def)
    show ?thesis
      unfolding buffered_only_def
    proof
      assume "log_size (map msg (logged (tr @ l))) < LOG_CAPACITY \<and> writer_task t \<noteq> Returned"
      then have size: "log_size (map msg (logged tr)) + 4 + length (msg r) < LOG_CAPACITY"
        using writer_event(1) by simp
      then have lw: "log_writer s = \<lparr>bw_buf = concat (map (frame \<circ> msg) (logged tr)), bw_capacity = LOG_CAPACITY, bw_inner = f\<rparr>"
        using runs_step(3) run by (simp add: buffered_only_def)
      have "4 + length (msg r) < spare_capacity (log_writer s)"
        using size by (simp add: lw spare_capacity_def length_frames)
      from write_record_fits [OF this, of "log_write W"] writer_event(4)
      have "bw = (log_writer s)\<lparr>bw_buf := bw_buf (log_writer s) @ frame (msg r)\<rparr>"
        by (auto simp: step_encodes [OF assms(1)])
      then show "log_writer t = \<lparr>bw_buf = concat (map (frame \<circ> msg) (logged (tr @ l))), bw_capacity = LOG_CAPACITY, bw_inner = f\<rparr>"
        using writer_event(1,2) lw by simp
    qed
  next
    case writer_open
    then show ?thesis using runs_step(3) by (simp add: buffered_only_def)
  qed (use runs_step(3) in \<open>simp_all add: buffered_only_def\<close>)
qed

section \<open>A run for the witnesses\<close>

text \<open>A channel that is its own view, a world built from it and the samples of the components, and
  one response that travels from the kernel to the log.\<close>

definition list_channel :: "nat \<Rightarrow> 'a \<Rightarrow> ('a chan_view, 'a) channel" where
  "list_channel cap old =
     \<lparr>try_send_ref = (\<lambda>c. if rx_closed c then SendClosed else if cap \<le> length (queue c) then SendFull else Slot old),
      fill_slot = (\<lambda>v c. c\<lparr>queue := queue c @ [v]\<rparr>),
      recv_ref = (\<lambda>c. case queue c of x # _ \<Rightarrow> Item x | [] \<Rightarrow> if tx_closed c then RecvNone else Pending),
      release = (\<lambda>c. c\<lparr>queue := tl (queue c)\<rparr>),
      close_tx = (\<lambda>c. c\<lparr>tx_closed := True\<rparr>), close_rx = (\<lambda>c. c\<lparr>rx_closed := True\<rparr>)\<rparr>"

lemma list_channel_ok: "channel_ok (list_channel cap old) cap (\<lambda>c. c)"
  by (auto simp: channel_ok_def list_channel_def send_ok_def recv_ok_def split: list.splits)

definition sample_world ::
  "(RawDnsEvent chan_view, DnsResponse chan_view, (RawIpAddr \<times> u8) list FqdnPolicyEngine, string PolicyError,
     nat \<times> bytes) world" where
  "sample_world = \<lparr>raw_ops = list_channel CHANNEL_CAPACITY default_RawDnsEvent,
     dns_ops = list_channel CHANNEL_CAPACITY (default_DnsResponse\<lparr>domain_name := ''stale''\<rparr>),
     obs_update = update list_insert, open_log = True, log_write = sample_disk, log_encode = sample_encode\<rparr>"

definition sample_start ::
  "(RawDnsEvent chan_view, DnsResponse chan_view, (RawIpAddr \<times> u8) list FqdnPolicyEngine, nat \<times> bytes) topology" where
  "sample_start = \<lparr>ring = [], raw_chan = empty_view, dns_chan = empty_view,
     reader_task = Running, parser_task = Running, parser_current = None,
     local_response = default_DnsResponse, observer = sample_engine,
     writer_task = Starting, writer_current = None, proto_buffer = [],
     log_writer = with_capacity LOG_CAPACITY (0, [])\<rparr>"

lemma sample_assembly:
  "assembly_processing_topology Inr Inr (\<lambda>_. empty_view) (\<lambda>_. empty_view) (0, []) [] sample_engine = Inr sample_start"
  by (simp add: assembly_processing_topology_def sample_start_def)

lemma sample_world_ok:
  "channel_ok (raw_ops sample_world) CHANNEL_CAPACITY (\<lambda>c. c)"
  "channel_ok (dns_ops sample_world) CHANNEL_CAPACITY (\<lambda>c. c)"
  by (simp_all add: sample_world_def list_channel_ok)

definition sample_item :: bytes where
  "sample_item = event_to_bytes (sample_event sample_msg)"

lemma wf_sample: "wf_event (sample_event sample_msg)"
  by (rule wf_sample_event) code_simp

lemma sample_item_event: "length sample_item = 576" "event_of_bytes sample_item = sample_event sample_msg"
  using wf_sample by (simp_all add: sample_item_def raw_event.length_image raw_event.of_to)

lemma sample_parse:
  obtains r where "parse_dns_into (sample_event sample_msg) default_DnsResponse = (Ok (), r)"
    and "domain_name r = ''ab.c''" and "item_response sample_item = Some r"
proof -
  have ok: "fst (parse_dns_into (sample_event sample_msg) default_DnsResponse) = Ok ()"
    and dn: "domain_name (snd (parse_dns_into (sample_event sample_msg) default_DnsResponse)) = ''ab.c''"
    by code_simp+
  obtain r where r: "parse_dns_into (sample_event sample_msg) default_DnsResponse = (Ok (), r)"
    using ok by (metis prod.collapse)
  then have "item_response sample_item = Some r"
    by (simp add: item_response_def sample_item_event event_response_def)
  with r dn that show ?thesis by simp
qed

lemmas sample_defs = sample_world_def sample_start_def list_channel_def empty_view_def CHANNEL_CAPACITY_def

lemma sample_run:
  obtains r s where "runs sample_world sample_start [Kernel sample_item, Observed r, Logged r] s"
    and "item_response sample_item = Some r" and "ring s = []"
    and "raw_chan s = empty_view" and "dns_chan s = empty_view" and "writer_task s = Running"
proof -
  let ?W = sample_world and ?ev = "sample_event sample_msg"
  obtain r where r: "parse_dns_into ?ev default_DnsResponse = (Ok (), r)" "domain_name r = ''ab.c''"
      "item_response sample_item = Some r" by (rule sample_parse)
  define s1 where "s1 = sample_start\<lparr>ring := [sample_item]\<rparr>"
  define s2 where "s2 = sample_start\<lparr>raw_chan := empty_view\<lparr>queue := [?ev]\<rparr>\<rparr>"
  define s3 where "s3 = s2\<lparr>parser_current := Some ?ev\<rparr>"
  define s4 where "s4 = sample_start\<lparr>local_response := default_DnsResponse\<lparr>domain_name := ''stale''\<rparr>,
    dns_chan := empty_view\<lparr>queue := [r]\<rparr>\<rparr>"
  define s5 where "s5 = s4\<lparr>writer_task := Running\<rparr>"
  define s6 where "s6 = s5\<lparr>writer_current := Some r\<rparr>"
  have 1: "step ?W sample_start [Kernel sample_item] s1"
    using kernel_submit [of ?W sample_start sample_item] by (simp add: s1_def sample_start_def)
  have 2: "step ?W s1 [] s2"
    using reader_item [of s1 sample_item "[]" ?W]
    by (simp add: s1_def s2_def sample_defs ebpf_reader_step_def reader_labels_def size_RawDnsEvent sample_item_event)
  have 3: "step ?W s2 [] s3"
    using parser_recv [of s2 ?W ?ev] by (simp add: s2_def s3_def sample_defs)
  have u: "update list_insert r sample_engine = (Ok (), sample_engine)"
    using r(2) by (simp add: update_other_domain sample_engine_def)
  have 4: "step ?W s3 [Observed r] s4"
    using parser_event [of s3 ?ev ?W] r(1) u
    by (simp add: s2_def s3_def s4_def sample_defs dns_parser_step_def parser_labels_def)
  have 5: "step ?W s4 [] s5"
    using writer_open [of s4 ?W] by (simp add: s4_def s5_def sample_defs)
  have 6: "step ?W s5 [] s6"
    using writer_recv [of s5 ?W r] by (simp add: s4_def s5_def s6_def sample_defs)
  let ?msg = "map (of_nat \<circ> of_char) (domain_name r) :: bytes"
  obtain bw where "write_record sample_disk ?msg (log_writer s6) = Some (True, bw)"
    using write_record_complete [OF sample_disk_ok] by blast
  then have "file_writer_step (log_write ?W) (log_encode ?W) r (proto_buffer s6, log_writer s6) = Some (?msg, bw)"
    by (simp add: sample_world_def step_encodes [OF sample_encode_ok])
  then have 7: "step ?W s6 [Logged r] (s6\<lparr>writer_current := None, proto_buffer := ?msg, log_writer := bw,
      dns_chan := release (dns_ops ?W) (dns_chan s6)\<rparr>)" (is "step _ _ _ ?s7")
    by (intro writer_event) (simp_all add: s6_def)
  have "runs ?W sample_start [Kernel sample_item, Observed r, Logged r] ?s7"
    using runs_step [OF runs_step [OF runs_step [OF runs_step [OF runs_step [OF runs_step [OF runs_step
      [OF runs_start 1] 2] 3] 4] 5] 6] 7] by simp
  then show ?thesis
    using r(3) by (rule that) (simp_all add: s4_def s5_def s6_def sample_defs)
qed

text \<open>Order and integrity of the pipeline, for every interleaving: what reaches the log is a
  subsequence of what the submitted items parse to, so nothing is invented, duplicated, reordered or
  mixed with the contents of a recycled slot; and if nothing was dropped and nothing is in flight,
  every response has been logged.\<close>

lemma pipeline_order:
  assumes "assembly_processing_topology conv mkfd raw_channel dns_channel f ebpf_map obs = Inr s0"
    and "channel_ok (raw_ops W) CHANNEL_CAPACITY v1" and "channel_ok (dns_ops W) CHANNEL_CAPACITY v2"
    and "v1 (raw_channel CHANNEL_CAPACITY) = empty_view" and "v2 (dns_channel CHANNEL_CAPACITY) = empty_view"
    and "runs W s0 tr s"
  shows "subseq (logged tr) (responses (ring s0 @ submitted tr))
    \<and> (no_drops tr \<and> ring s = [] \<and> queue (v1 (raw_chan s)) = [] \<and> queue (v2 (dns_chan s)) = []
       \<longrightarrow> logged tr = responses (ring s0 @ submitted tr))"
proof -
  have "started v1 v2 s0" using assms(1,4,5) by (rule assembly_started)
  then have "flow_inv W v1 v2 s0 tr s" using runs_inv [OF assms(2,3) _ assms(6)] by blast
  then have io: "in_order tr (logged tr @ queue (v2 (dns_chan s)) @ event_responses (queue (v1 (raw_chan s)))
      @ responses (ring s)) (responses (ring s0 @ submitted tr))" by (simp add: flow_inv_def)
  then have "subseq (logged tr) (responses (ring s0 @ submitted tr))" by (rule in_order_front)
  with io show ?thesis by (auto simp: in_order_def)
qed

section \<open>Properties\<close>

text \<open>C18. The policy engine in the pipeline: it is handed, in order, responses the submitted items
  parse to (all of them if no item was dropped and none is in flight), whether or not the log keeps
  up, and its state is the fold of \<open>update\<close> over them.\<close>

theorem policy_sees:
  assumes "assembly_processing_topology conv mkfd raw_channel dns_channel f ebpf_map eng = Inr s0"
    and "channel_ok (raw_ops W) CHANNEL_CAPACITY v1" and "channel_ok (dns_ops W) CHANNEL_CAPACITY v2"
    and "v1 (raw_channel CHANNEL_CAPACITY) = empty_view" and "v2 (dns_channel CHANNEL_CAPACITY) = empty_view"
    and "obs_update W = update ins" and "runs W s0 tr s"
  shows "observer s = fold (\<lambda>r e. snd (update ins r e)) (observed tr) eng
    \<and> subseq (observed tr) (responses (ring s0 @ submitted tr))
    \<and> (no_drops tr \<and> ring s = [] \<and> queue (v1 (raw_chan s)) = []
       \<longrightarrow> observed tr = responses (ring s0 @ submitted tr))"
proof -
  have "started v1 v2 s0" using assms(1,4,5) by (rule assembly_started)
  then have "flow_inv W v1 v2 s0 tr s" using runs_inv [OF assms(2,3) _ assms(7)] by blast
  then have io: "in_order tr (observed tr @ event_responses (queue (v1 (raw_chan s))) @ responses (ring s))
      (responses (ring s0 @ submitted tr))"
    and st: "observer s = fold (\<lambda>r e. snd (update ins r e)) (observed tr) (observer s0)"
    by (simp_all add: flow_inv_def assms(6))
  have "subseq (observed tr) (responses (ring s0 @ submitted tr))" using io by (rule in_order_front)
  with io st assembly_initial(1) [OF assms(1)] show ?thesis by (auto simp: in_order_def)
qed

theorem policy_sees_witness:
  "\<exists>r s. item_response sample_item = Some r
    \<and> runs sample_world sample_start [Kernel sample_item, Observed r, Logged r] s
    \<and> observer s = snd (update list_insert r sample_engine)"
proof (rule sample_run)
  fix r s
  assume run: "runs sample_world sample_start [Kernel sample_item, Observed r, Logged r] s"
    and s: "item_response sample_item = Some r" "ring s = []" "raw_chan s = empty_view" "dns_chan s = empty_view"
  have "obs_update sample_world = update list_insert" by (simp add: sample_world_def)
  from policy_sees [OF sample_assembly sample_world_ok, simplified, OF this run] s run show ?thesis
    by (intro exI [of _ r] exI [of _ s]) simp
qed

text \<open>C7. The pipeline stays up: with the FQDN engine as its observer, whatever its kernel map answers,
  and with items as the classifier submits them, no interleaving makes the parser panic, and once the
  log file can be opened none of the three tasks ever ends. Both queues stay within 1000 messages.\<close>

theorem pipeline_alive:
  assumes "assembly_processing_topology conv mkfd raw_channel dns_channel f ebpf_map eng = Inr s0"
    and "channel_ok (raw_ops W) CHANNEL_CAPACITY v1" and "channel_ok (dns_ops W) CHANNEL_CAPACITY v2"
    and "v1 (raw_channel CHANNEL_CAPACITY) = empty_view" and "v2 (dns_channel CHANNEL_CAPACITY) = empty_view"
    and "obs_update W = update ins" and "runs W s0 tr s" and "list_all item_ok (ring s0 @ submitted tr)"
  shows "parser_task s \<noteq> Panicked
    \<and> (open_log W \<longrightarrow> reader_task s = Running \<and> parser_task s = Running \<and> writer_task s \<in> {Starting, Running})
    \<and> length (queue (v1 (raw_chan s))) \<le> 1000 \<and> length (queue (v2 (dns_chan s))) \<le> 1000"
proof -
  have st: "started v1 v2 s0" using assms(1,4,5) by (rule assembly_started)
  then have "task_inv v1 v2 s" using runs_inv [OF assms(2,3) _ assms(7)] by blast
  moreover have "alive (\<lambda>e. allowed_domains e = allowed_domains (observer s0)) W v1 s"
    using fqdn.alive_runs [OF assms(6,2,3) st refl assms(7,8)] .
  ultimately show ?thesis by (simp add: task_inv_def alive_def CHANNEL_CAPACITY_def)
qed

theorem pipeline_alive_witness:
  "\<exists>r s. runs sample_world sample_start [Kernel sample_item, Observed r, Logged r] s
    \<and> parser_task s = Running \<and> reader_task s = Running"
proof (rule sample_run)
  fix r s
  assume run: "runs sample_world sample_start [Kernel sample_item, Observed r, Logged r] s"
  have u: "obs_update sample_world = update list_insert" by (simp add: sample_world_def)
  have "unat (ev_payload_len (sample_event sample_msg)) \<le> 512" by code_simp
  then have "list_all item_ok (ring sample_start @ submitted [Kernel sample_item, Observed r, Logged r])"
    by (simp add: item_ok_def sample_item_event sample_start_def)
  from pipeline_alive [OF sample_assembly sample_world_ok _ _ u run this] run show ?thesis
    by (intro exI [of _ r] exI [of _ s]) (simp add: sample_world_def)
qed



text \<open>C24. What an exit leaves of the log. The daemon exits on Ctrl-C without waiting for the writer, so
  the file is as it is at that moment: it lacks the end of the log, up to 256 KiB of it; and as long as
  the log is shorter than that, the file has received nothing at all.\<close>

theorem exit_loses_buffer:
  assumes "assembly_processing_topology conv mkfd raw_channel dns_channel f ebpf_map obs = Inr s0"
    and "channel_ok (raw_ops W) CHANNEL_CAPACITY v1" and "channel_ok (dns_ops W) CHANNEL_CAPACITY v2"
    and "v1 (raw_channel CHANNEL_CAPACITY) = empty_view" and "v2 (dns_channel CHANNEL_CAPACITY) = empty_view"
    and "appends (log_write W) content" and "progress (log_write W) rank" and "encodes (log_encode W) msg"
    and "runs W s0 tr s"
  shows "(\<exists>lost. content (bw_inner (log_writer s)) @ lost = content f @ concat (map (frame \<circ> msg) (logged tr))
      \<and> length lost \<le> 262144)
    \<and> (log_size (map msg (logged tr)) < 262144 \<and> writer_task s \<noteq> Returned \<longrightarrow> bw_inner (log_writer s) = f)"
proof -
  have st: "started v1 v2 s0" using assms(1,4,5) by (rule assembly_started)
  note w0 = assembly_initial(2) [OF assms(1)]
  have "log_inv content msg (content f) tr s" by (rule log_inv_runs [OF assms(6-8) w0 assms(9)])
  moreover have "buffered_only f msg tr s" by (rule buffered_only_runs [OF assms(8) w0 assms(2,3) st assms(9)])
  ultimately show ?thesis by (auto simp: log_inv_def stream_of_def bw_ok_def buffered_only_def LOG_CAPACITY_def)
qed

theorem exit_loses_buffer_witness:
  "\<exists>r s. item_response sample_item = Some r
    \<and> runs sample_world sample_start [Kernel sample_item, Observed r, Logged r] s \<and> snd (bw_inner (log_writer s)) = []"
proof (rule sample_run)
  fix r s
  assume run: "runs sample_world sample_start [Kernel sample_item, Observed r, Logged r] s"
    and s: "item_response sample_item = Some r" and up: "writer_task s = Running"
  have dn: "domain_name r = ''ab.c''"
    using s by (auto intro: sample_parse)
  from exit_loses_buffer [OF sample_assembly sample_world_ok, of snd fst "\<lambda>r. map (of_nat \<circ> of_char) (domain_name r)", OF _ _ _ _ _ run]
    sample_disk_ok sample_encode_ok run dn up s show ?thesis
    by (intro exI [of _ r] exI [of _ s]) (simp add: sample_world_def log_size_def)
qed

end
