(* ===== verification/Daemon.thy ===== *)
theory Daemon
  imports Pipeline
begin

text \<open>
  The daemon's start-up (\<open>cilium-mini-rs/src/main.rs\<close>) and the two build scripts. The start-up is a
  program over what it has done so far: the calls it made, the maps still owned by the loaded object
  and the topology it started. What the operating system and the libraries (\<open>libc\<close>, \<open>aya\<close>,
  \<open>aya_log\<close>, \<open>tokio\<close>) answer is the parameter \<open>host\<close>, one result per call site. Errors keep
  the context the code attaches; the calls whose result the code discards or only reports do not end
  the start-up.
\<close>

section \<open>The environment and the state\<close>

datatype TcAttachType = Ingress | Egress

datatype action =
    SetRlimit | LoadObject | InitLogger | LoggerFd | SpawnLogFlush
  | QdiscAddClsact string | ProgramMut string | CastClassifier | LoadProgram | Attach string TcAttachType
  | TakeMap string | AssembleTopology | Warn string | WaitCtrlC

datatype anyhow = Bail string | WithContext string string

type_synonym call_result = "string + unit"

record ('map, 'm, 'rb, 'c, 'd, 'w) host =
  setrlimit_memlock :: call_result
  ebpf_load :: "string + (string \<rightharpoonup> 'map)"
  logger_init :: call_result
  logger_async_fd :: call_result
  has_program :: "string \<Rightarrow> bool"
  cast_classifier :: call_result
  program_load :: call_result
  program_attach :: "string \<Rightarrow> TcAttachType \<Rightarrow> call_result"
  hash_map_try_from :: "'map \<Rightarrow> string + 'm"
  ring_buf_try_from :: "'map \<Rightarrow> string + 'rb"
  ring_async_fd :: "'rb \<Rightarrow> string + bytes list"
  raw_channel_new :: "nat \<Rightarrow> 'c"
  dns_channel_new :: "nat \<Rightarrow> 'd"
  log_file :: 'w
  ctrl_c :: call_result

record ('map, 'm, 'c, 'd, 'w) daemon =
  actions :: "action list"
  object_maps :: "string \<rightharpoonup> 'map"
  running :: "('c, 'd, 'm FqdnPolicyEngine, 'w) topology option"

text \<open>A call that is recorded and whose failure is the error \<open>err\<close>.\<close>

definition call :: "action \<Rightarrow> ('x + 'y) \<Rightarrow> ('x \<Rightarrow> 'e) \<Rightarrow> (('map, 'm, 'c, 'd, 'w) daemon, 'e, 'y) prog" where
  "call act res err =
     bindM (modify (\<lambda>s. s\<lparr>actions := actions s @ [act]\<rparr>)) (\<lambda>_.
     case res of Inl e \<Rightarrow> raise (err e) | Inr y \<Rightarrow> ret y)"

definition note_action :: "action \<Rightarrow> (('map, 'm, 'c, 'd, 'w) daemon, 'e, unit) prog" where
  "note_action act = modify (\<lambda>s. s\<lparr>actions := actions s @ [act]\<rparr>)"

text \<open>\<open>if let Err(e) = p { warn!(...) }\<close>: the error is reported and the start-up goes on.\<close>

definition warn_on_err ::
  "string \<Rightarrow> (('map, 'm, 'c, 'd, 'w) daemon, 'e, unit) prog \<Rightarrow> (('map, 'm, 'c, 'd, 'w) daemon, 'e, unit) prog" where
  "warn_on_err msg p s = (case p s of
     (Err e, s') \<Rightarrow> note_action (Warn msg) s'
   | (r, s') \<Rightarrow> (r, s'))"

section \<open>The start-up\<close>

record Cli =
  iface :: string

definition default_Cli :: Cli where
  "default_Cli = \<lparr>iface = ''wlan0''\<rparr>"

definition bump_memlock_rlimit ::
  "('map, 'm, 'rb, 'c, 'd, 'w) host \<Rightarrow> (('map, 'm, 'c, 'd, 'w) daemon, anyhow, unit) prog" where
  "bump_memlock_rlimit host =
     call SetRlimit (setrlimit_memlock host) (\<lambda>e. Bail (''failed to set RLIMIT_MEMLOCK: '' @ e))"

definition load_ebpf ::
  "('map, 'm, 'rb, 'c, 'd, 'w) host \<Rightarrow> (('map, 'm, 'c, 'd, 'w) daemon, anyhow, unit) prog" where
  "load_ebpf host =
     bindM (call LoadObject (ebpf_load host) (WithContext ''failed to load eBPF object'')) (\<lambda>maps.
     modify (\<lambda>s. s\<lparr>object_maps := maps\<rparr>))"

definition setup_ebpf_logging ::
  "('map, 'm, 'rb, 'c, 'd, 'w) host \<Rightarrow> (('map, 'm, 'c, 'd, 'w) daemon, anyhow, unit) prog" where
  "setup_ebpf_logging host =
     bindM (call InitLogger (logger_init host) (WithContext ''failed to init EbpfLogger'')) (\<lambda>_.
     bindM (call LoggerFd (logger_async_fd host) (WithContext ''failed to create AsyncFd for logger'')) (\<lambda>_.
     note_action SpawnLogFlush))"

definition attach_dns_hook ::
  "('map, 'm, 'rb, 'c, 'd, 'w) host \<Rightarrow> string \<Rightarrow> (('map, 'm, 'c, 'd, 'w) daemon, anyhow, unit) prog" where
  "attach_dns_hook host ifc =
     bindM (note_action (QdiscAddClsact ifc)) (\<lambda>_.
     bindM (call (ProgramMut ''dns_tc'') (if has_program host ''dns_tc'' then Inr () else Inl ''missing'')
       (\<lambda>_. Bail (''failed to find program '' @ [CHR 0x27] @ ''dns_tc'' @ [CHR 0x27]))) (\<lambda>_.
     bindM (call CastClassifier (cast_classifier host)
       (WithContext ''failed to cast program to SchedClassifier'')) (\<lambda>_.
     bindM (call LoadProgram (program_load host) (WithContext ''failed to load tc program'')) (\<lambda>_.
     call (Attach ifc Ingress) (program_attach host ifc Ingress)
       (WithContext ''failed to attach tc ingress'')))))"

text \<open>\<open>Ebpf::take_map\<close> moves the map out of the object.\<close>

definition take_map :: "string \<Rightarrow> (('map, 'm, 'c, 'd, 'w) daemon, anyhow, 'map) prog" where
  "take_map name s =
     (case object_maps s name of
        None \<Rightarrow> (Err (Bail (''failed to find '' @ name @ '' map'')), s\<lparr>actions := actions s @ [TakeMap name]\<rparr>)
      | Some m \<Rightarrow> (Ok m, s\<lparr>actions := actions s @ [TakeMap name],
          object_maps := (object_maps s)(name := None)\<rparr>))"

definition allowed_domains_main :: "string set" where
  "allowed_domains_main = {''leetcode.com''}"

definition new_policy ::
  "('map, 'm, 'rb, 'c, 'd, 'w) host \<Rightarrow> 'map \<Rightarrow> (('map, 'm, 'c, 'd, 'w) daemon, anyhow, 'm FqdnPolicyEngine) prog" where
  "new_policy host hash_map =
     (case FqdnPolicyEngine_new (hash_map_try_from host) hash_map allowed_domains_main of
        Inl (ContextError ctx e) \<Rightarrow> raise (WithContext ctx e)
      | Inl _ \<Rightarrow> raise (Bail [])
      | Inr eng \<Rightarrow> ret eng)"

definition start_topology ::
  "('map, 'm, 'rb, 'c, 'd, 'w) host \<Rightarrow> 'map \<Rightarrow> 'm FqdnPolicyEngine \<Rightarrow>
     (('map, 'm, 'c, 'd, 'w) daemon, anyhow, unit) prog" where
  "start_topology host ring_buf fqdn_policy =
     bindM (call AssembleTopology
       (assembly_processing_topology (ring_buf_try_from host) (ring_async_fd host) (raw_channel_new host)
          (dns_channel_new host) (log_file host) ring_buf fqdn_policy)
       (\<lambda>e. case e of ContextErr ctx cause \<Rightarrow> WithContext ctx cause)) (\<lambda>topo.
     modify (\<lambda>s. s\<lparr>running := Some topo\<rparr>))"

definition daemon_main ::
  "('map, 'm, 'rb, 'c, 'd, 'w) host \<Rightarrow> Cli \<Rightarrow> (('map, 'm, 'c, 'd, 'w) daemon, anyhow, unit) prog" where
  "daemon_main host opt =
     bindM (bump_memlock_rlimit host) (\<lambda>_.
     bindM (load_ebpf host) (\<lambda>_.
     bindM (warn_on_err ''failed to initialize eBPF logger'' (setup_ebpf_logging host)) (\<lambda>_.
     bindM (attach_dns_hook host (iface opt)) (\<lambda>_.
     bindM (take_map HASH_MAP_NAME) (\<lambda>hash_map.
     bindM (new_policy host hash_map) (\<lambda>fqdn_policy.
     bindM (take_map RING_BUF_NAME) (\<lambda>ring_buf.
     bindM (warn_on_err ''Ingestor error'' (start_topology host ring_buf fqdn_policy)) (\<lambda>_.
     call WaitCtrlC (ctrl_c host) Bail))))))))"

definition daemon_init :: "('map, 'm, 'c, 'd, 'w) daemon" where
  "daemon_init = \<lparr>actions = [], object_maps = Map.empty, running = None\<rparr>"

section \<open>The build scripts\<close>

datatype build_step = BuildEbpf string string | CompileProtos string string

datatype build_error = MetadataFailed string | PackageNotFound | NoParent string | BuildFailed string | ProtosFailed string

text \<open>\<open>cilium-mini-rs/build.rs\<close>: \<open>parent\<close> is the path library's, the last two arguments are what
  \<open>aya_build\<close> and \<open>prost_build\<close> answer. The state is the list of steps taken.\<close>

definition build_main ::
  "string + (string \<times> string) list \<Rightarrow> (string \<Rightarrow> string option) \<Rightarrow> (string \<Rightarrow> string \<Rightarrow> call_result) \<Rightarrow> call_result \<Rightarrow>
     (build_step list, build_error, unit) prog" where
  "build_main metadata parent build_ebpf compile_protos =
     (case metadata of
        Inl e \<Rightarrow> raise (MetadataFailed e)
      | Inr packages \<Rightarrow>
          (case find (\<lambda>(name, manifest). name = ''cilium-mini-ebpf'') packages of
             None \<Rightarrow> raise PackageNotFound
           | Some (name, manifest_path) \<Rightarrow>
               (case parent manifest_path of
                  None \<Rightarrow> raise (NoParent manifest_path)
                | Some root_dir \<Rightarrow>
                    bindM (modify (\<lambda>st. st @ [BuildEbpf name root_dir])) (\<lambda>_.
                    case build_ebpf name root_dir of
                      Inl e \<Rightarrow> raise (BuildFailed e)
                    | Inr _ \<Rightarrow>
                        bindM (modify (\<lambda>st. st @ [CompileProtos ''../proto/network_event.proto'' ''../proto''])) (\<lambda>_.
                        case compile_protos of Inl e \<Rightarrow> raise (ProtosFailed e) | Inr _ \<Rightarrow> ret ())))))"

text \<open>\<open>cilium-mini-ebpf/build.rs\<close>: two \<open>unwrap\<close>s, then one line for cargo.\<close>

definition ebpf_build_main ::
  "(string \<Rightarrow> 'path option) \<Rightarrow> ('path \<Rightarrow> string option) \<Rightarrow> (string list, unit, unit) prog" where
  "ebpf_build_main which to_str =
     (case which ''bpf-linker'' of
        None \<Rightarrow> panic
      | Some path \<Rightarrow>
          (case to_str path of
             None \<Rightarrow> panic
           | Some txt \<Rightarrow> modify (\<lambda>out. out @ [''cargo:rerun-if-changed='' @ txt])))"

section \<open>How a start-up goes\<close>

lemma call_simps [simp]:
  "call act (Inr y) err s = (Ok y, s\<lparr>actions := actions s @ [act]\<rparr>)"
  "call act (Inl x) err s = (Err (err x), s\<lparr>actions := actions s @ [act]\<rparr>)"
  by (simp_all add: call_def modify_def raise_def ret_def)

text \<open>What the optional logger leaves in the trace.\<close>

definition logger_actions :: "('map, 'm, 'rb, 'c, 'd, 'w) host \<Rightarrow> action list" where
  "logger_actions host =
     (case logger_init host of
        Inl _ \<Rightarrow> [InitLogger, Warn ''failed to initialize eBPF logger'']
      | Inr _ \<Rightarrow> (case logger_async_fd host of
            Inl _ \<Rightarrow> [InitLogger, LoggerFd, Warn ''failed to initialize eBPF logger'']
          | Inr _ \<Rightarrow> [InitLogger, LoggerFd, SpawnLogFlush]))"

lemma logging_never_fails:
  "warn_on_err ''failed to initialize eBPF logger'' (setup_ebpf_logging host) s =
     (Ok (), s\<lparr>actions := actions s @ logger_actions host\<rparr>)"
  by (cases "logger_init host"; cases "logger_async_fd host")
    (simp_all add: warn_on_err_def setup_ebpf_logging_def logger_actions_def note_action_def modify_def)

definition hook_actions :: "string \<Rightarrow> action list" where
  "hook_actions ifc = [QdiscAddClsact ifc, ProgramMut ''dns_tc'', CastClassifier, LoadProgram, Attach ifc Ingress]"

lemma attach_dns_hook_cases:
  obtains (ok) "has_program host ''dns_tc''" "cast_classifier host = Inr ()" "program_load host = Inr ()"
      "program_attach host ifc Ingress = Inr ()"
      "attach_dns_hook host ifc s = (Ok (), s\<lparr>actions := actions s @ hook_actions ifc\<rparr>)"
  | (bad) e n where "n \<le> 5"
      "n = 5 \<longleftrightarrow> has_program host ''dns_tc'' \<and> cast_classifier host = Inr () \<and> program_load host = Inr ()"
      "\<not> (has_program host ''dns_tc'' \<and> cast_classifier host = Inr () \<and> program_load host = Inr ()
        \<and> program_attach host ifc Ingress = Inr ())"
      "attach_dns_hook host ifc s = (Err e, s\<lparr>actions := actions s @ take n (hook_actions ifc)\<rparr>)"
proof -
  note d = attach_dns_hook_def note_action_def modify_def hook_actions_def
  show ?thesis
  proof (cases "has_program host ''dns_tc''")
    case False
    then show ?thesis using bad [of 2] by (simp add: d)
  next
    case prog: True
    show ?thesis
    proof (cases "cast_classifier host")
      case (Inl e)
      then show ?thesis using prog bad [of 3] by (simp add: d)
    next
      case cast: (Inr u)
      show ?thesis
      proof (cases "program_load host")
        case (Inl e)
        then show ?thesis using prog cast bad [of 4] by (simp add: d)
      next
        case (Inr u)
        then show ?thesis using prog cast ok bad [of 5]
          by (cases "program_attach host ifc Ingress") (simp_all add: d)
      qed
    qed
  qed
qed

definition topology_of ::
  "('map, 'm, 'rb, 'c, 'd, 'w) host \<Rightarrow> 'map \<Rightarrow> 'm FqdnPolicyEngine \<Rightarrow>
     topology_error + ('c, 'd, 'm FqdnPolicyEngine, 'w) topology" where
  "topology_of host ring_buf eng =
     assembly_processing_topology (ring_buf_try_from host) (ring_async_fd host) (raw_channel_new host)
       (dns_channel_new host) (log_file host) ring_buf eng"

lemma start_topology_never_fails:
  "warn_on_err ''Ingestor error'' (start_topology host rb eng) s =
     (case topology_of host rb eng of
        Inl _ \<Rightarrow> (Ok (), s\<lparr>actions := actions s @ [AssembleTopology, Warn ''Ingestor error'']\<rparr>)
      | Inr topo \<Rightarrow> (Ok (), s\<lparr>actions := actions s @ [AssembleTopology], running := Some topo\<rparr>))"
  by (cases "topology_of host rb eng")
    (simp_all add: warn_on_err_def start_topology_def topology_of_def note_action_def modify_def
      split: topology_error.splits)

lemma new_policy_eq:
  "new_policy host m = (case hash_map_try_from host m of
     Inl e \<Rightarrow> raise (WithContext ''failed to convert map to HashMap'' e)
   | Inr k \<Rightarrow> ret \<lparr>allowed_ip_map = k, allowed_domains = allowed_domains_main\<rparr>)"
  by (simp add: new_policy_def FqdnPolicyEngine_new_def split: sum.splits)

lemma map_names_differ [simp]: "RING_BUF_NAME \<noteq> HASH_MAP_NAME"
  by (simp add: RING_BUF_NAME_def HASH_MAP_NAME_def)

text \<open>The start-up once the hook is attached.\<close>

definition after_hook ::
  "('map, 'm, 'rb, 'c, 'd, 'w) host \<Rightarrow> (('map, 'm, 'c, 'd, 'w) daemon, anyhow, unit) prog" where
  "after_hook host =
     bindM (take_map HASH_MAP_NAME) (\<lambda>hash_map.
     bindM (new_policy host hash_map) (\<lambda>fqdn_policy.
     bindM (take_map RING_BUF_NAME) (\<lambda>ring_buf.
     bindM (warn_on_err ''Ingestor error'' (start_topology host ring_buf fqdn_policy)) (\<lambda>_.
     call WaitCtrlC (ctrl_c host) Bail))))"

definition before_hook :: "('map, 'm, 'rb, 'c, 'd, 'w) host \<Rightarrow> (string \<rightharpoonup> 'map) \<Rightarrow> ('map, 'm, 'c, 'd, 'w) daemon" where
  "before_hook host maps =
     \<lparr>actions = [SetRlimit, LoadObject] @ logger_actions host, object_maps = maps, running = None\<rparr>"

lemma daemon_main_cases:
  obtains (early) e acts where "acts = [SetRlimit] \<or> acts = [SetRlimit, LoadObject]"
      "setrlimit_memlock host = Inr () \<longrightarrow> (\<forall>maps. ebpf_load host \<noteq> Inr maps)"
      "daemon_main host opt daemon_init = (Err e, daemon_init\<lparr>actions := acts\<rparr>)"
  | (main) maps where "setrlimit_memlock host = Inr ()" "ebpf_load host = Inr maps"
      "daemon_main host opt daemon_init =
         bindM (attach_dns_hook host (iface opt)) (\<lambda>_. after_hook host) (before_hook host maps)"
proof -
  note d = daemon_main_def bump_memlock_rlimit_def load_ebpf_def daemon_init_def after_hook_def before_hook_def
    modify_def
  show ?thesis
  proof (cases "setrlimit_memlock host")
    case (Inl e)
    then show ?thesis using early [of "[SetRlimit]"] by (simp add: d)
  next
    case rl: (Inr u)
    show ?thesis
    proof (cases "ebpf_load host")
      case (Inl e)
      then show ?thesis using rl early [of "[SetRlimit, LoadObject]"] by (simp add: d)
    next
      case (Inr maps)
      then have "daemon_main host opt daemon_init =
          bindM (attach_dns_hook host (iface opt)) (\<lambda>_. after_hook host) (before_hook host maps)"
        using rl by (simp add: d bindM_Ok [OF logging_never_fails])
      with rl Inr show ?thesis by (intro main) simp_all
    qed
  qed
qed

text \<open>Programs that attach nothing.\<close>

definition is_attach :: "action \<Rightarrow> bool" where
  "is_attach act = (case act of Attach _ _ \<Rightarrow> True | _ \<Rightarrow> False)"

definition quiet :: "(('map, 'm, 'c, 'd, 'w) daemon, 'e, 'a) prog \<Rightarrow> bool" where
  "quiet p \<longleftrightarrow> (\<forall>s. \<exists>later. actions (snd (p s)) = actions s @ later \<and> \<not> list_ex is_attach later)"

lemma quietI: "(\<And>s. actions (snd (p s)) = actions s @ later s \<and> \<not> list_ex is_attach (later s)) \<Longrightarrow> quiet p"
  unfolding quiet_def by blast

lemma quietD:
  "quiet p \<Longrightarrow> \<exists>later. actions (snd (p s)) = actions s @ later \<and> \<not> list_ex is_attach later"
  unfolding quiet_def by blast

lemma quiet_bind:
  assumes "quiet p" and "\<And>a. quiet (f a)"
  shows "quiet (bindM p f)"
  unfolding quiet_def
proof
  fix s
  obtain r s1 where p: "p s = (r, s1)" by fastforce
  obtain l1 where l1: "actions s1 = actions s @ l1" "\<not> list_ex is_attach l1"
    using assms(1) p unfolding quiet_def by (metis snd_conv)
  show "\<exists>later. actions (snd (bindM p f s)) = actions s @ later \<and> \<not> list_ex is_attach later"
  proof (cases r)
    case (Ok a)
    obtain l2 where "actions (snd (f a s1)) = actions s1 @ l2" "\<not> list_ex is_attach l2"
      using assms(2) unfolding quiet_def by blast
    with l1 p Ok show ?thesis by (intro exI [of _ "l1 @ l2"]) simp
  qed (use l1 p in auto)
qed

lemma quiet_call: "\<not> is_attach act \<Longrightarrow> quiet (call act res err)"
  by (rule quietI [where later = "\<lambda>_. [act]"]) (cases res; simp)

lemma quiet_take_map: "quiet (take_map name)"
  by (rule quietI [where later = "\<lambda>_. [TakeMap name]"]) (simp add: take_map_def is_attach_def split: option.split)

lemma quiet_new_policy: "quiet (new_policy host m)"
  by (rule quietI [where later = "\<lambda>_. []"]) (simp add: new_policy_eq raise_def ret_def split: sum.split)

lemma quiet_start: "quiet (warn_on_err ''Ingestor error'' (start_topology host rb eng))"
  by (rule quietI [where later = "\<lambda>_. case topology_of host rb eng of
      Inl _ \<Rightarrow> [AssembleTopology, Warn ''Ingestor error''] | Inr _ \<Rightarrow> [AssembleTopology]"])
    (simp add: start_topology_never_fails is_attach_def split: sum.split)

lemma after_hook_quiet: "quiet (after_hook host)"
  unfolding after_hook_def
  by (intro quiet_bind quiet_take_map quiet_new_policy quiet_start quiet_call) (simp add: is_attach_def)

lemma logger_quiet: "\<not> list_ex is_attach (logger_actions host)"
  by (simp add: logger_actions_def is_attach_def split: sum.split)

lemma hook_prefix_quiet: "n < 5 \<Longrightarrow> \<not> list_ex is_attach (take n (hook_actions ifc))"
  by (auto simp: hook_actions_def is_attach_def less_Suc_eq numeral_eq_Suc)

lemma after_hook_run:
  assumes "object_maps s HASH_MAP_NAME = Some hm" and "hash_map_try_from host hm = Inr m"
    and "object_maps s RING_BUF_NAME = Some rb"
  shows "after_hook host s =
    bindM (warn_on_err ''Ingestor error'' (start_topology host rb
        \<lparr>allowed_ip_map = m, allowed_domains = allowed_domains_main\<rparr>)) (\<lambda>_. call WaitCtrlC (ctrl_c host) Bail)
      (s\<lparr>actions := actions s @ [TakeMap HASH_MAP_NAME, TakeMap RING_BUF_NAME],
         object_maps := (object_maps s)(HASH_MAP_NAME := None, RING_BUF_NAME := None)\<rparr>)"
  using assms by (simp add: after_hook_def take_map_def bindM_def new_policy_eq ret_def)

section \<open>Properties\<close>

text \<open>C31. The start-up's safety order, whatever the host answers: attaching the hook is attempted exactly
  if raising the memory limit, loading the object, and finding, casting and loading the program all
  succeeded. It is then attempted once, on the interface of the command line and on its ingress side
  only, with these calls and the request for the clsact qdisc before it in this order; and if the
  attempt fails nothing is done after it and the daemon ends with an error.\<close>

theorem attach_guarded:
  "(list_ex is_attach (actions (snd (daemon_main host opt daemon_init))) \<longleftrightarrow>
      setrlimit_memlock host = Inr () \<and> (\<exists>maps. ebpf_load host = Inr maps) \<and> has_program host ''dns_tc''
      \<and> cast_classifier host = Inr () \<and> program_load host = Inr ())
   \<and> (list_ex is_attach (actions (snd (daemon_main host opt daemon_init))) \<longrightarrow>
      (\<exists>later. actions (snd (daemon_main host opt daemon_init)) =
          [SetRlimit, LoadObject] @ logger_actions host @ hook_actions (iface opt) @ later
        \<and> \<not> list_ex is_attach later
        \<and> (program_attach host (iface opt) Ingress = Inr ()
            \<or> later = [] \<and> fst (daemon_main host opt daemon_init) \<noteq> Ok ())))"
proof (cases rule: daemon_main_cases [of host opt])
  case (early e acts)
  then show ?thesis by (auto simp: is_attach_def)
next
  case (main maps)
  let ?s = "before_hook host maps"
  show ?thesis
  proof (cases rule: attach_dns_hook_cases [of host "iface opt" ?s])
    case ok
    obtain later where "actions (snd (after_hook host (?s\<lparr>actions := actions ?s @ hook_actions (iface opt)\<rparr>)))
        = actions ?s @ hook_actions (iface opt) @ later" "\<not> list_ex is_attach later"
      using quietD [OF after_hook_quiet, of host "?s\<lparr>actions := actions ?s @ hook_actions (iface opt)\<rparr>"] by auto
    moreover have "list_ex is_attach (hook_actions (iface opt))" by (simp add: hook_actions_def is_attach_def)
    ultimately show ?thesis using ok main by (auto simp: before_hook_def)
  next
    case (bad e n)
    with main(3) have run: "actions (snd (daemon_main host opt daemon_init)) =
        [SetRlimit, LoadObject] @ logger_actions host @ take n (hook_actions (iface opt))"
        "fst (daemon_main host opt daemon_init) \<noteq> Ok ()"
      by (simp_all add: before_hook_def)
    have "list_ex is_attach (take n (hook_actions (iface opt))) \<longleftrightarrow> n = 5"
      using hook_prefix_quiet [of n "iface opt"] bad(1)
      by (cases "n = 5") (simp_all add: hook_actions_def is_attach_def)
    then have "list_ex is_attach (actions (snd (daemon_main host opt daemon_init))) \<longleftrightarrow> n = 5"
      using run(1) logger_quiet [of host] by (simp add: is_attach_def)
    moreover have "take 5 (hook_actions (iface opt)) = hook_actions (iface opt)" by (simp add: hook_actions_def)
    ultimately show ?thesis using main(1,2) bad(2) run by auto
  qed
qed

text \<open>A host on which everything succeeds, for the witnesses, and one without a usable ring.\<close>

definition sample_host ::
  "(unit, (RawIpAddr \<times> u8) list, bytes list, RawDnsEvent chan_view, DnsResponse chan_view, nat \<times> bytes) host" where
  "sample_host = \<lparr>setrlimit_memlock = Inr (), ebpf_load = Inr (\<lambda>_. Some ()), logger_init = Inl ''no logger'',
     logger_async_fd = Inr (), has_program = (\<lambda>_. True), cast_classifier = Inr (), program_load = Inr (),
     program_attach = (\<lambda>_ _. Inr ()), hash_map_try_from = (\<lambda>_. Inr []), ring_buf_try_from = (\<lambda>_. Inr []),
     ring_async_fd = Inr, raw_channel_new = (\<lambda>_. empty_view), dns_channel_new = (\<lambda>_. empty_view),
     log_file = (0, []), ctrl_c = Inr ()\<rparr>"

theorem attach_guarded_witness:
  "(\<exists>later. actions (snd (daemon_main sample_host default_Cli daemon_init)) =
       [SetRlimit, LoadObject] @ logger_actions sample_host @ hook_actions ''wlan0'' @ later)
   \<and> \<not> list_ex is_attach (actions (snd (daemon_main (sample_host\<lparr>setrlimit_memlock := Inl ''EPERM''\<rparr>)
        default_Cli daemon_init)))"
  using attach_guarded [of sample_host default_Cli]
    attach_guarded [of "sample_host\<lparr>setrlimit_memlock := Inl ''EPERM''\<rparr>" default_Cli]
  by (auto simp: sample_host_def default_Cli_def)

text \<open>C32. Which failures end the daemon: it runs until Ctrl-C and returns \<open>Ok\<close> exactly if the memory
  limit, the object, the program, its attachment, both maps, the conversion of the policy map and the
  signal handler succeed. The logger and the processing topology are not among them.\<close>

theorem daemon_ok_iff:
  "fst (daemon_main host opt daemon_init) = Ok () \<longleftrightarrow>
     setrlimit_memlock host = Inr () \<and> has_program host ''dns_tc'' \<and> cast_classifier host = Inr ()
     \<and> program_load host = Inr () \<and> program_attach host (iface opt) Ingress = Inr () \<and> ctrl_c host = Inr ()
     \<and> (\<exists>maps hm m rb. ebpf_load host = Inr maps \<and> maps HASH_MAP_NAME = Some hm
          \<and> hash_map_try_from host hm = Inr m \<and> maps RING_BUF_NAME = Some rb)"
proof (cases rule: daemon_main_cases [of host opt])
  case (early e acts)
  then show ?thesis by auto
next
  case (main maps)
  show ?thesis
  proof (cases rule: attach_dns_hook_cases [of host "iface opt" "before_hook host maps"])
    case ok
    have "fst (after_hook host s) = Ok () \<longleftrightarrow> ctrl_c host = Inr () \<and> (\<exists>hm m rb. maps HASH_MAP_NAME = Some hm
        \<and> hash_map_try_from host hm = Inr m \<and> maps RING_BUF_NAME = Some rb)"
      if "object_maps s = maps" for s
    proof (cases "\<exists>hm m rb. maps HASH_MAP_NAME = Some hm \<and> hash_map_try_from host hm = Inr m \<and> maps RING_BUF_NAME = Some rb")
      case True
      then show ?thesis using that
        by (cases "ctrl_c host") (auto simp: after_hook_run bindM_def start_topology_never_fails split: sum.splits)
    next
      case False
      then show ?thesis using that
        by (auto simp: after_hook_def take_map_def bindM_def new_policy_eq ret_def raise_def
            split: option.splits sum.splits)
    qed
    with ok main show ?thesis by (simp add: before_hook_def)
  next
    case (bad e n)
    with main show ?thesis by auto
  qed
qed

text \<open>C33. A successful start-up in full: the calls in their order, the maps taken out of the object, and
  the topology running on the ring-buffer map with a policy engine that holds the converted hash map
  and allows \<open>leetcode.com\<close> only. If the topology cannot be assembled the daemon still reports
  success and keeps the hook attached, with nobody reading the ring.\<close>

theorem daemon_running:
  assumes "setrlimit_memlock host = Inr ()" and "ebpf_load host = Inr maps" and "has_program host ''dns_tc''"
    and "cast_classifier host = Inr ()" and "program_load host = Inr ()"
    and "program_attach host (iface opt) Ingress = Inr ()" and "ctrl_c host = Inr ()"
    and "maps HASH_MAP_NAME = Some hm" and "hash_map_try_from host hm = Inr m" and "maps RING_BUF_NAME = Some rb"
  shows "daemon_main host opt daemon_init =
    (Ok (), \<lparr>actions = [SetRlimit, LoadObject] @ logger_actions host @ hook_actions (iface opt)
         @ [TakeMap ''ALLOWED_IP_MAP'', TakeMap ''DNS_EVENTS_PIPE'', AssembleTopology]
         @ (case topology_of host rb \<lparr>allowed_ip_map = m, allowed_domains = {''leetcode.com''}\<rparr> of
              Inl _ \<Rightarrow> [Warn ''Ingestor error''] | Inr _ \<Rightarrow> []) @ [WaitCtrlC],
       object_maps = maps(''ALLOWED_IP_MAP'' := None, ''DNS_EVENTS_PIPE'' := None),
       running = (case topology_of host rb \<lparr>allowed_ip_map = m, allowed_domains = {''leetcode.com''}\<rparr> of
              Inl _ \<Rightarrow> None | Inr topo \<Rightarrow> Some topo)\<rparr>)"
proof (cases rule: daemon_main_cases [of host opt])
  case (early e acts)
  with assms show ?thesis by auto
next
  case (main maps')
  then have [simp]: "maps' = maps" using assms(2) by simp
  show ?thesis
  proof (cases rule: attach_dns_hook_cases [of host "iface opt" "before_hook host maps"])
    case ok
    with main assms(7-) show ?thesis
      by (simp add: after_hook_run before_hook_def bindM_def start_topology_never_fails allowed_domains_main_def
          RING_BUF_NAME_def HASH_MAP_NAME_def split: sum.split)
  qed (use assms in auto)
qed

theorem daemon_running_witness:
  "\<exists>topo. running (snd (daemon_main sample_host default_Cli daemon_init)) = Some topo
    \<and> allowed_domains (observer topo) = {''leetcode.com''}"
  using daemon_running [of sample_host "\<lambda>_. Some ()" default_Cli "()" "[]" "()"]
  by (simp add: sample_host_def topology_of_def assembly_processing_topology_def)

text \<open>The build script of the daemon compiles the first package named \<open>cilium-mini-ebpf\<close> from the
  directory of its manifest, and the protocol only after that succeeded; in every other case it
  reports an error and skips the protocol.\<close>

lemma build_main_steps:
  "build_main metadata parent build_ebpf protos [] = (r, steps) \<longleftrightarrow>
     (case metadata of Inl e \<Rightarrow> r = Err (MetadataFailed e) \<and> steps = []
      | Inr packages \<Rightarrow>
         (case filter (\<lambda>p. fst p = ''cilium-mini-ebpf'') packages of
            [] \<Rightarrow> r = Err PackageNotFound \<and> steps = []
          | (name, manifest) # _ \<Rightarrow>
             (case parent manifest of None \<Rightarrow> r = Err (NoParent manifest) \<and> steps = []
              | Some dir \<Rightarrow>
                 (case build_ebpf name dir of Inl e \<Rightarrow> r = Err (BuildFailed e) \<and> steps = [BuildEbpf name dir]
                  | Inr _ \<Rightarrow> r = (case protos of Inl e \<Rightarrow> Err (ProtosFailed e) | Inr _ \<Rightarrow> Ok ())
                      \<and> steps = [BuildEbpf name dir, CompileProtos ''../proto/network_event.proto'' ''../proto'']))))"
proof -
  have f: "find (\<lambda>(name, manifest). name = ''cilium-mini-ebpf'') ps =
      (case filter (\<lambda>p. fst p = ''cilium-mini-ebpf'') ps of [] \<Rightarrow> None | p # _ \<Rightarrow> Some p)" for ps :: "(string \<times> string) list"
    by (induction ps) (auto split: prod.splits)
  show ?thesis
    by (auto simp: build_main_def f raise_def ret_def modify_def split: sum.splits list.splits option.splits prod.splits)
qed

end
