(* ===== verification/Classifier.thy ===== *)
theory Classifier
  imports Common
begin

text \<open>
  The eBPF classifier (\<open>cilium-mini-ebpf/src/main.rs\<close>): the TC program that inspects a packet and
  sends DNS responses to the ring buffer. Addresses are 64-bit words and wrap as in the compiled
  program; a load outside the packet is a fault (\<open>Panic\<close>), so memory safety is part of every theorem
  about the outcome. The state of a run is the list of events submitted to the ring.

  Parameters, for code that is not in the repository: \<open>net_types\<close> holds the header types of the
  crate \<open>network_types\<close> (sizes and field readers, which get the bytes of one header) and the TC
  verdict; \<open>kernel_env\<close> holds what the helpers return to one run: the memory that \<open>reserve\<close> hands
  out, with whatever it held before, and the two clock readings. \<open>net_ok\<close> and \<open>ctx_ok\<close> state the
  layout and the address space the program relies on.
\<close>

section \<open>Parameters\<close>

datatype EtherType = EtherIpv4 | EtherIpv6 | EtherOther
datatype IpProto = ProtoUdp | ProtoOther

record net_types =
  size_EthHdr :: usize
  size_Ipv4Hdr :: usize
  size_Ipv6Hdr :: usize
  size_UdpHdr :: usize
  EthHdr_LEN :: usize
  Ipv6Hdr_LEN :: usize
  UdpHdr_LEN :: usize
  ether_type :: "bytes \<Rightarrow> EtherType option"
  ipv4_src_addr :: "bytes \<Rightarrow> bytes"
  ipv4_dst_addr :: "bytes \<Rightarrow> bytes"
  ipv4_ihl :: "bytes \<Rightarrow> u8"
  ipv4_proto :: "bytes \<Rightarrow> IpProto option"
  ipv6_src_addr :: "bytes \<Rightarrow> bytes"
  ipv6_dst_addr :: "bytes \<Rightarrow> bytes"
  ipv6_next_hdr :: "bytes \<Rightarrow> IpProto option"
  udp_src_port :: "bytes \<Rightarrow> u16"
  udp_dst_port :: "bytes \<Rightarrow> u16"
  TC_ACT_OK :: i32

record kernel_env =
  reserve :: "RawDnsEvent option"
  ktime_start :: u64
  ktime_end :: u64

record tc_context =
  ctx_data :: usize
  ctx_data_end :: usize
  packet :: bytes

section \<open>The program\<close>

text \<open>The maps the object declares: their names, and the ring's bytes or the hash's entries.\<close>

record btf_map =
  map_name :: string
  max_entries :: nat

definition DNS_EVENTS_PIPE :: btf_map where
  "DNS_EVENTS_PIPE = \<lparr>map_name = ''DNS_EVENTS_PIPE'', max_entries = 67108864\<rparr>"

definition ALLOWED_IP_MAP :: btf_map where
  "ALLOWED_IP_MAP = \<lparr>map_name = ''ALLOWED_IP_MAP'', max_entries = 1024\<rparr>"

definition DNS_PORT :: u16 where
  "DNS_PORT = 53"

definition IPV4_MIN_HDR_LEN :: usize where
  "IPV4_MIN_HDR_LEN = 20"

definition IPV4_MAX_HDR_LEN :: usize where
  "IPV4_MAX_HDR_LEN = 60"

text \<open>A load of \<open>n\<close> bytes: the packet's bytes, or a fault.\<close>

definition load :: "tc_context \<Rightarrow> usize \<Rightarrow> nat \<Rightarrow> ('s, unit, bytes) prog" where
  "load ctx addr n =
     (let off = unat (addr - ctx_data ctx)
      in if off + n \<le> length (packet ctx) then ret (take n (drop off (packet ctx))) else panic)"

definition ptr_at :: "usize \<Rightarrow> tc_context \<Rightarrow> usize \<Rightarrow> ('s, unit, usize) prog" where
  "ptr_at len ctx offset =
     (let start = ctx_data ctx; limit = ctx_data_end ctx
      in if start + offset + len > limit then raise () else ret (start + offset))"

definition get_ipv4_header_len :: "net_types \<Rightarrow> bytes \<Rightarrow> ('s, unit, usize) prog" where
  "get_ipv4_header_len net ipv4hdr =
     (let hdr_len = ucast (ipv4_ihl net ipv4hdr) :: usize
      in if hdr_len < IPV4_MIN_HDR_LEN \<or> hdr_len > IPV4_MAX_HDR_LEN then raise () else ret hdr_len)"

text \<open>The bounded copy loop: \<open>n\<close> iterations are left, \<open>i\<close> is the loop variable.\<close>

fun copy_loop :: "tc_context \<Rightarrow> usize \<Rightarrow> nat \<Rightarrow> nat \<Rightarrow> bytes \<Rightarrow> u16 \<Rightarrow> ('s, unit, bytes \<times> u16) prog" where
  "copy_loop ctx payload_offset 0 i dst copied_len = ret (dst, copied_len)"
| "copy_loop ctx payload_offset (Suc n) i dst copied_len =
     (let cur_offset = payload_offset + of_nat i
      in if ctx_data ctx + cur_offset + 1 > ctx_data_end ctx then ret (dst, copied_len)
         else bindM (load ctx (ctx_data ctx + cur_offset) 1) (\<lambda>bs.
           if i < length dst
           then copy_loop ctx payload_offset n (i + 1) (dst[i := hd bs]) (copied_len + 1)
           else panic))"

definition parse_udp ::
  "net_types \<Rightarrow> kernel_env \<Rightarrow> tc_context \<Rightarrow> usize \<Rightarrow> RawIpAddr \<Rightarrow> RawIpAddr \<Rightarrow>
     (RawDnsEvent list, unit, i32) prog" where
  "parse_udp net env ctx offset src dst =
     bindM (ptr_at (size_UdpHdr net) ctx offset) (\<lambda>ptr.
     bindM (load ctx ptr (unat (size_UdpHdr net))) (\<lambda>udphdr.
     let src_port = udp_src_port net udphdr; dst_port = udp_dst_port net udphdr in
     if src_port \<noteq> DNS_PORT then ret (TC_ACT_OK net)
     else let payload_offset = offset + UdpHdr_LEN net;
              data_start = ctx_data ctx; data_end = ctx_data_end ctx;
              available_len = (if data_end < data_start + payload_offset then 0
                else data_end - (data_start + payload_offset)) in
       if available_len = 0 then ret (TC_ACT_OK net)
       else case reserve env of
           None \<Rightarrow> ret (TC_ACT_OK net)
         | Some ring_buf \<Rightarrow>
             let event = ring_buf\<lparr>ev_src_ip := write_to src (ev_src_ip ring_buf),
                   ev_dst_ip := write_to dst (ev_dst_ip ring_buf),
                   ev_src_port := src_port, ev_dst_port := dst_port\<rparr> in
             bindM (copy_loop ctx payload_offset MAX_DNS_PAYLOAD_SIZE 0 (ev_payload event) 0)
               (\<lambda>(payload, copied_len).
             bindM (modify (\<lambda>ring. ring @ [event\<lparr>ev_payload := payload, ev_payload_len := copied_len,
                 ev_timestamp_ns := ktime_end env\<rparr>])) (\<lambda>_.
             ret (TC_ACT_OK net)))))"

definition try_dns_tc ::
  "net_types \<Rightarrow> kernel_env \<Rightarrow> tc_context \<Rightarrow> (RawDnsEvent list, unit, i32) prog" where
  "try_dns_tc net env ctx =
     bindM (ptr_at (size_EthHdr net) ctx 0) (\<lambda>eptr.
     bindM (load ctx eptr (unat (size_EthHdr net))) (\<lambda>ethhdr.
     case ether_type net ethhdr of
       Some EtherIpv4 \<Rightarrow>
         bindM (ptr_at (size_Ipv4Hdr net) ctx (EthHdr_LEN net)) (\<lambda>iptr.
         bindM (load ctx iptr (unat (size_Ipv4Hdr net))) (\<lambda>ipv4hdr.
         let src = from_ipv4 (ipv4_src_addr net ipv4hdr); dst = from_ipv4 (ipv4_dst_addr net ipv4hdr) in
         bindM (get_ipv4_header_len net ipv4hdr) (\<lambda>ip_hdr_len.
         case ipv4_proto net ipv4hdr of
           None \<Rightarrow> raise ()
         | Some ProtoUdp \<Rightarrow>
             bindM (parse_udp net env ctx (EthHdr_LEN net + ip_hdr_len) src dst) (\<lambda>_. ret (TC_ACT_OK net))
         | Some ProtoOther \<Rightarrow> ret (TC_ACT_OK net))))
     | Some EtherIpv6 \<Rightarrow>
         bindM (ptr_at (size_Ipv6Hdr net) ctx (EthHdr_LEN net)) (\<lambda>iptr.
         bindM (load ctx iptr (unat (size_Ipv6Hdr net))) (\<lambda>ipv6hdr.
         let src = from_ipv6 (ipv6_src_addr net ipv6hdr); dst = from_ipv6 (ipv6_dst_addr net ipv6hdr) in
         case ipv6_next_hdr net ipv6hdr of
           None \<Rightarrow> raise ()
         | Some ProtoUdp \<Rightarrow>
             bindM (parse_udp net env ctx (EthHdr_LEN net + Ipv6Hdr_LEN net) src dst)
               (\<lambda>_. ret (TC_ACT_OK net))
         | Some ProtoOther \<Rightarrow> ret (TC_ACT_OK net)))
     | _ \<Rightarrow> ret (TC_ACT_OK net)))"

definition dns_tc :: "net_types \<Rightarrow> kernel_env \<Rightarrow> tc_context \<Rightarrow> (RawDnsEvent list, unit, i32) prog" where
  "dns_tc net env ctx ring =
     (case try_dns_tc net env ctx ring of
        (Ok ret_val, ring') \<Rightarrow> (Ok ret_val, ring')
      | (Err _, ring') \<Rightarrow> (Ok (TC_ACT_OK net), ring')
      | (Panic, ring') \<Rightarrow> (Panic, ring'))"

section \<open>What the program relies on\<close>

definition net_ok :: "net_types \<Rightarrow> bool" where
  "net_ok net \<longleftrightarrow>
     size_EthHdr net = 14 \<and> size_Ipv4Hdr net = 20 \<and> size_Ipv6Hdr net = 40 \<and> size_UdpHdr net = 8
     \<and> EthHdr_LEN net = 14 \<and> Ipv6Hdr_LEN net = 40 \<and> UdpHdr_LEN net = 8
     \<and> (\<forall>h. length h = 40 \<longrightarrow> length (ipv6_src_addr net h) = 16 \<and> length (ipv6_dst_addr net h) = 16)"

definition ctx_ok :: "tc_context \<Rightarrow> bool" where
  "ctx_ok ctx \<longleftrightarrow> unat (ctx_data ctx) + length (packet ctx) + 65536 < 2 ^ 64
     \<and> ctx_data_end ctx = ctx_data ctx + of_nat (length (packet ctx))"

definition env_ok :: "kernel_env \<Rightarrow> bool" where
  "env_ok env \<longleftrightarrow> (\<forall>ev. reserve env = Some ev \<longrightarrow> wf_event ev)"

section \<open>The specification: DNS responses in a packet\<close>

text \<open>What the classifier is for, on the bytes of the packet alone: the addresses, ports and
  payload of a DNS response, if the packet is one.\<close>

record dns_packet =
  dp_src :: RawIpAddr
  dp_dst :: RawIpAddr
  dp_src_port :: u16
  dp_dst_port :: u16
  dp_payload :: bytes

definition udp_response :: "net_types \<Rightarrow> bytes \<Rightarrow> nat \<Rightarrow> RawIpAddr \<Rightarrow> RawIpAddr \<Rightarrow> dns_packet option" where
  "udp_response net pkt off src dst =
     (if length pkt \<le> off + 8 then None
      else let u = take 8 (drop off pkt) in
        if udp_src_port net u \<noteq> 53 then None
        else Some \<lparr>dp_src = src, dp_dst = dst, dp_src_port = 53, dp_dst_port = udp_dst_port net u,
                   dp_payload = drop (off + 8) pkt\<rparr>)"

definition dns_response :: "net_types \<Rightarrow> bytes \<Rightarrow> dns_packet option" where
  "dns_response net pkt =
     (if length pkt < 14 then None
      else case ether_type net (take 14 pkt) of
        Some EtherIpv4 \<Rightarrow>
          (let h = take 20 (drop 14 pkt); hl = unat (ipv4_ihl net h) in
           if length pkt < 34 \<or> hl < 20 \<or> 60 < hl \<or> ipv4_proto net h \<noteq> Some ProtoUdp then None
           else udp_response net pkt (14 + hl) (from_ipv4 (ipv4_src_addr net h)) (from_ipv4 (ipv4_dst_addr net h)))
      | Some EtherIpv6 \<Rightarrow>
          (let h = take 40 (drop 14 pkt) in
           if length pkt < 54 \<or> ipv6_next_hdr net h \<noteq> Some ProtoUdp then None
           else udp_response net pkt 54 (from_ipv6 (ipv6_src_addr net h)) (from_ipv6 (ipv6_dst_addr net h)))
      | _ \<Rightarrow> None)"

text \<open>The event for a response, written over the stale contents of the reserved memory.\<close>

definition event_for :: "dns_packet \<Rightarrow> u64 \<Rightarrow> RawDnsEvent \<Rightarrow> RawDnsEvent" where
  "event_for d ts stale =
     (let n = min 512 (length (dp_payload d)) in
      stale\<lparr>ev_src_ip := dp_src d, ev_dst_ip := dp_dst d, ev_src_port := dp_src_port d,
        ev_dst_port := dp_dst_port d, ev_payload_len := of_nat n, ev_timestamp_ns := ts,
        ev_payload := take n (dp_payload d) @ drop n (ev_payload stale)\<rparr>)"

definition events_of :: "net_types \<Rightarrow> kernel_env \<Rightarrow> bytes \<Rightarrow> RawDnsEvent list" where
  "events_of net env pkt =
     (case dns_response net pkt of None \<Rightarrow> []
      | Some d \<Rightarrow> (case reserve env of None \<Rightarrow> [] | Some stale \<Rightarrow> [event_for d (ktime_end env) stale]))"

section \<open>Address arithmetic\<close>

lemma unat_add_no_wrap:
  "unat a + unat b < 2 ^ 64 \<Longrightarrow> unat (a + b :: usize) = unat a + unat b"
  by (simp add: unat_word_ariths)

lemma unat_data_end: "ctx_ok ctx \<Longrightarrow> unat (ctx_data_end ctx) = unat (ctx_data ctx) + length (packet ctx)"
  by (simp add: ctx_ok_def unat_word_ariths unat_of_nat)

lemma ptr_at_exact:
  assumes "ctx_ok ctx" and "unat (ctx_data ctx) + unat off + unat len < 2 ^ 64"
  shows "ptr_at len ctx off =
    (if length (packet ctx) < unat off + unat len then raise () else ret (ctx_data ctx + off))"
proof -
  have 1: "unat (ctx_data ctx + off) = unat (ctx_data ctx) + unat off"
    by (rule unat_add_no_wrap) (use assms(2) in simp)
  have "unat (ctx_data ctx + off + len) = unat (ctx_data ctx) + unat off + unat len"
    by (subst unat_add_no_wrap) (use 1 assms(2) in simp_all)
  then have "ctx_data_end ctx < ctx_data ctx + off + len \<longleftrightarrow> length (packet ctx) < unat off + unat len"
    using unat_data_end [OF assms(1)] by (simp add: word_less_nat_alt)
  then show ?thesis by (simp add: ptr_at_def Let_def)
qed

lemma ptr_at_eq:
  assumes "ctx_ok ctx" and "unat off + unat len < 65536"
  shows "ptr_at len ctx off =
    (if length (packet ctx) < unat off + unat len then raise () else ret (ctx_data ctx + off))"
  by (rule ptr_at_exact [OF assms(1)]) (use assms in \<open>simp add: ctx_ok_def\<close>)

lemma load_eq: "unat off + n \<le> length (packet ctx) \<Longrightarrow>
  load ctx (ctx_data ctx + off) n = ret (take n (drop (unat off) (packet ctx)))"
  by (simp add: load_def)

lemma copy_test:
  assumes "ctx_ok ctx" and "unat off + i < 65000"
  shows "ctx_data_end ctx < ctx_data ctx + (off + of_nat i) + 1 \<longleftrightarrow> length (packet ctx) \<le> unat off + i"
    and "unat (off + of_nat i) = unat off + i"
proof -
  have i: "unat (of_nat i :: usize) = i" using assms(2) by (simp add: unat_of_nat)
  show cur: "unat (off + of_nat i) = unat off + i"
    by (subst unat_add_no_wrap) (use assms(2) i in simp_all)
  have b: "unat (ctx_data ctx) + 65536 < 2 ^ 64" using assms(1) by (simp add: ctx_ok_def)
  have 1: "unat (ctx_data ctx + (off + of_nat i)) = unat (ctx_data ctx) + (unat off + i)"
    by (subst unat_add_no_wrap) (use assms(2) b cur in simp_all)
  have "unat (ctx_data ctx + (off + of_nat i) + 1) = unat (ctx_data ctx) + (unat off + i) + 1"
    by (subst unat_add_no_wrap) (use assms(2) b 1 in simp_all)
  then show "ctx_data_end ctx < ctx_data ctx + (off + of_nat i) + 1 \<longleftrightarrow> length (packet ctx) \<le> unat off + i"
    using unat_data_end [OF assms(1)] by (auto simp: word_less_nat_alt)
qed

lemma copy_loop_eq:
  fixes s :: 's
  assumes "ctx_ok ctx" and "unat off + (i + n) < 65000" and "i + n \<le> length dst"
  shows "copy_loop ctx off n i dst c s =
    (let m = min n (length (packet ctx) - (unat off + i))
     in (Ok (take i dst @ take m (drop (unat off + i) (packet ctx)) @ drop (i + m) dst, c + of_nat m), s))"
  using assms(2,3)
proof (induction n arbitrary: i dst c)
  case 0
  then show ?case by (simp add: ret_def)
next
  case (Suc n)
  let ?p = "packet ctx" and ?k = "unat off + i"
  note t = copy_test [OF assms(1), of off i]
  show ?case
  proof (cases "length ?p \<le> ?k")
    case True
    then show ?thesis using t Suc.prems by (simp add: Let_def ret_def)
  next
    case False
    then have ld: "load ctx (ctx_data ctx + (off + of_nat i)) 1 = (ret [?p ! ?k] :: ('s, unit, bytes) prog)"
      using load_eq [of "off + of_nat i" 1 ctx] t(2) Suc.prems
      by (simp add: take_Suc_conv_app_nth Cons_nth_drop_Suc [symmetric])
    define m where "m = min n (length ?p - (unat off + Suc i))"
    have m: "min (Suc n) (length ?p - ?k) = Suc m" using False by (simp add: m_def)
    have "take (Suc i) (dst[i := ?p ! ?k]) = take i dst @ [?p ! ?k]"
      using Suc.prems by (simp add: take_Suc_conv_app_nth)
    moreover have "drop (Suc i + m) (dst[i := ?p ! ?k]) = drop (i + Suc m) dst" by simp
    moreover have "take (Suc m) (drop ?k ?p) = ?p ! ?k # take m (drop (unat off + Suc i) ?p)"
      using False by (simp add: Cons_nth_drop_Suc [symmetric])
    moreover have "copy_loop ctx off n (i + 1) (dst[i := ?p ! ?k]) (c + 1) s =
        (Ok (take (Suc i) (dst[i := ?p ! ?k]) @ take m (drop (unat off + Suc i) ?p)
           @ drop (Suc i + m) (dst[i := ?p ! ?k]), c + 1 + of_nat m), s)"
      using Suc.IH [of "i + 1" "dst[i := ?p ! ?k]" "c + 1"] Suc.prems by (simp add: Let_def m_def)
    ultimately show ?thesis
      using False t Suc.prems ld m by (simp add: Let_def ac_simps)
  qed
qed

section \<open>The program refines the specification\<close>

lemma net_okD:
  assumes "net_ok net"
  shows "size_EthHdr net = 14" "size_Ipv4Hdr net = 20" "size_Ipv6Hdr net = 40" "size_UdpHdr net = 8"
    "EthHdr_LEN net = 14" "Ipv6Hdr_LEN net = 40" "UdpHdr_LEN net = 8"
  using assms by (simp_all add: net_ok_def)

lemma parse_udp_refines:
  assumes net: "net_ok net" and ctx: "ctx_ok ctx" and env: "env_ok env" and off: "unat off \<le> 74"
    and ips: "wf_ip src" "wf_ip dst"
  shows "parse_udp net env ctx off src dst ring =
    (if length (packet ctx) < unat off + 8 then (Err (), ring)
     else (Ok (TC_ACT_OK net), ring @
       (case udp_response net (packet ctx) (unat off) src dst of None \<Rightarrow> []
        | Some d \<Rightarrow> (case reserve env of None \<Rightarrow> [] | Some stale \<Rightarrow> [event_for d (ktime_end env) stale]))))"
proof (cases "length (packet ctx) < unat off + 8")
  case True
  then have "ptr_at 8 ctx off = (raise () :: (RawDnsEvent list, unit, usize) prog)"
    using ptr_at_eq [OF ctx, of off 8] off by simp
  with True show ?thesis by (simp add: parse_udp_def net_okD [OF net] raise_def)
next
  case False
  let ?p = "packet ctx" and ?u = "take 8 (drop (unat off) (packet ctx))"
  have ptr: "ptr_at 8 ctx off = (ret (ctx_data ctx + off) :: (RawDnsEvent list, unit, usize) prog)"
    using False ptr_at_eq [OF ctx, of off 8] off by simp
  have ld: "load ctx (ctx_data ctx + off) 8 = (ret ?u :: (RawDnsEvent list, unit, bytes) prog)" using False by (intro load_eq) simp
  have po: "unat (off + 8) = unat off + 8" by (subst unat_add_no_wrap) (use off in simp_all)
  have b: "unat (ctx_data ctx) + 65536 < 2 ^ 64" using ctx by (simp add: ctx_ok_def)
  have st: "unat (ctx_data ctx + (off + 8)) = unat (ctx_data ctx) + (unat off + 8)"
    by (subst unat_add_no_wrap) (use b off po in simp_all)
  have avail: "(if ctx_data_end ctx < ctx_data ctx + (off + 8) then 0
      else ctx_data_end ctx - (ctx_data ctx + (off + 8))) = 0 \<longleftrightarrow> length ?p \<le> unat off + 8"
    using st unat_data_end [OF ctx] False
    by (auto simp: word_less_nat_alt word_unat_eq_iff unat_sub_if')
  show ?thesis
  proof (cases "length ?p \<le> unat off + 8 \<or> udp_src_port net ?u \<noteq> 53 \<or> reserve env = None")
    case True
    then show ?thesis using False ptr ld avail
      by (auto simp: parse_udp_def net_okD [OF net] udp_response_def DNS_PORT_def Let_def ret_def
          split: option.splits)
  next
    case go: False
    then obtain stale where stale: "reserve env = Some stale" by auto
    have wf: "wf_ip (ev_src_ip stale)" "wf_ip (ev_dst_ip stale)" "length (ev_payload stale) = 512"
      using env stale by (auto simp: env_ok_def wf_event_def MAX_DNS_PAYLOAD_SIZE_def)
    have "copy_loop ctx (off + 8) 512 0 (ev_payload stale) 0 ring =
      (let m = min 512 (length ?p - (unat off + 8))
       in (Ok (take m (drop (unat off + 8) ?p) @ drop m (ev_payload stale), of_nat m), ring))"
      using copy_loop_eq [OF ctx, of "off + 8" 0 512 "ev_payload stale" 0 ring] po off wf by simp
    then show ?thesis using False go stale ptr ld avail wf ips
      by (simp add: parse_udp_def net_okD [OF net] udp_response_def DNS_PORT_def Let_def ret_def
          write_to_copies event_for_def MAX_DNS_PAYLOAD_SIZE_def)
  qed
qed

lemma header_at:
  assumes "ctx_ok ctx" and "unat off + unat len < 65536"
  shows "bindM (ptr_at len ctx off) (\<lambda>ptr. bindM (load ctx ptr (unat len)) f) =
    (if length (packet ctx) < unat off + unat len then raise ()
     else f (take (unat len) (drop (unat off) (packet ctx))))"
  by (simp add: ptr_at_eq [OF assms] load_eq not_less)

lemma unat_ucast_ihl: "unat (ucast (w :: u8) :: usize) = unat w"
  by (simp add: unsigned_ucast_eq take_bit_nat_eq_self less_trans [OF unat_u8_less])

lemma ipv4_header_len_eq:
  "get_ipv4_header_len net h =
    (if unat (ipv4_ihl net h) < 20 \<or> 60 < unat (ipv4_ihl net h) then raise ()
     else ret (ucast (ipv4_ihl net h)))"
  by (simp add: get_ipv4_header_len_def IPV4_MIN_HDR_LEN_def IPV4_MAX_HDR_LEN_def Let_def
      word_less_nat_alt unat_ucast_ihl)

text \<open>The verdict and the events of one branch: an error of \<open>parse_udp\<close> is a packet too short for
  a UDP header, which is no response either.\<close>

lemma udp_branch:
  assumes "net_ok net" and "ctx_ok ctx" and "env_ok env" and "unat off \<le> 74" and "wf_ip src" and "wf_ip dst"
  shows "bindM (parse_udp net env ctx off src dst) (\<lambda>_. ret (TC_ACT_OK net)) ring =
    (if length (packet ctx) < unat off + 8 then Err () else Ok (TC_ACT_OK net),
     ring @ (case udp_response net (packet ctx) (unat off) src dst of None \<Rightarrow> []
        | Some d \<Rightarrow> (case reserve env of None \<Rightarrow> [] | Some stale \<Rightarrow> [event_for d (ktime_end env) stale])))"
  using parse_udp_refines [OF assms, of ring]
  by (auto simp: ret_def udp_response_def bindM_def)

definition branch_ok :: "net_types \<Rightarrow> kernel_env \<Rightarrow> tc_context \<Rightarrow> RawDnsEvent list \<Rightarrow>
    (unit, i32) outcome \<times> RawDnsEvent list \<Rightarrow> bool" where
  "branch_ok net env ctx ring res \<longleftrightarrow>
     (fst res = Err () \<or> fst res = Ok (TC_ACT_OK net)) \<and> snd res = ring @ events_of net env (packet ctx)"

lemma try_dns_tc_ipv4:
  assumes "net_ok net" and "ctx_ok ctx" and "env_ok env" and "14 \<le> length (packet ctx)"
    and eth: "ether_type net (take 14 (packet ctx)) = Some EtherIpv4"
  shows "branch_ok net env ctx ring (try_dns_tc net env ctx ring)"
proof -
  let ?p = "packet ctx" and ?h = "take 20 (drop 14 (packet ctx))"
  let ?hl = "unat (ipv4_ihl net ?h)"
  note n = net_okD [OF assms(1)]
  note front = try_dns_tc_def n header_at [OF assms(2), of 0 14, simplified]
    header_at [OF assms(2), of 14 20, simplified] ipv4_header_len_eq
  consider "length ?p < 34" | "34 \<le> length ?p" "?hl < 20 \<or> 60 < ?hl"
    | "34 \<le> length ?p" "\<not> (?hl < 20 \<or> 60 < ?hl)" "ipv4_proto net ?h \<noteq> Some ProtoUdp"
    | "34 \<le> length ?p" "\<not> (?hl < 20 \<or> 60 < ?hl)" "ipv4_proto net ?h = Some ProtoUdp"
    by linarith
  then show ?thesis
  proof cases
    case 4
    have off: "unat (14 + ucast (ipv4_ihl net ?h) :: usize) = 14 + ?hl"
      by (subst unat_add_no_wrap) (use 4 in \<open>simp_all add: unat_ucast_ihl\<close>)
    have "dns_response net ?p = udp_response net ?p (14 + ?hl)
        (from_ipv4 (ipv4_src_addr net ?h)) (from_ipv4 (ipv4_dst_addr net ?h))"
      using 4 eth assms(4) by (simp add: dns_response_def Let_def)
    with 4 eth assms(4) off show ?thesis
      by (simp add: front Let_def udp_branch [OF assms(1-3)] branch_ok_def events_of_def)
  qed (use eth assms(4) in \<open>auto simp: front Let_def raise_def ret_def branch_ok_def events_of_def
      dns_response_def split: option.splits IpProto.splits\<close>)
qed

lemma try_dns_tc_ipv6:
  assumes "net_ok net" and "ctx_ok ctx" and "env_ok env" and "14 \<le> length (packet ctx)"
    and eth: "ether_type net (take 14 (packet ctx)) = Some EtherIpv6"
  shows "branch_ok net env ctx ring (try_dns_tc net env ctx ring)"
proof -
  let ?p = "packet ctx" and ?h = "take 40 (drop 14 (packet ctx))"
  note n = net_okD [OF assms(1)]
  note front = try_dns_tc_def n header_at [OF assms(2), of 0 14, simplified]
    header_at [OF assms(2), of 14 40, simplified]
  consider "length ?p < 54" | "54 \<le> length ?p" "ipv6_next_hdr net ?h \<noteq> Some ProtoUdp"
    | "54 \<le> length ?p" "ipv6_next_hdr net ?h = Some ProtoUdp"
    by linarith
  then show ?thesis
  proof cases
    case 3
    have "length ?h = 40" using 3 by simp
    then have "length (ipv6_src_addr net ?h) = 16" "length (ipv6_dst_addr net ?h) = 16"
      using assms(1) by (simp_all add: net_ok_def)
    moreover have "dns_response net ?p = udp_response net ?p 54
        (from_ipv6 (ipv6_src_addr net ?h)) (from_ipv6 (ipv6_dst_addr net ?h))"
      using 3 eth assms(4) by (simp add: dns_response_def Let_def)
    ultimately show ?thesis using 3 eth assms(4)
      by (simp add: front Let_def udp_branch [OF assms(1-3)] branch_ok_def events_of_def)
  qed (use eth assms(4) in \<open>auto simp: front Let_def raise_def ret_def branch_ok_def events_of_def
      dns_response_def split: option.splits IpProto.splits\<close>)
qed

lemma ether_type_cases:
  obtains "e = None \<or> e = Some EtherOther" | "e = Some EtherIpv4" | "e = Some EtherIpv6"
proof (cases e)
  case (Some t)
  then show ?thesis using that by (cases t) auto
qed (use that in auto)

lemma try_dns_tc_refines:
  assumes "net_ok net" and "ctx_ok ctx" and "env_ok env"
  shows "branch_ok net env ctx ring (try_dns_tc net env ctx ring)"
proof -
  let ?p = "packet ctx"
  note front = try_dns_tc_def net_okD [OF assms(1)] header_at [OF assms(2), of 0 14, simplified]
  consider "length ?p < 14" | "14 \<le> length ?p" "ether_type net (take 14 ?p) = Some EtherIpv4"
    | "14 \<le> length ?p" "ether_type net (take 14 ?p) = Some EtherIpv6"
    | "14 \<le> length ?p" "ether_type net (take 14 ?p) = None \<or> ether_type net (take 14 ?p) = Some EtherOther"
    by (rule ether_type_cases [of "ether_type net (take 14 ?p)"]; cases "length ?p < 14") auto
  then show ?thesis
  proof cases
    case 2
    then show ?thesis by (rule try_dns_tc_ipv4 [OF assms])
  next
    case 3
    then show ?thesis by (rule try_dns_tc_ipv6 [OF assms])
  qed (auto simp: front raise_def ret_def branch_ok_def events_of_def dns_response_def)
qed

lemma dns_tc_events:
  assumes "net_ok net" and "ctx_ok ctx" and "env_ok env"
  shows "snd (dns_tc net env ctx ring) = ring @ events_of net env (packet ctx)"
  using try_dns_tc_refines [OF assms, of ring]
  by (auto simp: dns_tc_def branch_ok_def split: prod.splits outcome.splits)

lemma event_for_bounds:
  assumes "wf_event stale" and "wf_ip (dp_src d)" and "wf_ip (dp_dst d)"
  shows "wf_event (event_for d ts stale)" and "unat (ev_payload_len (event_for d ts stale)) \<le> 512"
    and "take (unat (ev_payload_len (event_for d ts stale))) (ev_payload (event_for d ts stale))
      = take 512 (dp_payload d)"
proof -
  define n where "n = min 512 (length (dp_payload d))"
  have n: "unat (of_nat n :: u16) = n" by (simp add: n_def unat_of_nat)
  have e: "event_for d ts stale = stale\<lparr>ev_src_ip := dp_src d, ev_dst_ip := dp_dst d,
      ev_src_port := dp_src_port d, ev_dst_port := dp_dst_port d, ev_payload_len := of_nat n,
      ev_timestamp_ns := ts, ev_payload := take n (dp_payload d) @ drop n (ev_payload stale)\<rparr>"
    by (simp add: event_for_def n_def Let_def)
  have len: "length (take n (dp_payload d)) = n" by (simp add: n_def)
  show "wf_event (event_for d ts stale)"
    using assms len by (simp add: e wf_event_def MAX_DNS_PAYLOAD_SIZE_def n_def)
  show "unat (ev_payload_len (event_for d ts stale)) \<le> 512" by (simp add: e n) (simp add: n_def)
  show "take (unat (ev_payload_len (event_for d ts stale))) (ev_payload (event_for d ts stale))
      = take 512 (dp_payload d)"
    using len by (simp add: e n) (simp add: n_def min_def)
qed

lemma dns_response_wf:
  assumes "net_ok net" and "dns_response net pkt = Some d"
  shows "wf_ip (dp_src d)" and "wf_ip (dp_dst d)"
  using assms unfolding dns_response_def udp_response_def Let_def
  by (auto simp: net_ok_def split: if_splits option.splits EtherType.splits)

section \<open>Properties\<close>

text \<open>A header reader for the witnesses: the fields where Ethernet, IPv4, IPv6 and UDP have them.\<close>

definition sample_net :: net_types where
  "sample_net = \<lparr>size_EthHdr = 14, size_Ipv4Hdr = 20, size_Ipv6Hdr = 40, size_UdpHdr = 8,
     EthHdr_LEN = 14, Ipv6Hdr_LEN = 40, UdpHdr_LEN = 8,
     ether_type = (\<lambda>h. if drop 12 h = [8, 0] then Some EtherIpv4
        else if drop 12 h = [0x86, 0xDD] then Some EtherIpv6 else None),
     ipv4_src_addr = (\<lambda>h. take 4 (drop 12 h)), ipv4_dst_addr = (\<lambda>h. drop 16 h),
     ipv4_ihl = (\<lambda>h. (h ! 0 AND 15) * 4),
     ipv4_proto = (\<lambda>h. if h ! 9 = 17 then Some ProtoUdp else Some ProtoOther),
     ipv6_src_addr = (\<lambda>h. take 16 (drop 8 h)), ipv6_dst_addr = (\<lambda>h. drop 24 h),
     ipv6_next_hdr = (\<lambda>h. if h ! 6 = 17 then Some ProtoUdp else Some ProtoOther),
     udp_src_port = (\<lambda>h. of_be (take 2 h)), udp_dst_port = (\<lambda>h. of_be (take 2 (drop 2 h))),
     TC_ACT_OK = 0\<rparr>"

definition udp_packet :: "bytes \<Rightarrow> bytes" where
  "udp_packet payload = replicate 12 0 @ [8, 0] @ [0x45] @ replicate 8 0 @ [17, 0, 0, 8, 8, 8, 8, 10, 0, 0, 2]
     @ [0, 53, 0x9C, 0x40, 0, 0, 0, 0] @ payload"

definition sample_packet :: bytes where
  "sample_packet = udp_packet [1, 2, 3]"

definition sample_ctx :: "bytes \<Rightarrow> tc_context" where
  "sample_ctx pkt = \<lparr>ctx_data = 4096, ctx_data_end = 4096 + of_nat (length pkt), packet = pkt\<rparr>"

definition sample_env :: kernel_env where
  "sample_env = \<lparr>reserve = Some default_RawDnsEvent, ktime_start = 5, ktime_end = 7\<rparr>"

lemma sample_net_ok: "net_ok sample_net"
  by (simp add: net_ok_def sample_net_def)

lemma sample_ctx_ok: "length pkt < 100000 \<Longrightarrow> ctx_ok (sample_ctx pkt)"
  by (simp add: ctx_ok_def sample_ctx_def)

lemma sample_env_ok: "env_ok sample_env"
  by (simp add: env_ok_def sample_env_def)

text \<open>What the specification reads in that packet.\<close>

lemma udp_packet_parts:
  "length (udp_packet payload) = 42 + length payload"
  "take 14 (udp_packet payload) = replicate 12 0 @ [8, 0]"
  "take 20 (drop 14 (udp_packet payload)) = 0x45 # replicate 8 0 @ [17, 0, 0, 8, 8, 8, 8, 10, 0, 0, 2]"
  "take 8 (drop 34 (udp_packet payload)) = [0, 53, 0x9C, 0x40, 0, 0, 0, 0]"
  "drop 42 (udp_packet payload) = payload"
  by (simp_all add: udp_packet_def)

lemma udp_packet_response:
  assumes "payload \<noteq> []"
  shows "dns_response sample_net (udp_packet payload) = Some \<lparr>dp_src = from_ipv4 [8, 8, 8, 8],
     dp_dst = from_ipv4 [10, 0, 0, 2], dp_src_port = 53, dp_dst_port = 40000, dp_payload = payload\<rparr>"
proof -
  let ?h = "0x45 # replicate 8 0 @ [17, 0, 0, 8, 8, 8, 8, 10, 0, 0, 2] :: bytes"
  let ?u = "[0, 53, 0x9C, 0x40, 0, 0, 0, 0] :: bytes"
  have e: "ether_type sample_net (replicate 12 0 @ [8, 0]) = Some EtherIpv4"
    by (simp add: sample_net_def)
  have i: "unat (ipv4_ihl sample_net ?h) = 20" by (simp add: sample_net_def)
  have p: "ipv4_proto sample_net ?h = Some ProtoUdp" by (simp add: sample_net_def nth_append)
  have a: "ipv4_src_addr sample_net ?h = [8, 8, 8, 8]" "ipv4_dst_addr sample_net ?h = [10, 0, 0, 2]"
    by (simp_all add: sample_net_def)
  have u: "udp_src_port sample_net ?u = 53" "udp_dst_port sample_net ?u = 40000"
    by (simp_all add: sample_net_def of_be_def)
  show ?thesis
    using assms
    by (simp only: dns_response_def udp_response_def udp_packet_parts e i p a Let_def) (simp add: udp_packet_parts u)
qed

lemma udp_packet_ctx_ok: "length payload \<le> 1000 \<Longrightarrow> ctx_ok (sample_ctx (udp_packet payload))"
  by (rule sample_ctx_ok) (simp add: udp_packet_parts)

lemma sample_packet_ok:
  "ctx_ok (sample_ctx sample_packet)"
  "dns_response sample_net sample_packet = Some \<lparr>dp_src = from_ipv4 [8, 8, 8, 8],
     dp_dst = from_ipv4 [10, 0, 0, 2], dp_src_port = 53, dp_dst_port = 40000, dp_payload = [1, 2, 3]\<rparr>"
  by (simp_all add: sample_packet_def udp_packet_ctx_ok udp_packet_response)

text \<open>C1. The classifier implements its specification: on every packet, whatever its bytes, it
  returns the pass verdict, performs no load outside the packet, and appends to the ring exactly the
  event of the DNS response the packet carries, if it carries one and the ring has room.\<close>

theorem dns_tc_refines:
  assumes "net_ok net" and "ctx_ok ctx" and "env_ok env"
  shows "dns_tc net env ctx ring = (Ok (TC_ACT_OK net), ring @ events_of net env (packet ctx))"
  using try_dns_tc_refines [OF assms, of ring]
  by (auto simp: dns_tc_def branch_ok_def split: prod.splits outcome.splits)

theorem dns_tc_refines_witness:
  "dns_tc sample_net sample_env (sample_ctx sample_packet) []
   = (Ok 0, events_of sample_net sample_env sample_packet)
   \<and> length (events_of sample_net sample_env sample_packet) = 1"
proof -
  note c = sample_packet_ok(1)
  have "length (events_of sample_net sample_env sample_packet) = 1"
    by (simp add: events_of_def sample_packet_ok(2)) (simp add: sample_env_def)
  moreover have "TC_ACT_OK sample_net = 0" "packet (sample_ctx sample_packet) = sample_packet"
    by (simp_all add: sample_net_def sample_ctx_def)
  ultimately show ?thesis
    using dns_tc_refines [OF sample_net_ok c sample_env_ok, of "[]"] by simp
qed

text \<open>C25. Every event the classifier submits is well formed, has a \<open>payload_len\<close> of at most 512, and
  carries in its live bytes the first 512 bytes of the response; what lies past \<open>payload_len\<close> is
  whatever the reserved memory held before.\<close>

theorem submitted_events:
  assumes "net_ok net" and "ctx_ok ctx" and "env_ok env" and "reserve env = Some stale"
    and "dns_response net (packet ctx) = Some d"
  shows "\<exists>ev. snd (dns_tc net env ctx ring) = ring @ [ev] \<and> wf_event ev
    \<and> unat (ev_payload_len ev) = min 512 (length (dp_payload d))
    \<and> take (unat (ev_payload_len ev)) (ev_payload ev) = take 512 (dp_payload d)
    \<and> drop (unat (ev_payload_len ev)) (ev_payload ev) = drop (unat (ev_payload_len ev)) (ev_payload stale)
    \<and> ev_src_ip ev = dp_src d \<and> ev_dst_ip ev = dp_dst d \<and> ev_src_port ev = 53
    \<and> ev_timestamp_ns ev = ktime_end env"
proof -
  let ?ev = "event_for d (ktime_end env) stale" and ?n = "min 512 (length (dp_payload d))"
  have "wf_event stale" using assms(3,4) by (simp add: env_ok_def)
  note b = event_for_bounds [OF this dns_response_wf [OF assms(1,5)], of "ktime_end env"]
  have n: "unat (ev_payload_len ?ev) = ?n" by (simp add: event_for_def Let_def unat_of_nat)
  have port: "dp_src_port d = 53"
    using assms(5) by (auto simp: dns_response_def udp_response_def Let_def
        split: if_splits option.splits EtherType.splits)
  have tail: "drop ?n (ev_payload ?ev) = drop ?n (ev_payload stale)"
    by (simp add: event_for_def Let_def)
  show ?thesis
    using b n tail port dns_tc_events [OF assms(1-3), of ring] assms(4,5)
    by (intro exI [of _ ?ev]) (simp add: events_of_def event_for_def Let_def)
qed

theorem submitted_events_witness:
  "\<exists>ev. snd (dns_tc sample_net sample_env (sample_ctx sample_packet) []) = [ev] \<and> wf_event ev
     \<and> unat (ev_payload_len ev) = 3 \<and> ev_timestamp_ns ev = 7"
proof -
  note c = sample_packet_ok(1)
  have r: "reserve sample_env = Some default_RawDnsEvent" by (simp add: sample_env_def)
  have p: "packet (sample_ctx sample_packet) = sample_packet" by (simp add: sample_ctx_def)
  obtain d where d: "dns_response sample_net (packet (sample_ctx sample_packet)) = Some d"
      "dp_payload d = [1, 2, 3]"
    by (simp add: p sample_packet_ok(2))
  have t: "ktime_end sample_env = 7" by (simp add: sample_env_def)
  show ?thesis
    using submitted_events [OF sample_net_ok c sample_env_ok r d(1), of "[]"] d(2) t by auto
qed

text \<open>C26. \<open>ptr_at\<close> on its own, with the address arithmetic at 64 bits, wherever start, offset and size do not
  add up past the address space (offsets and sizes below 64 KiB never do): it returns the address at
  the offset exactly if the type fits into the packet there and is an error otherwise, and the
  returned pointer can be read for the whole size of the type without leaving the packet. The witness
  shows beside it that the condition is needed: an offset for which the sum wraps passes the check with
  an address outside the packet.\<close>

theorem ptr_at_safe:
  assumes "ctx_ok ctx" and "unat (ctx_data ctx) + unat off + unat len < 2 ^ 64"
  shows "ptr_at len ctx off s =
      (if unat off + unat len \<le> length (packet ctx) then (Ok (ctx_data ctx + off), s) else (Err (), s))
    \<and> (\<forall>ptr s'. ptr_at len ctx off s = (Ok ptr, s') \<longrightarrow>
        load ctx ptr (unat len) s' = (Ok (take (unat len) (drop (unat off) (packet ctx))), s')
        \<and> unat (ctx_data ctx) \<le> unat ptr \<and> unat ptr + unat len \<le> unat (ctx_data_end ctx))"
proof (intro conjI allI impI)
  note eq = ptr_at_exact [OF assms]
  show "ptr_at len ctx off s =
      (if unat off + unat len \<le> length (packet ctx) then (Ok (ctx_data ctx + off), s) else (Err (), s))"
    by (simp add: eq raise_def ret_def)
  fix ptr s'
  assume "ptr_at len ctx off s = (Ok ptr, s')"
  then have le: "unat off + unat len \<le> length (packet ctx)" and ptr: "ptr = ctx_data ctx + off"
    by (auto simp: eq raise_def ret_def split: if_splits)
  have "unat ptr = unat (ctx_data ctx) + unat off"
    unfolding ptr by (rule unat_add_no_wrap) (use assms(2) in simp)
  then show "load ctx ptr (unat len) s' = (Ok (take (unat len) (drop (unat off) (packet ctx))), s')"
      "unat (ctx_data ctx) \<le> unat ptr" "unat ptr + unat len \<le> unat (ctx_data_end ctx)"
    using le ptr unat_data_end [OF assms(1)] by (simp_all add: load_eq ret_def)
qed

theorem ptr_at_safe_witness:
  "ptr_at 2 (sample_ctx [1, 2, 3]) 1 () = (Ok 4097, ()) \<and> load (sample_ctx [1, 2, 3]) 4097 2 () = (Ok [2, 3], ())
   \<and> ptr_at 2 (sample_ctx [1, 2, 3]) 2 () = (Err (), ())
   \<and> ptr_at 2 (sample_ctx [1, 2, 3]) (- 4096) () = (Ok 0, ())"
proof -
  have c: "ctx_ok (sample_ctx [1, 2, 3])" by (rule sample_ctx_ok) simp
  note safe = ptr_at_safe [OF c, of _ 2 "()"]
  have "ptr_at 2 (sample_ctx [1, 2, 3]) 1 () = (Ok 4097, ())" "load (sample_ctx [1, 2, 3]) 4097 2 () = (Ok [2, 3], ())"
    using safe [of 1] by (simp_all add: sample_ctx_def)
  moreover have "ptr_at 2 (sample_ctx [1, 2, 3]) 2 () = (Err (), ())"
    using safe [of 2] by (simp add: sample_ctx_def)
  moreover have "ptr_at 2 (sample_ctx [1, 2, 3]) (- 4096) () = (Ok 0, ())" by code_simp
  ultimately show ?thesis by simp
qed

end
