(* ===== verification/Liveness.thy ===== *)
theory Liveness
  imports Pipeline
begin

text \<open>
  Progress of the running topology (\<open>cilium-mini-rs/src/topology.rs\<close>). Each rule of \<open>step\<close> belongs to
  the kernel or to one of three actors. \<open>work\<close> bounds how much the actors can do before the kernel
  submits something new. With items coming in for ever, a scheduler that is weakly fair to each actor
  brings every item through the ring and both channels: the locale \<open>fifo_stage\<close> shows it for one queue
  and is interpreted on all three. \<open>Event_Loop\<close> uses both for the reader's loop with its wake-ups.
\<close>

section \<open>Actors\<close>

datatype actor = Reader | Parser | Writer

fun moved :: "actor \<Rightarrow> ('c, 'd, 'o, 'w) topology \<Rightarrow> ('c, 'd, 'o, 'w) topology \<Rightarrow> bool" where
  "moved Reader s t \<longleftrightarrow> length (ring t) < length (ring s)"
| "moved Parser s t \<longleftrightarrow> parser_current t \<noteq> parser_current s \<or> parser_task t \<noteq> parser_task s"
| "moved Writer s t \<longleftrightarrow> writer_current t \<noteq> writer_current s \<or> writer_task t \<noteq> writer_task s"

definition enabled :: "actor \<Rightarrow> ('c, 'd, 'o, 'e, 'w) world \<Rightarrow> ('c, 'd, 'o, 'w) topology \<Rightarrow> bool" where
  "enabled A W s \<longleftrightarrow> (\<exists>l t. step W s l t \<and> moved A s t)"

lemma enabledI: "step W s l t \<Longrightarrow> moved A s t \<Longrightarrow> enabled A W s"
  by (auto simp: enabled_def)

text \<open>Every step is the kernel's or some actor's.\<close>

lemma step_actor:
  assumes "step W s l t"
  shows "(\<exists>item. l = [Kernel item] \<and> t = s\<lparr>ring := ring s @ [item]\<rparr>) \<or> (\<exists>A. moved A s t)"
  using assms
proof cases
  case (reader_item item rest st c)
  then have "moved Reader s t" by simp
  then show ?thesis by blast
next
  case (parser_recv ev)
  then have "moved Parser s t" by simp
  then show ?thesis by blast
next
  case (parser_event ev st resp obs d)
  then have "moved Parser s t" by simp
  then show ?thesis by blast
next
  case parser_end
  then have "moved Parser s t" by simp
  then show ?thesis by blast
next
  case writer_open
  then have "moved Writer s t" by simp
  then show ?thesis by blast
next
  case (writer_recv r)
  then have "moved Writer s t" by simp
  then show ?thesis by blast
next
  case (writer_event r buf bw)
  then have "moved Writer s t" by simp
  then show ?thesis by blast
next
  case (writer_end f)
  then have "moved Writer s t" by simp
  then show ?thesis by blast
qed blast

text \<open>The file answers every write of the log, whatever the buffer holds.\<close>

lemma writer_step_returns:
  assumes "appends os content" and "progress os rank"
  shows "\<exists>buf' bw'. file_writer_step os encode r (buf, bw) = Some (buf', bw')"
proof -
  obtain ok b where e: "encode r [] = (ok, b)" by fastforce
  obtain bw' where "write_record os b bw = Some (True, bw')" using write_record_complete [OF assms] by blast
  with e show ?thesis by (cases ok) (auto simp: file_writer_step_def)
qed

section \<open>When an actor can move\<close>

definition healthy :: "('c, 'd, 'o, 'e, 'w) world \<Rightarrow> bool" where
  "healthy W \<longleftrightarrow> open_log W
     \<and> (\<forall>r buf bw. \<exists>buf' bw'. file_writer_step (log_write W) (log_encode W) r (buf, bw) = Some (buf', bw'))"

lemma healthyI:
  assumes "open_log W" and "appends (log_write W) content" and "progress (log_write W) rank"
  shows "healthy W"
  using assms writer_step_returns [OF assms(2,3)] by (simp add: healthy_def)

definition tasks_up :: "('c, 'd, 'o, 'w) topology \<Rightarrow> bool" where
  "tasks_up s \<longleftrightarrow> reader_task s = Running \<and> parser_task s = Running
     \<and> (writer_task s = Starting \<or> writer_task s = Running)"

lemma alive_tasks_up: "open_log W \<Longrightarrow> alive keeps W v1 s \<Longrightarrow> tasks_up s"
  by (simp add: alive_def tasks_up_def)

lemma reader_enabled:
  assumes "tasks_up s" and "ring s \<noteq> []"
  shows "enabled Reader W s"
proof -
  obtain item rest where r: "ring s = item # rest" using assms(2) by (cases "ring s") auto
  obtain st c where e: "ebpf_reader_step (raw_ops W) item (raw_chan s) = (st, c)" by fastforce
  have "reader_task s = Running" using assms(1) by (simp add: tasks_up_def)
  from reader_item [OF this r e] show ?thesis by (rule enabledI) (simp add: r)
qed

lemma recv_head:
  assumes "channel_ok ops cap view" and "queue (view c) \<noteq> []"
  shows "recv_ref ops c = Item (hd (queue (view c)))"
  using channel_okD(2) [OF assms(1), of c] assms(2) by (cases "recv_ref ops c") (auto simp: recv_ok_def)

lemma parser_enabled:
  assumes "channel_ok (raw_ops W) cap v1" and "tasks_up s" and "queue (v1 (raw_chan s)) \<noteq> []"
  shows "enabled Parser W s"
proof (cases "parser_current s")
  case None
  have "parser_task s = Running" using assms(2) by (simp add: tasks_up_def)
  from parser_recv [OF this None recv_head [OF assms(1,3)]] show ?thesis by (rule enabledI) (simp add: None)
next
  case (Some ev)
  obtain st resp obs d where
    "dns_parser_step (obs_update W) (dns_ops W) ev (local_response s, observer s, dns_chan s) = (st, resp, obs, d)"
    by (metis prod.exhaust)
  from parser_event [OF Some this] show ?thesis by (rule enabledI) (simp add: Some)
qed

lemma writer_enabled:
  assumes "channel_ok (dns_ops W) cap v2" and "healthy W" and "tasks_up s"
    and "writer_task s = Running \<Longrightarrow> queue (v2 (dns_chan s)) \<noteq> []"
  shows "enabled Writer W s"
proof (cases "writer_task s = Starting")
  case True
  from writer_open [OF this, of W] show ?thesis by (rule enabledI) (simp add: True)
next
  case False
  then have run: "writer_task s = Running" using assms(3) by (simp add: tasks_up_def)
  show ?thesis
  proof (cases "writer_current s")
    case None
    from writer_recv [OF run None recv_head [OF assms(1) assms(4) [OF run]]] show ?thesis by (rule enabledI) (simp add: None)
  next
    case (Some r)
    obtain buf bw where "file_writer_step (log_write W) (log_encode W) r (proto_buffer s, log_writer s) = Some (buf, bw)"
      using assms(2) unfolding healthy_def by blast
    from writer_event [OF Some this] show ?thesis by (rule enabledI) (simp add: Some)
  qed
qed

section \<open>A measure of what is left to do\<close>

definition work :: "('c \<Rightarrow> RawDnsEvent chan_view) \<Rightarrow> ('d \<Rightarrow> DnsResponse chan_view) \<Rightarrow>
    ('c, 'd, 'o, 'w) topology \<Rightarrow> nat" where
  "work v1 v2 s = 5 * length (ring s) + 4 * length (queue (v1 (raw_chan s))) + 2 * length (queue (v2 (dns_chan s)))
     + (if parser_current s = None then 1 else 0) + (if writer_current s = None then 1 else 0)
     + (if parser_task s = Running then 1 else 0)
     + (case writer_task s of Starting \<Rightarrow> 2 | Running \<Rightarrow> 1 | _ \<Rightarrow> 0)"

lemma work_decreases:
  assumes c1: "channel_ok (raw_ops W) CHANNEL_CAPACITY v1" and c2: "channel_ok (dns_ops W) CHANNEL_CAPACITY v2"
    and ti: "task_inv v1 v2 s" and "step W s l t" and "moved A s t"
  shows "work v1 v2 t < work v1 v2 s"
proof -
  note views = channel_okD(4-) [OF c1] channel_okD(4-) [OF c2]
  from assms(4) show ?thesis
  proof cases
    case (kernel_submit item)
    with assms(5) show ?thesis by (cases A) simp_all
  next
    case (reader_item item rest st c)
    from reader_item(5) show ?thesis
      by (cases rule: reader_step_cases)
        (use reader_item in \<open>simp_all add: work_def channel_okD(3) [OF c1] views\<close>)
  next
    case (parser_event ev st resp obs d)
    have ne: "queue (v1 (raw_chan s)) \<noteq> []" and run: "parser_task s = Running"
      using ti parser_event(3) by (simp_all add: task_inv_def)
    from ne have "Suc (length (tl (queue (v1 (raw_chan s))))) = length (queue (v1 (raw_chan s)))" by simp
    moreover have "length (queue (v2 d)) \<le> Suc (length (queue (v2 (dns_chan s))))"
      using parser_event(4) by (cases rule: parser_step_cases) (simp_all add: channel_okD(3) [OF c2])
    ultimately show ?thesis using parser_event run
      by (simp add: work_def views del: length_tl split: task.splits)
  next
    case (writer_event r buf bw)
    have "queue (v2 (dns_chan s)) \<noteq> []" using ti writer_event(3) by (simp add: task_inv_def)
    then have "Suc (length (tl (queue (v2 (dns_chan s))))) = length (queue (v2 (dns_chan s)))" by simp
    with writer_event show ?thesis by (simp add: work_def views del: length_tl)
  qed (simp_all add: work_def views split: task.splits)
qed

lemma work_bound:
  assumes "task_inv v1 v2 s"
  shows "work v1 v2 s \<le> 5 * length (ring s) + 6005"
  using assms by (simp add: task_inv_def work_def CHANNEL_CAPACITY_def split: task.splits)

lemma moved_submits_nothing:
  assumes "step W s l t" and "moved A s t"
  shows "submitted l = []"
  using assms(1)
proof cases
  case (kernel_submit item)
  then show ?thesis using assms(2) by (cases A) simp_all
qed (auto simp: reader_labels_def parser_labels_def split: send_ref.splits prod.splits outcome.splits)

section \<open>How a queue evolves\<close>

text \<open>One step leaves a queue as it is, appends to it, or takes its head.\<close>

definition queue_step :: "'a list \<Rightarrow> 'a list \<Rightarrow> bool" where
  "queue_step q q' \<longleftrightarrow> q' = q \<or> (\<exists>x. q' = q @ [x]) \<or> (q \<noteq> [] \<and> q' = tl q)"

lemma queue_step_refl [simp]: "queue_step q q"
  by (simp add: queue_step_def)

lemma not_tl [simp]: "q @ [x] = tl q \<longleftrightarrow> False" "q = tl q \<longleftrightarrow> q = []"
proof -
  have "length (q @ [x]) \<noteq> length (tl q)" by simp
  then show "q @ [x] = tl q \<longleftrightarrow> False" by metis
  show "q = tl q \<longleftrightarrow> q = []" by (cases q) simp_all
qed

lemma ring_step:
  assumes "step W s l t"
  shows "queue_step (ring s) (ring t)"
  using assms by cases (simp_all add: queue_step_def)

lemma raw_step:
  assumes c1: "channel_ok (raw_ops W) CHANNEL_CAPACITY v1" and "task_inv v1 v2 s" and "step W s l t"
  shows "queue_step (queue (v1 (raw_chan s))) (queue (v1 (raw_chan t)))"
  using assms(3)
proof cases
  case (reader_item item rest st c)
  from reader_item(5) show ?thesis
    by (cases rule: reader_step_cases)
      (use reader_item in \<open>auto simp: queue_step_def channel_okD(3-) [OF c1]\<close>)
next
  case (parser_event ev st resp obs d)
  with assms(2) show ?thesis by (simp add: queue_step_def task_inv_def channel_okD(4-) [OF c1])
qed (simp_all add: channel_okD(4-) [OF c1])

lemma dns_step:
  assumes c2: "channel_ok (dns_ops W) CHANNEL_CAPACITY v2" and "task_inv v1 v2 s" and "step W s l t"
  shows "queue_step (queue (v2 (dns_chan s))) (queue (v2 (dns_chan t)))"
  using assms(3)
proof cases
  case (parser_event ev st resp obs d)
  from parser_event(4) show ?thesis
    by (cases rule: parser_step_cases)
      (use parser_event in \<open>auto simp: queue_step_def channel_okD(3-) [OF c2]\<close>)
next
  case (writer_event r buf bw)
  with assms(2) show ?thesis by (simp add: queue_step_def task_inv_def channel_okD(4-) [OF c2])
qed (simp_all add: channel_okD(4-) [OF c2])

text \<open>What happens to the head of a queue when it is taken.\<close>

lemma reader_takes:
  assumes c1: "channel_ok (raw_ops W) CHANNEL_CAPACITY v1" and ti: "task_inv v1 v2 s" and up: "tasks_up s"
    and "step W s l t" and ne: "ring s \<noteq> []" and tl: "ring t = tl (ring s)" and len: "length (hd (ring s)) = 576"
  shows "DropRaw (hd (ring s)) \<in> set l \<and> length (queue (v1 (raw_chan s))) = CHANNEL_CAPACITY
    \<or> queue (v1 (raw_chan t)) = queue (v1 (raw_chan s)) @ [event_of_bytes (hd (ring s))]"
  using assms(4)
proof cases
  case (reader_item item rest st c)
  have so: "send_ok CHANNEL_CAPACITY (v1 (raw_chan s)) (try_send_ref (raw_ops W) (raw_chan s))"
    by (rule channel_okD(1) [OF c1])
  from reader_item(5) show ?thesis
    by (cases rule: reader_step_cases)
      (use reader_item so ti up len in \<open>auto simp: channel_okD(3-) [OF c1] send_ok_def task_inv_def tasks_up_def\<close>)
qed (use ne tl in \<open>auto\<close>)

lemma parser_takes:
  assumes c1: "channel_ok (raw_ops W) CHANNEL_CAPACITY v1" and c2: "channel_ok (dns_ops W) CHANNEL_CAPACITY v2"
    and ti: "task_inv v1 v2 s" and up: "tasks_up t" and "step W s l t"
    and ne: "queue (v1 (raw_chan s)) \<noteq> []" and tl: "queue (v1 (raw_chan t)) = tl (queue (v1 (raw_chan s)))"
    and r: "event_response (hd (queue (v1 (raw_chan s)))) = Some r"
  shows "Observed r \<in> set l \<and> (DropDns r \<in> set l \<and> length (queue (v2 (dns_chan s))) = CHANNEL_CAPACITY
    \<or> queue (v2 (dns_chan t)) = queue (v2 (dns_chan s)) @ [r])"
  using assms(5)
proof cases
  case (reader_item item rest st c)
  from reader_item(5) show ?thesis
    by (cases rule: reader_step_cases)
      (use reader_item ne tl in \<open>auto simp: channel_okD(3-) [OF c1]\<close>)
next
  case (parser_event ev st resp obs d)
  have so: "send_ok CHANNEL_CAPACITY (v2 (dns_chan s)) (try_send_ref (dns_ops W) (dns_chan s))"
    by (rule channel_okD(1) [OF c2])
  have ev: "hd (queue (v1 (raw_chan s))) = ev" and st: "st = Running"
    using ti up parser_event by (simp_all add: task_inv_def tasks_up_def)
  from parser_event(4) show ?thesis
  proof (cases rule: parser_step_cases)
    case skip
    then show ?thesis using r ev by simp
  next
    case (sent r' old)
    then show ?thesis using parser_event r ev st by (simp add: channel_okD(3) [OF c2])
  next
    case (lost r')
    then have "try_send_ref (dns_ops W) (dns_chan s) = SendFull"
      using st by (cases "try_send_ref (dns_ops W) (dns_chan s)") (auto split: if_splits)
    then have "length (queue (v2 (dns_chan s))) = CHANNEL_CAPACITY"
      using so ti by (simp add: send_ok_def task_inv_def)
    then show ?thesis using lost parser_event(1) r ev by simp
  qed
qed (use ne tl in \<open>auto simp: channel_okD(4-) [OF c1]\<close>)

lemma writer_takes:
  assumes c2: "channel_ok (dns_ops W) CHANNEL_CAPACITY v2" and ti: "task_inv v1 v2 s" and "step W s l t"
    and ne: "queue (v2 (dns_chan s)) \<noteq> []" and tl: "queue (v2 (dns_chan t)) = tl (queue (v2 (dns_chan s)))"
  shows "Logged (hd (queue (v2 (dns_chan s)))) \<in> set l"
  using assms(3)
proof cases
  case (parser_event ev st resp obs d)
  from parser_event(4) show ?thesis
    by (cases rule: parser_step_cases)
      (use parser_event ne tl in \<open>auto simp: channel_okD(3-) [OF c2] split: if_splits\<close>)
next
  case (writer_event r buf bw)
  then show ?thesis using ti by (simp add: task_inv_def)
qed (use ne tl in \<open>auto simp: channel_okD(4-) [OF c2] split: if_splits\<close>)

section \<open>Fair runs\<close>

text \<open>A run that goes on for ever; an index where nothing happens repeats the state.\<close>

definition behaviour ::
  "('c, 'd, 'o, 'e, 'w) world \<Rightarrow> (nat \<Rightarrow> ('c, 'd, 'o, 'w) topology) \<Rightarrow> (nat \<Rightarrow> label list) \<Rightarrow> bool" where
  "behaviour W \<sigma> lab \<longleftrightarrow>
     (\<forall>i. step W (\<sigma> i) (lab i) (\<sigma> (Suc i)) \<or> lab i = [] \<and> \<sigma> (Suc i) = \<sigma> i)"

text \<open>Weak fairness: an actor that stays able to move does move.\<close>

definition weakly_fair :: "('s \<Rightarrow> bool) \<Rightarrow> ('s \<Rightarrow> 's \<Rightarrow> bool) \<Rightarrow> (nat \<Rightarrow> 's) \<Rightarrow> bool" where
  "weakly_fair can does \<sigma> \<longleftrightarrow> (\<forall>i. \<exists>j\<ge>i. \<not> can (\<sigma> j) \<or> does (\<sigma> j) (\<sigma> (Suc j)))"

definition fair :: "actor \<Rightarrow> ('c, 'd, 'o, 'e, 'w) world \<Rightarrow> (nat \<Rightarrow> ('c, 'd, 'o, 'w) topology) \<Rightarrow> bool" where
  "fair A W = weakly_fair (enabled A W) (moved A)"

definition trace_upto :: "(nat \<Rightarrow> label list) \<Rightarrow> nat \<Rightarrow> label list" where
  "trace_upto lab n = concat (map lab [0..<n])"

lemma trace_upto_simps [simp]: "trace_upto lab 0 = []" "trace_upto lab (Suc n) = trace_upto lab n @ lab n"
  by (simp_all add: trace_upto_def)

lemma behaviour_runs: "behaviour W \<sigma> lab \<Longrightarrow> runs W (\<sigma> 0) (trace_upto lab n) (\<sigma> n)"
proof (induction n)
  case (Suc n)
  then have "step W (\<sigma> n) (lab n) (\<sigma> (Suc n)) \<or> lab n = [] \<and> \<sigma> (Suc n) = \<sigma> n" by (simp add: behaviour_def)
  with Suc runs_step [of W "\<sigma> 0" _ "\<sigma> n"] show ?case by auto
qed (simp add: runs_start)

lemma behaviour_suffix: "behaviour W \<sigma> lab \<Longrightarrow> behaviour W (\<lambda>i. \<sigma> (i + n)) (\<lambda>i. lab (i + n))"
  by (simp add: behaviour_def)

lemma behaviour_between:
  assumes "behaviour W \<sigma> lab" and "i \<le> j"
  obtains tr where "runs W (\<sigma> i) tr (\<sigma> j)"
  using behaviour_runs [OF behaviour_suffix [OF assms(1), of i], of "j - i"] assms(2) by simp

lemma moved_irrefl: "\<not> moved A s s"
  by (cases A) simp_all

lemma moved_step: "behaviour W \<sigma> lab \<Longrightarrow> moved A (\<sigma> j) (\<sigma> (Suc j)) \<Longrightarrow> step W (\<sigma> j) (lab j) (\<sigma> (Suc j))"
  unfolding behaviour_def using moved_irrefl by metis

text \<open>From a condition that lasts until the actor moves and under which it can, a move follows.\<close>

lemma weakly_fair_leads:
  assumes "weakly_fair can does \<sigma>" and "P (\<sigma> i)"
    and keep: "\<And>j. i \<le> j \<Longrightarrow> P (\<sigma> j) \<Longrightarrow> \<not> does (\<sigma> j) (\<sigma> (Suc j)) \<Longrightarrow> P (\<sigma> (Suc j))"
    and can: "\<And>j. i \<le> j \<Longrightarrow> P (\<sigma> j) \<Longrightarrow> can (\<sigma> j)"
  shows "\<exists>j\<ge>i. P (\<sigma> j) \<and> does (\<sigma> j) (\<sigma> (Suc j))"
proof (rule ccontr)
  assume no: "\<not> ?thesis"
  have "P (\<sigma> j)" if "i \<le> j" for j
    using that
  proof (induction rule: dec_induct)
    case (step n)
    then show ?case using keep [of n] no by blast
  qed (use assms(2) in blast)
  then show False using assms(1) can no unfolding weakly_fair_def by blast
qed

lemma leads_to_move:
  assumes "fair A W \<sigma>" and "P (\<sigma> i)"
    and "\<And>j. P (\<sigma> j) \<Longrightarrow> \<not> moved A (\<sigma> j) (\<sigma> (Suc j)) \<Longrightarrow> P (\<sigma> (Suc j))"
    and "\<And>j. P (\<sigma> j) \<Longrightarrow> enabled A W (\<sigma> j)"
  shows "\<exists>j\<ge>i. P (\<sigma> j) \<and> moved A (\<sigma> j) (\<sigma> (Suc j))"
  using assms unfolding fair_def by (intro weakly_fair_leads)

section \<open>A queue with a fair server\<close>

definition takes :: "('s \<Rightarrow> 'a list) \<Rightarrow> (nat \<Rightarrow> 's) \<Rightarrow> nat \<Rightarrow> bool" where
  "takes q \<sigma> j \<longleftrightarrow> q (\<sigma> j) \<noteq> [] \<and> q (\<sigma> (Suc j)) = tl (q (\<sigma> j))"

locale fifo_stage =
  fixes Run :: "(nat \<Rightarrow> 's) \<Rightarrow> bool" and q :: "'s \<Rightarrow> 'a list"
  assumes evolves: "Run \<sigma> \<Longrightarrow> queue_step (q (\<sigma> i)) (q (\<sigma> (Suc i)))"
    and served: "Run \<sigma> \<Longrightarrow> q (\<sigma> i) \<noteq> [] \<Longrightarrow> \<exists>j\<ge>i. takes q \<sigma> j"
begin

lemma grows_until:
  assumes "Run \<sigma>" and "i \<le> j" and "\<forall>k. i \<le> k \<and> k < j \<longrightarrow> \<not> takes q \<sigma> k"
  shows "prefix (q (\<sigma> i)) (q (\<sigma> j))"
  using assms(2,3)
proof (induction rule: dec_induct)
  case (step n)
  then have p: "prefix (q (\<sigma> i)) (q (\<sigma> n))" and "\<not> takes q \<sigma> n" by simp_all
  with evolves [OF assms(1), of n] have "q (\<sigma> (Suc n)) = q (\<sigma> n) \<or> (\<exists>x. q (\<sigma> (Suc n)) = q (\<sigma> n) @ [x])"
    by (auto simp: queue_step_def takes_def)
  then show ?case using p by auto
qed simp

lemma next_take:
  assumes "Run \<sigma>" and "q (\<sigma> i) \<noteq> []"
  obtains j where "i \<le> j" and "takes q \<sigma> j" and "prefix (q (\<sigma> i)) (q (\<sigma> j))"
proof -
  let ?j = "LEAST j. i \<le> j \<and> takes q \<sigma> j"
  have "\<exists>j. i \<le> j \<and> takes q \<sigma> j" using served [OF assms] by blast
  then have j: "i \<le> ?j \<and> takes q \<sigma> ?j" by (rule LeastI_ex)
  moreover have "\<forall>k. i \<le> k \<and> k < ?j \<longrightarrow> \<not> takes q \<sigma> k" using not_less_Least by blast
  ultimately show ?thesis using grows_until [OF assms(1)] that by blast
qed

text \<open>Every element of the queue comes to its head and is taken there.\<close>

lemma taken:
  assumes "Run \<sigma>" and "p < length (q (\<sigma> i))"
  shows "\<exists>j\<ge>i. takes q \<sigma> j \<and> hd (q (\<sigma> j)) = q (\<sigma> i) ! p"
  using assms(2)
proof (induction p arbitrary: i)
  case 0
  then have ne: "q (\<sigma> i) \<noteq> []" by simp
  obtain j where "i \<le> j" "takes q \<sigma> j" "prefix (q (\<sigma> i)) (q (\<sigma> j))"
    by (rule next_take [OF assms(1) ne])
  with 0 show ?case by (auto simp: takes_def prefix_def hd_conv_nth nth_append intro!: exI [of _ j])
next
  case (Suc p)
  then have ne: "q (\<sigma> i) \<noteq> []" by auto
  obtain j where j: "i \<le> j" "takes q \<sigma> j" "prefix (q (\<sigma> i)) (q (\<sigma> j))"
    by (rule next_take [OF assms(1) ne])
  then obtain zs where zs: "q (\<sigma> j) = q (\<sigma> i) @ zs" by (auto simp: prefix_def)
  have "p < length (q (\<sigma> (Suc j)))" "q (\<sigma> (Suc j)) ! p = q (\<sigma> i) ! Suc p"
    using j(2) zs Suc.prems by (simp_all add: takes_def nth_tl nth_append)
  with Suc.IH [of "Suc j"] j(1) show ?case by (metis Suc_leD order.trans)
qed

lemma last_taken:
  assumes "Run \<sigma>" and "q (\<sigma> (Suc i)) = q (\<sigma> i) @ [x]"
  obtains j where "i < j" and "takes q \<sigma> j" and "hd (q (\<sigma> j)) = x"
  using taken [OF assms(1), of "length (q (\<sigma> i))" "Suc i"] assms(2) by (auto simp: less_eq_Suc_le)

end

section \<open>The three stages\<close>

definition live_run :: "('c, 'd, 'o, 'e, 'w) world \<Rightarrow> ('c \<Rightarrow> RawDnsEvent chan_view) \<Rightarrow> ('d \<Rightarrow> DnsResponse chan_view) \<Rightarrow>
    (nat \<Rightarrow> ('c, 'd, 'o, 'w) topology) \<Rightarrow> bool" where
  "live_run W v1 v2 \<sigma> \<longleftrightarrow>
     channel_ok (raw_ops W) CHANNEL_CAPACITY v1 \<and> channel_ok (dns_ops W) CHANNEL_CAPACITY v2 \<and> healthy W
     \<and> (\<exists>lab. behaviour W \<sigma> lab) \<and> (\<forall>A. fair A W \<sigma>) \<and> (\<forall>i. task_inv v1 v2 (\<sigma> i)) \<and> (\<forall>i. tasks_up (\<sigma> i))"

lemma live_runD:
  assumes "live_run W v1 v2 \<sigma>"
  shows "channel_ok (raw_ops W) CHANNEL_CAPACITY v1" and "channel_ok (dns_ops W) CHANNEL_CAPACITY v2"
    and "healthy W" and "fair A W \<sigma>" and "task_inv v1 v2 (\<sigma> i)" and "tasks_up (\<sigma> i)"
    and "(\<exists>l. step W (\<sigma> i) l (\<sigma> (Suc i))) \<or> \<sigma> (Suc i) = \<sigma> i"
  using assms unfolding live_run_def behaviour_def by blast+

lemma reader_pops:
  assumes "queue_step (ring s) (ring t)" and "moved Reader s t"
  shows "ring s \<noteq> [] \<and> ring t = tl (ring s)"
  using assms by (auto simp: queue_step_def)

text \<open>Only the parser shortens the raw queue, and only with an event in hand.\<close>

lemma parser_pops:
  assumes c1: "channel_ok (raw_ops W) CHANNEL_CAPACITY v1" and "task_inv v1 v2 s" and "step W s l t"
  shows "parser_current s = Some ev \<Longrightarrow> moved Parser s t \<Longrightarrow>
      queue (v1 (raw_chan s)) \<noteq> [] \<and> queue (v1 (raw_chan t)) = tl (queue (v1 (raw_chan s)))"
    and "\<not> moved Parser s t \<Longrightarrow> queue (v1 (raw_chan s)) \<noteq> [] \<Longrightarrow> queue (v1 (raw_chan t)) \<noteq> []"
proof -
  show "queue (v1 (raw_chan s)) \<noteq> [] \<and> queue (v1 (raw_chan t)) = tl (queue (v1 (raw_chan s)))"
    if "parser_current s = Some ev" "moved Parser s t"
    using assms(3) by cases (use that assms(2) in \<open>auto simp: task_inv_def channel_okD(4-) [OF c1]\<close>)
  show "queue (v1 (raw_chan t)) \<noteq> []" if "\<not> moved Parser s t" "queue (v1 (raw_chan s)) \<noteq> []"
    using assms(3)
  proof cases
    case (reader_item item rest st c)
    from reader_item(5) show ?thesis
      by (cases rule: reader_step_cases) (use that reader_item in \<open>auto simp: channel_okD(3-) [OF c1]\<close>)
  qed (use that in \<open>auto simp: channel_okD(4-) [OF c1]\<close>)
qed

lemma writer_pops:
  assumes c2: "channel_ok (dns_ops W) CHANNEL_CAPACITY v2" and "task_inv v1 v2 s" and "step W s l t"
  shows "writer_current s = Some r \<Longrightarrow> moved Writer s t \<Longrightarrow>
      queue (v2 (dns_chan s)) \<noteq> [] \<and> queue (v2 (dns_chan t)) = tl (queue (v2 (dns_chan s)))"
    and "writer_current s = None \<Longrightarrow> queue (v2 (dns_chan s)) \<noteq> [] \<Longrightarrow> queue (v2 (dns_chan t)) \<noteq> []"
proof -
  show "queue (v2 (dns_chan s)) \<noteq> [] \<and> queue (v2 (dns_chan t)) = tl (queue (v2 (dns_chan s)))"
    if "writer_current s = Some r" "moved Writer s t"
    using assms(3) by cases (use that assms(2) in \<open>auto simp: task_inv_def channel_okD(4-) [OF c2]\<close>)
  show "queue (v2 (dns_chan t)) \<noteq> []" if "writer_current s = None" "queue (v2 (dns_chan s)) \<noteq> []"
    using assms(3)
  proof cases
    case (parser_event ev st resp obs d)
    from parser_event(4) show ?thesis
      by (cases rule: parser_step_cases) (use that parser_event in \<open>auto simp: channel_okD(3-) [OF c2]\<close>)
  qed (use that in \<open>auto simp: channel_okD(4-) [OF c2]\<close>)
qed

lemma ring_served:
  assumes "live_run W v1 v2 \<sigma>" and "ring (\<sigma> i) \<noteq> []"
  shows "\<exists>j\<ge>i. takes ring \<sigma> j"
proof -
  have q: "queue_step (ring (\<sigma> j)) (ring (\<sigma> (Suc j)))" for j
    using live_runD(7) [OF assms(1), of j] ring_step by auto
  have "\<exists>j\<ge>i. ring (\<sigma> j) \<noteq> [] \<and> moved Reader (\<sigma> j) (\<sigma> (Suc j))"
  proof (rule leads_to_move [OF live_runD(4) [OF assms(1)]])
    show "ring (\<sigma> (Suc j)) \<noteq> []" if "ring (\<sigma> j) \<noteq> []" "\<not> moved Reader (\<sigma> j) (\<sigma> (Suc j))" for j
      using q [of j] that by (auto simp: queue_step_def)
    show "enabled Reader W (\<sigma> j)" if "ring (\<sigma> j) \<noteq> []" for j
      using reader_enabled [OF live_runD(6) [OF assms(1)] that] .
  qed (rule assms(2))
  then show ?thesis using reader_pops [OF q] by (auto simp: takes_def)
qed

text \<open>With an event in hand the parser finishes it; before that it receives one.\<close>

lemma parser_finishes:
  assumes "live_run W v1 v2 \<sigma>" and "parser_current (\<sigma> i) = Some ev"
  shows "\<exists>j\<ge>i. takes (\<lambda>s. queue (v1 (raw_chan s))) \<sigma> j"
proof -
  note c1 = live_runD(1) [OF assms(1)]
  have "\<exists>j\<ge>i. parser_current (\<sigma> j) = Some ev \<and> moved Parser (\<sigma> j) (\<sigma> (Suc j))"
  proof (rule leads_to_move [OF live_runD(4) [OF assms(1)]])
    show "enabled Parser W (\<sigma> j)" if "parser_current (\<sigma> j) = Some ev" for j
      using parser_enabled [OF c1 live_runD(6) [OF assms(1)], of j] live_runD(5) [OF assms(1), of j] that
      by (simp add: task_inv_def)
  qed (use assms(2) in simp_all)
  then obtain j where j: "i \<le> j" "parser_current (\<sigma> j) = Some ev" "moved Parser (\<sigma> j) (\<sigma> (Suc j))" by blast
  from live_runD(7) [OF assms(1), of j] j(3) obtain l where "step W (\<sigma> j) l (\<sigma> (Suc j))" by auto
  from parser_pops(1) [OF c1 live_runD(5) [OF assms(1)] this j(2,3)] j(1) show ?thesis
    by (auto simp: takes_def)
qed

lemma raw_served:
  assumes "live_run W v1 v2 \<sigma>" and "queue (v1 (raw_chan (\<sigma> i))) \<noteq> []"
  shows "\<exists>j\<ge>i. takes (\<lambda>s. queue (v1 (raw_chan s))) \<sigma> j"
proof (cases "parser_current (\<sigma> i)")
  case None
  note c1 = live_runD(1) [OF assms(1)]
  let ?P = "\<lambda>s. parser_current s = None \<and> queue (v1 (raw_chan s)) \<noteq> []"
  have "\<exists>j\<ge>i. ?P (\<sigma> j) \<and> moved Parser (\<sigma> j) (\<sigma> (Suc j))"
  proof (rule leads_to_move [OF live_runD(4) [OF assms(1)], where P = ?P])
    show "?P (\<sigma> (Suc j))" if "?P (\<sigma> j)" "\<not> moved Parser (\<sigma> j) (\<sigma> (Suc j))" for j
      using live_runD(7) [OF assms(1), of j] parser_pops(2) [OF c1 live_runD(5) [OF assms(1)]] that by auto
    show "enabled Parser W (\<sigma> j)" if "?P (\<sigma> j)" for j
      using parser_enabled [OF c1 live_runD(6) [OF assms(1)]] that by simp
  qed (use assms(2) None in simp)
  then obtain j where j: "i \<le> j" "parser_current (\<sigma> j) = None" "moved Parser (\<sigma> j) (\<sigma> (Suc j))" by blast
  moreover have "parser_task (\<sigma> (Suc j)) = parser_task (\<sigma> j)"
    using live_runD(6) [OF assms(1)] by (simp add: tasks_up_def)
  ultimately obtain ev where "parser_current (\<sigma> (Suc j)) = Some ev" by auto
  from parser_finishes [OF assms(1) this] j(1) show ?thesis by (meson Suc_leD order.trans)
qed (rule parser_finishes [OF assms(1)])

lemma writer_finishes:
  assumes "live_run W v1 v2 \<sigma>" and "writer_current (\<sigma> i) = Some r"
  shows "\<exists>j\<ge>i. takes (\<lambda>s. queue (v2 (dns_chan s))) \<sigma> j"
proof -
  note c2 = live_runD(2) [OF assms(1)] and up = live_runD(6) [OF assms(1)] and ti = live_runD(5) [OF assms(1)]
  let ?P = "\<lambda>s. writer_current s = Some r"
  have "\<exists>j\<ge>i. ?P (\<sigma> j) \<and> moved Writer (\<sigma> j) (\<sigma> (Suc j))"
  proof (rule leads_to_move [OF live_runD(4) [OF assms(1)]])
    show "enabled Writer W (\<sigma> j)" if "?P (\<sigma> j)" for j
      using writer_enabled [OF c2 live_runD(3) [OF assms(1)] up, of j] ti [of j] that
      by (simp add: task_inv_def)
  qed (use assms(2) in simp_all)
  then obtain j where j: "i \<le> j" "?P (\<sigma> j)" "moved Writer (\<sigma> j) (\<sigma> (Suc j))" by blast
  from live_runD(7) [OF assms(1), of j] j(3) obtain l where "step W (\<sigma> j) l (\<sigma> (Suc j))" by auto
  from writer_pops(1) [OF c2 ti this j(2,3)] j(1) show ?thesis by (auto simp: takes_def)
qed

text \<open>A move of the writer with nothing in hand opens the file or receives.\<close>

lemma writer_receives:
  assumes "live_run W v1 v2 \<sigma>" and "writer_current (\<sigma> i) = None" and "queue (v2 (dns_chan (\<sigma> i))) \<noteq> []"
  shows "\<exists>j\<ge>i. queue (v2 (dns_chan (\<sigma> (Suc j)))) \<noteq> []
    \<and> (writer_current (\<sigma> (Suc j)) \<noteq> None \<or> writer_task (\<sigma> i) = Starting \<and> writer_task (\<sigma> (Suc j)) = Running)"
proof -
  note c2 = live_runD(2) [OF assms(1)] and up = live_runD(6) [OF assms(1)] and ti = live_runD(5) [OF assms(1)]
  let ?P = "\<lambda>s. writer_current s = None \<and> queue (v2 (dns_chan s)) \<noteq> [] \<and> writer_task s = writer_task (\<sigma> i)"
  have keep: "queue (v2 (dns_chan (\<sigma> (Suc j)))) \<noteq> []" if "?P (\<sigma> j)" for j
    using live_runD(7) [OF assms(1), of j] writer_pops(2) [OF c2 ti] that by auto
  have "\<exists>j\<ge>i. ?P (\<sigma> j) \<and> moved Writer (\<sigma> j) (\<sigma> (Suc j))"
  proof (rule leads_to_move [OF live_runD(4) [OF assms(1)], where P = ?P])
    show "?P (\<sigma> (Suc j))" if "?P (\<sigma> j)" "\<not> moved Writer (\<sigma> j) (\<sigma> (Suc j))" for j
      using keep [OF that(1)] that by auto
    show "enabled Writer W (\<sigma> j)" if "?P (\<sigma> j)" for j
      using writer_enabled [OF c2 live_runD(3) [OF assms(1)] up] that by simp
  qed (use assms(2,3) in simp)
  then obtain j where j: "i \<le> j" "?P (\<sigma> j)" "moved Writer (\<sigma> j) (\<sigma> (Suc j))" by blast
  have "writer_current (\<sigma> (Suc j)) \<noteq> None \<or> writer_task (\<sigma> i) = Starting \<and> writer_task (\<sigma> (Suc j)) = Running"
  proof -
    from live_runD(7) [OF assms(1), of j] j(3) obtain l where "step W (\<sigma> j) l (\<sigma> (Suc j))" by auto
    then show ?thesis using j up [of "Suc j"] up [of j] by cases (auto simp: tasks_up_def)
  qed
  with keep [OF j(2)] j(1) show ?thesis by blast
qed

lemma dns_served:
  assumes "live_run W v1 v2 \<sigma>" and "queue (v2 (dns_chan (\<sigma> i))) \<noteq> []"
  shows "\<exists>j\<ge>i. takes (\<lambda>s. queue (v2 (dns_chan s))) \<sigma> j"
proof -
  have one: "\<exists>j\<ge>k. takes (\<lambda>s. queue (v2 (dns_chan s))) \<sigma> j"
    if run: "writer_task (\<sigma> k) = Running" and ne: "queue (v2 (dns_chan (\<sigma> k))) \<noteq> []" for k
  proof (cases "writer_current (\<sigma> k)")
    case None
    from writer_receives [OF assms(1) this ne] run obtain j r where
      j: "k \<le> j" "writer_current (\<sigma> (Suc j)) = Some r" by auto
    from writer_finishes [OF assms(1) j(2)] j(1) show ?thesis by (meson Suc_leD order.trans)
  qed (rule writer_finishes [OF assms(1)])
  show ?thesis
  proof (cases "writer_task (\<sigma> i) = Running")
    case False
    then have "writer_current (\<sigma> i) = None"
      using live_runD(5) [OF assms(1), of i] by (cases "writer_current (\<sigma> i)") (simp_all add: task_inv_def)
    from writer_receives [OF assms(1) this assms(2)] obtain j where
      j: "i \<le> j" "queue (v2 (dns_chan (\<sigma> (Suc j)))) \<noteq> []"
      and or: "writer_current (\<sigma> (Suc j)) \<noteq> None \<or> writer_task (\<sigma> (Suc j)) = Running" by blast
    from or have "writer_task (\<sigma> (Suc j)) = Running"
      using live_runD(5) [OF assms(1), of "Suc j"] by (auto simp: task_inv_def)
    from one [OF this j(2)] j(1) show ?thesis by (meson Suc_leD order.trans)
  qed (use one assms(2) in blast)
qed

interpretation ring_stage: fifo_stage "live_run W v1 v2" ring for W v1 v2
proof
  show "queue_step (ring (\<sigma> i)) (ring (\<sigma> (Suc i)))" if "live_run W v1 v2 \<sigma>" for \<sigma> i
    using live_runD(7) [OF that, of i] ring_step by auto
qed (rule ring_served)

interpretation raw_stage: fifo_stage "live_run W v1 v2" "\<lambda>s. queue (v1 (raw_chan s))" for W v1 v2
proof
  show "queue_step (queue (v1 (raw_chan (\<sigma> i)))) (queue (v1 (raw_chan (\<sigma> (Suc i)))))" if "live_run W v1 v2 \<sigma>" for \<sigma> i
    using live_runD(7) [OF that, of i] raw_step [OF live_runD(1,5) [OF that]] by auto
qed (rule raw_served)

interpretation dns_stage: fifo_stage "live_run W v1 v2" "\<lambda>s. queue (v2 (dns_chan s))" for W v1 v2
proof
  show "queue_step (queue (v2 (dns_chan (\<sigma> i)))) (queue (v2 (dns_chan (\<sigma> (Suc i)))))" if "live_run W v1 v2 \<sigma>" for \<sigma> i
    using live_runD(7) [OF that, of i] dns_step [OF live_runD(2,5) [OF that]] by auto
qed (rule dns_served)

lemma takes_step:
  assumes "behaviour W \<sigma> lab" and "takes q \<sigma> j"
  shows "step W (\<sigma> j) (lab j) (\<sigma> (Suc j))"
  using assms unfolding behaviour_def takes_def by (metis not_tl(2))

lemma kernel_step:
  assumes "step W s l t" and "Kernel item \<in> set l"
  shows "ring t = ring s @ [item]"
  using assms(1)
  by cases (use assms(2) in \<open>auto simp: reader_labels_def parser_labels_def
    split: if_splits send_ref.splits prod.splits outcome.splits\<close>)

text \<open>The way of one item.\<close>

lemma item_through:
  assumes live: "live_run W v1 v2 \<sigma>" and beh: "behaviour W \<sigma> lab"
    and "Kernel item \<in> set (lab i)" and "item_response item = Some r"
  obtains (dropped) k where "i < k" and "DropRaw item \<in> set (lab k)"
      and "length (queue (v1 (raw_chan (\<sigma> k)))) = CHANNEL_CAPACITY"
  | (unlogged) k where "i < k" and "Observed r \<in> set (lab k)" and "DropDns r \<in> set (lab k)"
      and "length (queue (v2 (dns_chan (\<sigma> k)))) = CHANNEL_CAPACITY"
  | (logged) k j where "i < k" and "Observed r \<in> set (lab k)" and "k < j" and "Logged r \<in> set (lab j)"
proof -
  note c1 = live_runD(1) [OF live] and c2 = live_runD(2) [OF live]
  note ti = live_runD(5) [OF live] and up = live_runD(6) [OF live]
  have len: "length item = 576" and resp: "event_response (event_of_bytes item) = Some r"
    using assms(4) by (auto simp: item_response_def split: if_splits)
  have "ring (\<sigma> (Suc i)) = ring (\<sigma> i) @ [item]"
    using beh assms(3) kernel_step unfolding behaviour_def by (metis empty_iff list.set(1))
  then obtain a where a: "i < a" "takes ring \<sigma> a" "hd (ring (\<sigma> a)) = item"
    by (rule ring_stage.last_taken [OF live])
  from reader_takes [OF c1 ti up takes_step [OF beh a(2)]] a len consider
    "DropRaw item \<in> set (lab a)" "length (queue (v1 (raw_chan (\<sigma> a)))) = CHANNEL_CAPACITY"
    | (raw) "queue (v1 (raw_chan (\<sigma> (Suc a)))) = queue (v1 (raw_chan (\<sigma> a))) @ [event_of_bytes item]"
    by (auto simp: takes_def)
  then show ?thesis
  proof cases
    case raw
    then obtain k where k: "a < k" "takes (\<lambda>s. queue (v1 (raw_chan s))) \<sigma> k"
        "hd (queue (v1 (raw_chan (\<sigma> k)))) = event_of_bytes item"
      by (rule raw_stage.last_taken [OF live])
    from parser_takes [OF c1 c2 ti up takes_step [OF beh k(2)]] k(2,3) resp have
      obs: "Observed r \<in> set (lab k)" and
      dns: "DropDns r \<in> set (lab k) \<and> length (queue (v2 (dns_chan (\<sigma> k)))) = CHANNEL_CAPACITY
        \<or> queue (v2 (dns_chan (\<sigma> (Suc k)))) = queue (v2 (dns_chan (\<sigma> k))) @ [r]"
      by (auto simp: takes_def)
    have ik: "i < k" using a(1) k(1) by simp
    from dns show ?thesis
    proof
      assume "queue (v2 (dns_chan (\<sigma> (Suc k)))) = queue (v2 (dns_chan (\<sigma> k))) @ [r]"
      then obtain j where j: "k < j" "takes (\<lambda>s. queue (v2 (dns_chan s))) \<sigma> j"
          "hd (queue (v2 (dns_chan (\<sigma> j)))) = r"
        by (rule dns_stage.last_taken [OF live])
      from writer_takes [OF c2 ti takes_step [OF beh j(2)]] j have "Logged r \<in> set (lab j)"
        by (auto simp: takes_def)
      with ik obs j(1) show ?thesis by (rule logged)
    qed (use ik obs unlogged in blast)
  qed (use a(1) dropped in blast)
qed

section \<open>Building runs\<close>

text \<open>A run that rests from moment \<open>n\<close> on can make one more step and then rest.\<close>

definition then_rest :: "(nat \<Rightarrow> 'a) \<Rightarrow> nat \<Rightarrow> 'a \<Rightarrow> nat \<Rightarrow> 'a" where
  "then_rest f n x j = (if j \<le> n then f j else x)"

lemma extend_run:
  assumes "\<forall>i. Q (\<rho> i) (lab i) (\<rho> (Suc i))" and "\<forall>j\<ge>n. \<rho> j = x \<and> lab j = e" and "Q x l y" and "Q y e y"
  shows "\<exists>\<rho>' lab'. (\<forall>i. Q (\<rho>' i) (lab' i) (\<rho>' (Suc i))) \<and> \<rho>' 0 = \<rho> 0 \<and> (\<forall>j<n. lab' j = lab j) \<and> lab' n = l
    \<and> (\<forall>j\<ge>Suc n. \<rho>' j = y \<and> lab' j = e)"
proof -
  let ?\<rho> = "then_rest \<rho> n y" and ?lab = "lab(n := l)"
  have "Q (?\<rho> j) (?lab j) (?\<rho> (Suc j))" for j
    using assms(1) [rule_format, of j] assms(2) [rule_format, of j] assms(2) [rule_format, of n] assms(3,4)
    by (cases j n rule: linorder_cases) (auto simp: then_rest_def)
  with assms(2) show ?thesis by (intro exI [of _ ?\<rho>] exI [of _ ?lab]) (simp add: then_rest_def)
qed

lemma trace_upto_cong: "(\<And>j. j < n \<Longrightarrow> lab j = lab' j) \<Longrightarrow> trace_upto lab n = trace_upto lab' n"
  unfolding trace_upto_def by (rule arg_cong [of _ _ concat]) simp

end
