(* ===== verification/Async_Fd.thy ===== *)
theory Async_Fd
  imports Main
begin

text \<open>
  Waiting for a ring buffer: \<open>tokio\<close>'s \<open>AsyncFd\<close>, which the reader's loop
  (\<open>spawn_ebpf_reader\<close> in \<open>cilium-mini-rs/src/topology.rs\<close>) and the log-flushing task
  (\<open>setup_ebpf_logging\<close> in \<open>cilium-mini-rs/src/main.rs\<close>) both use in the same way: await readiness,
  work until the ring is empty, clear the readiness, await again. The descriptor is a parameter whose
  documented behaviour \<open>async_fd_ok\<close> states: readiness is raised by a wake-up, and clearing it through
  a guard has no effect if another wake-up came after the guard was handed out. The lemmas on \<open>wake_ok\<close>
  say what such a loop relies on, for both.
\<close>

section \<open>The descriptor\<close>

datatype 'g readiness = Ready 'g | NotReady | FdError

record ('f, 'g) async_fd =
  readable_mut :: "'f \<Rightarrow> 'g readiness"
  clear_ready :: "'g \<Rightarrow> 'f \<Rightarrow> 'f"
  wake :: "'f \<Rightarrow> 'f"

record fd_view =
  is_ready :: bool
  wakeups :: nat

definition readable_ok :: "('g \<Rightarrow> nat) \<Rightarrow> fd_view \<Rightarrow> 'g readiness \<Rightarrow> bool" where
  "readable_ok seen v r = (case r of Ready g \<Rightarrow> is_ready v \<and> seen g = wakeups v
     | NotReady \<Rightarrow> \<not> is_ready v | FdError \<Rightarrow> False)"

definition async_fd_ok :: "('f, 'g) async_fd \<Rightarrow> ('f \<Rightarrow> fd_view) \<Rightarrow> ('g \<Rightarrow> nat) \<Rightarrow> bool" where
  "async_fd_ok F view seen \<longleftrightarrow>
     (\<forall>f. readable_ok seen (view f) (readable_mut F f)
        \<and> view (wake F f) = \<lparr>is_ready = True, wakeups = Suc (wakeups (view f))\<rparr>
        \<and> (\<forall>g. view (clear_ready F g f) =
             (if seen g = wakeups (view f) then (view f)\<lparr>is_ready := False\<rparr> else view f)))"

lemma async_fd_okD:
  assumes "async_fd_ok F view seen"
  shows "readable_ok seen (view f) (readable_mut F f)"
    and "view (wake F f) = \<lparr>is_ready = True, wakeups = Suc (wakeups (view f))\<rparr>"
    and "view (clear_ready F g f) = (if seen g = wakeups (view f) then (view f)\<lparr>is_ready := False\<rparr> else view f)"
  using assms unfolding async_fd_ok_def by blast+

lemma no_fd_error: "async_fd_ok F view seen \<Longrightarrow> readable_mut F f \<noteq> FdError"
  using async_fd_okD(1) [of F view seen f] by (auto simp: readable_ok_def)

lemma ready_guard:
  assumes "async_fd_ok F view seen" and "is_ready (view f)"
  shows "\<exists>g. readable_mut F f = Ready g"
  using async_fd_okD(1) [OF assms(1), of f] assms(2)
  by (cases "readable_mut F f") (simp_all add: readable_ok_def)

section \<open>A loop that waits\<close>

datatype 'g phase = Awaiting | Draining 'g | Clearing 'g

text \<open>What matters of a loop for its wake-ups: whether there is work for it, its descriptor and where it
  is. \<open>waits\<close> specifies the moves: work may vanish at any time and may appear with a wake-up, or
  without one where there was work already; readiness starts a round of work, a round ends when there is
  nothing left, and then the readiness is cleared.\<close>

type_synonym ('f, 'g) waiting = "bool \<times> 'f \<times> 'g phase"

inductive waits :: "('f, 'g) async_fd \<Rightarrow> ('f, 'g) waiting \<Rightarrow> ('f, 'g) waiting \<Rightarrow> bool"
  for F where
  waits_on: "(p' \<Longrightarrow> p) \<Longrightarrow> waits F (p, f, ph) (p', f, ph)"
| waits_woken: "waits F (p, f, ph) (p', wake F f, ph)"
| waits_ready: "readable_mut F f = Ready g \<Longrightarrow> waits F (p, f, Awaiting) (p, f, Draining g)"
| waits_done: "waits F (p, f, Draining g) (False, f, Clearing g)"
| waits_clear: "waits F (p, f, Clearing g) (p, clear_ready F g f, Awaiting)"

text \<open>A guard is out of date only if the descriptor is ready again; a loop that waits, or is about to
  clear the readiness, has a wake-up pending if there is work.\<close>

definition guard_ok :: "('g \<Rightarrow> nat) \<Rightarrow> fd_view \<Rightarrow> 'g \<Rightarrow> bool" where
  "guard_ok seen v g \<longleftrightarrow> seen g \<le> wakeups v \<and> (seen g < wakeups v \<longrightarrow> is_ready v)"

definition wake_ok :: "('f \<Rightarrow> fd_view) \<Rightarrow> ('g \<Rightarrow> nat) \<Rightarrow> ('f, 'g) waiting \<Rightarrow> bool" where
  "wake_ok view seen = (\<lambda>(pending, f, ph). case ph of
     Awaiting \<Rightarrow> pending \<longrightarrow> is_ready (view f)
   | Draining g \<Rightarrow> guard_ok seen (view f) g
   | Clearing g \<Rightarrow> guard_ok seen (view f) g \<and> (pending \<longrightarrow> seen g < wakeups (view f)))"

lemma waits_wake_ok:
  assumes F: "async_fd_ok F view seen" and "waits F w w'" and "wake_ok view seen w"
  shows "wake_ok view seen w'"
  using assms(2)
proof cases
  case (waits_ready f g p)
  then show ?thesis using async_fd_okD(1) [OF F, of f] by (simp add: wake_ok_def guard_ok_def readable_ok_def)
qed (use assms(3) in \<open>auto simp: wake_ok_def guard_ok_def async_fd_okD(2,3) [OF F] split: phase.splits\<close>)

lemma wake_ok_ready:
  assumes "async_fd_ok F view seen" and "wake_ok view seen (True, f, Awaiting)"
  shows "\<exists>g. readable_mut F f = Ready g"
  using ready_guard [OF assms(1)] assms(2) by (simp add: wake_ok_def)

text \<open>The moves a loop has left when no work is added: up to five, as a guard that is out of date costs a
  second round.\<close>

definition fd_work :: "('f \<Rightarrow> fd_view) \<Rightarrow> ('g \<Rightarrow> nat) \<Rightarrow> 'f \<Rightarrow> 'g phase \<Rightarrow> nat" where
  "fd_work view seen f ph = (let v = view f in case ph of
     Awaiting \<Rightarrow> if is_ready v then 3 else 0
   | Clearing g \<Rightarrow> if seen g = wakeups v then 1 else 4
   | Draining g \<Rightarrow> if seen g = wakeups v then 2 else 5)"

lemma fd_work_bound: "fd_work view seen f ph \<le> 5"
  by (simp add: fd_work_def Let_def split: phase.splits)

lemma waits_work:
  assumes F: "async_fd_ok F view seen" and "waits F (p, f, ph) (p', f', ph')" and "ph' \<noteq> ph"
  shows "fd_work view seen f' ph' < fd_work view seen f ph"
  using assms(2)
proof cases
  case (waits_ready g)
  then show ?thesis using async_fd_okD(1) [OF F, of f] by (simp add: fd_work_def readable_ok_def)
qed (use assms(3) in \<open>auto simp: fd_work_def Let_def async_fd_okD(3) [OF F]\<close>)

text \<open>A loop whose steps are such moves keeps the invariant.\<close>

locale waiting_loop =
  fixes F :: "('f, 'g) async_fd" and move :: "'s \<Rightarrow> 'l list \<Rightarrow> 's \<Rightarrow> bool"
    and runs_to :: "'s \<Rightarrow> 'l list \<Rightarrow> 's \<Rightarrow> bool" and wait :: "'s \<Rightarrow> ('f, 'g) waiting"
  assumes move_waits: "move x l y \<Longrightarrow> waits F (wait x) (wait y)"
    and runs_induct: "runs_to x0 tr x \<Longrightarrow> P [] x0 \<Longrightarrow>
      (\<And>tr x l y. runs_to x0 tr x \<Longrightarrow> P tr x \<Longrightarrow> move x l y \<Longrightarrow> P (tr @ l) y) \<Longrightarrow> P tr x"
begin

lemma wake_ok_move:
  "async_fd_ok F view seen \<Longrightarrow> wake_ok view seen (wait x) \<Longrightarrow> move x l y \<Longrightarrow> wake_ok view seen (wait y)"
  using waits_wake_ok move_waits by blast

lemma wake_ok_runs:
  assumes "async_fd_ok F view seen" and "wake_ok view seen (wait x0)" and "runs_to x0 tr x"
  shows "wake_ok view seen (wait x)"
  using assms(3) by (rule runs_induct) (use assms wake_ok_move in blast)+

lemma never_asleep:
  assumes "async_fd_ok F view seen" and "wake_ok view seen (wait x0)" and "runs_to x0 tr x"
    and "wait x = (True, f, Awaiting)"
  shows "\<exists>g. readable_mut F f = Ready g"
  using wake_ok_ready [OF assms(1)] wake_ok_runs [OF assms(1-3)] assms(4) by simp

end

section \<open>An instance\<close>

text \<open>A descriptor that is its own view, for the witnesses.\<close>

definition sample_fd :: "(fd_view, nat) async_fd" where
  "sample_fd = \<lparr>readable_mut = (\<lambda>v. if is_ready v then Ready (wakeups v) else NotReady),
     clear_ready = (\<lambda>g v. if g = wakeups v then v\<lparr>is_ready := False\<rparr> else v),
     wake = (\<lambda>v. \<lparr>is_ready = True, wakeups = Suc (wakeups v)\<rparr>)\<rparr>"

definition idle :: fd_view where
  "idle = \<lparr>is_ready = False, wakeups = 0\<rparr>"

lemma sample_fd_ok: "async_fd_ok sample_fd (\<lambda>v. v) (\<lambda>g. g)"
  by (simp add: async_fd_ok_def sample_fd_def readable_ok_def)

end
