(* ===== verification/Event_Loop.thy ===== *)
theory Event_Loop
  imports Liveness Async_Fd
begin

text \<open>
  The reader's loop with its wake-ups (\<open>spawn_ebpf_reader\<close> in \<open>cilium-mini-rs/src/topology.rs\<close>):
  await readiness of the ring's file descriptor, take items until the ring is empty, clear the
  readiness, await again. \<open>step\<close> of \<open>Topology\<close> lets the reader take an item whenever there is one; here
  it has to be told. The descriptor is that of \<open>Async_Fd\<close>. The kernel wakes the descriptor when an item
  is submitted (with flags 0) to a ring that the reader has emptied, and may or may not do so otherwise.

  The loop refines \<open>step\<close>, never sleeps on a ring that holds items, comes to rest, and a fair schedule
  of it is fair in the sense of \<open>Liveness\<close>.
\<close>

section \<open>The loop\<close>

record ('f, 'g) reader_loop =
  async_fd :: 'f
  phase :: "'g phase"

type_synonym ('c, 'd, 'o, 'w, 'f, 'g) system = "('c, 'd, 'o, 'w) topology \<times> ('f, 'g) reader_loop"

text \<open>\<open>loop_error\<close> is the \<open>if let Ok\<close> that fails: the loop starts over. The items are taken by
  \<open>step\<close>; the last rule is for the other tasks.\<close>

inductive loop_step ::
  "('f, 'g) async_fd \<Rightarrow> ('c, 'd, 'o, 'e, 'w) world \<Rightarrow> ('c, 'd, 'o, 'w, 'f, 'g) system \<Rightarrow> label list \<Rightarrow>
     ('c, 'd, 'o, 'w, 'f, 'g) system \<Rightarrow> bool"
  for F W where
  loop_submit:
    "ring s = [] \<longrightarrow> woken \<Longrightarrow>
     loop_step F W (s, q) [Kernel item]
       (s\<lparr>ring := ring s @ [item]\<rparr>, q\<lparr>async_fd := (if woken then wake F (async_fd q) else async_fd q)\<rparr>)"
| loop_ready:
    "reader_task s = Running \<Longrightarrow> phase q = Awaiting \<Longrightarrow> readable_mut F (async_fd q) = Ready g \<Longrightarrow>
     loop_step F W (s, q) [] (s, q\<lparr>phase := Draining g\<rparr>)"
| loop_error:
    "reader_task s = Running \<Longrightarrow> phase q = Awaiting \<Longrightarrow> readable_mut F (async_fd q) = FdError \<Longrightarrow>
     loop_step F W (s, q) [] (s, q)"
| loop_next:
    "phase q = Draining g \<Longrightarrow> step W s l t \<Longrightarrow> moved Reader s t \<Longrightarrow>
     loop_step F W (s, q) l (t, q)"
| loop_empty:
    "reader_task s = Running \<Longrightarrow> phase q = Draining g \<Longrightarrow> ring s = [] \<Longrightarrow>
     loop_step F W (s, q) [] (s, q\<lparr>phase := Clearing g\<rparr>)"
| loop_clear:
    "reader_task s = Running \<Longrightarrow> phase q = Clearing g \<Longrightarrow>
     loop_step F W (s, q) [] (s, \<lparr>async_fd = clear_ready F g (async_fd q), phase = Awaiting\<rparr>)"
| loop_others:
    "step W s l t \<Longrightarrow> A \<noteq> Reader \<Longrightarrow> moved A s t \<Longrightarrow>
     loop_step F W (s, q) l (t, q)"

inductive_cases loop_step_elim: "loop_step F W (s, q) l y"

inductive loop_runs ::
  "('f, 'g) async_fd \<Rightarrow> ('c, 'd, 'o, 'e, 'w) world \<Rightarrow> ('c, 'd, 'o, 'w, 'f, 'g) system \<Rightarrow> label list \<Rightarrow>
     ('c, 'd, 'o, 'w, 'f, 'g) system \<Rightarrow> bool"
  for F W x0 where
  loop_start: "loop_runs F W x0 [] x0"
| loop_more: "loop_runs F W x0 tr x \<Longrightarrow> loop_step F W x l y \<Longrightarrow> loop_runs F W x0 (tr @ l) y"

section \<open>Refinement\<close>

text \<open>A step of the loop is a step of \<open>Topology\<close>, or happens in the reader alone.\<close>

lemma loop_step_refines:
  assumes "loop_step F W x l y"
  shows "step W (fst x) l (fst y) \<or> l = [] \<and> fst y = fst x"
  using assms by cases (auto simp: kernel_submit)

lemma loop_runs_refines:
  assumes "loop_runs F W x0 tr x"
  shows "runs W (fst x0) tr (fst x)"
  using assms
proof induction
  case loop_start
  show ?case by (rule runs_start)
next
  case (loop_more tr x l y)
  from loop_step_refines [OF loop_more(2)] loop_more(3) show ?case
    by (auto intro: runs_step)
qed

section \<open>No wake-up is lost\<close>

definition reader_waiting :: "('c, 'd, 'o, 'w, 'f, 'g) system \<Rightarrow> ('f, 'g) waiting" where
  "reader_waiting = (\<lambda>(s, q). (ring s \<noteq> [], async_fd q, phase q))"

lemma other_keeps_ring:
  assumes "step W s l t" and "A \<noteq> Reader" and "moved A s t"
  shows "ring t = ring s"
  using assms(1)
proof cases
  case (kernel_submit item)
  then show ?thesis using assms(2,3) by (cases A) simp_all
next
  case (reader_item item rest st c)
  then show ?thesis using assms(2,3) by (cases A) simp_all
qed simp_all

lemma reader_waits: "loop_step F W x l y \<Longrightarrow> waits F (reader_waiting x) (reader_waiting y)"
proof (induction rule: loop_step.induct)
  case (loop_submit s woken q item)
  show ?case
  proof (cases woken)
    case True
    then show ?thesis by (simp add: reader_waiting_def waits_woken)
  next
    case False
    then show ?thesis using loop_submit waits_on [of "ring (s\<lparr>ring := ring s @ [item]\<rparr>) \<noteq> []" "ring s \<noteq> []"]
      by (simp add: reader_waiting_def)
  qed
next
  case (loop_next q g s l t)
  then have "ring s \<noteq> []" by auto
  then show ?case by (simp add: reader_waiting_def waits_on)
next
  case (loop_others s l t A q)
  then show ?case using other_keeps_ring [OF loop_others] by (simp add: reader_waiting_def waits_on)
next
  case (loop_empty s q g)
  then show ?case using waits_done [of F False "async_fd q" g] by (simp add: reader_waiting_def)
qed (simp_all add: reader_waiting_def waits_on waits_ready waits_clear)

interpretation reader_wait: waiting_loop F "loop_step F W" "loop_runs F W" reader_waiting for F W
proof
  show "waits F (reader_waiting x) (reader_waiting y)" if "loop_step F W x l y" for x l y
    using that by (rule reader_waits)
  show "P tr x" if "loop_runs F W x0 tr x" "P [] x0"
    "\<And>tr x l y. loop_runs F W x0 tr x \<Longrightarrow> P tr x \<Longrightarrow> loop_step F W x l y \<Longrightarrow> P (tr @ l) y" for x0 tr x P
    using that by (rule loop_runs.induct)
qed

abbreviation wake_inv :: "('f \<Rightarrow> fd_view) \<Rightarrow> ('g \<Rightarrow> nat) \<Rightarrow> ('c, 'd, 'o, 'w, 'f, 'g) system \<Rightarrow> bool" where
  "wake_inv view seen x \<equiv> wake_ok view seen (reader_waiting x)"

lemmas wake_inv_runs = reader_wait.wake_ok_runs

section \<open>Moves of the loop\<close>

definition loop_moved :: "actor \<Rightarrow> ('c, 'd, 'o, 'w, 'f, 'g) system \<Rightarrow> ('c, 'd, 'o, 'w, 'f, 'g) system \<Rightarrow> bool" where
  "loop_moved A x y \<longleftrightarrow> moved A (fst x) (fst y) \<or> A = Reader \<and> phase (snd y) \<noteq> phase (snd x)"

definition loop_enabled :: "actor \<Rightarrow> ('f, 'g) async_fd \<Rightarrow> ('c, 'd, 'o, 'e, 'w) world \<Rightarrow>
    ('c, 'd, 'o, 'w, 'f, 'g) system \<Rightarrow> bool" where
  "loop_enabled A F W x \<longleftrightarrow> (\<exists>l y. loop_step F W x l y \<and> loop_moved A x y)"

lemma loop_enabledI: "loop_step F W x l y \<Longrightarrow> loop_moved A x y \<Longrightarrow> loop_enabled A F W x"
  unfolding loop_enabled_def by blast

lemma others_enabled:
  assumes "enabled A W s" and "A \<noteq> Reader"
  shows "loop_enabled A F W (s, q)"
proof -
  obtain l t where st: "step W s l t" "moved A s t" using assms(1) by (auto simp: enabled_def)
  from loop_others [OF st(1) assms(2) st(2)] show ?thesis
    by (rule loop_enabledI) (simp add: loop_moved_def st(2))
qed

text \<open>With items in the ring the loop can always move.\<close>

lemma loop_reader_enabled:
  assumes F: "async_fd_ok F view seen" and "wake_inv view seen (s, q)" and "tasks_up s" and "ring s \<noteq> []"
  shows "loop_enabled Reader F W (s, q)"
proof -
  have run: "reader_task s = Running" using assms(3) by (simp add: tasks_up_def)
  show ?thesis
  proof (cases "phase q")
    case Awaiting
    then obtain g where "readable_mut F (async_fd q) = Ready g"
      using wake_ok_ready [OF F, of "async_fd q"] assms(2,4) by (auto simp: reader_waiting_def)
    from loop_ready [OF run Awaiting this] show ?thesis
      by (rule loop_enabledI) (simp add: loop_moved_def Awaiting)
  next
    case (Draining g)
    obtain l t where st: "step W s l t" "moved Reader s t"
      using reader_enabled [OF assms(3,4), of W] unfolding enabled_def by blast
    from loop_next [OF Draining st] show ?thesis
      by (rule loop_enabledI) (simp add: loop_moved_def st(2) del: moved.simps)
  next
    case (Clearing g)
    from loop_clear [OF run this] show ?thesis
      by (rule loop_enabledI) (simp add: loop_moved_def Clearing)
  qed
qed

section \<open>Fairness\<close>

definition loop_behaviour :: "('f, 'g) async_fd \<Rightarrow> ('c, 'd, 'o, 'e, 'w) world \<Rightarrow>
    (nat \<Rightarrow> ('c, 'd, 'o, 'w, 'f, 'g) system) \<Rightarrow> (nat \<Rightarrow> label list) \<Rightarrow> bool" where
  "loop_behaviour F W \<rho> lab \<longleftrightarrow>
     (\<forall>i. loop_step F W (\<rho> i) (lab i) (\<rho> (Suc i)) \<or> lab i = [] \<and> \<rho> (Suc i) = \<rho> i)"

definition loop_fair :: "actor \<Rightarrow> ('f, 'g) async_fd \<Rightarrow> ('c, 'd, 'o, 'e, 'w) world \<Rightarrow>
    (nat \<Rightarrow> ('c, 'd, 'o, 'w, 'f, 'g) system) \<Rightarrow> bool" where
  "loop_fair A F W = weakly_fair (loop_enabled A F W) (loop_moved A)"

lemma loop_behaviour_refines:
  assumes "loop_behaviour F W \<rho> lab"
  shows "behaviour W (fst \<circ> \<rho>) lab"
  unfolding behaviour_def
proof
  fix i
  from assms have "loop_step F W (\<rho> i) (lab i) (\<rho> (Suc i)) \<or> lab i = [] \<and> \<rho> (Suc i) = \<rho> i"
    by (simp add: loop_behaviour_def)
  then show "step W ((fst \<circ> \<rho>) i) (lab i) ((fst \<circ> \<rho>) (Suc i)) \<or> lab i = [] \<and> (fst \<circ> \<rho>) (Suc i) = (fst \<circ> \<rho>) i"
    using loop_step_refines by fastforce
qed

lemma loop_behaviour_runs: "loop_behaviour F W \<rho> lab \<Longrightarrow> loop_runs F W (\<rho> 0) (trace_upto lab n) (\<rho> n)"
proof (induction n)
  case (Suc n)
  then have "loop_step F W (\<rho> n) (lab n) (\<rho> (Suc n)) \<or> lab n = [] \<and> \<rho> (Suc n) = \<rho> n"
    by (simp add: loop_behaviour_def)
  then show ?case using loop_more [OF Suc.IH [OF Suc.prems]] Suc by (metis append_Nil2 trace_upto_simps(2))
qed (simp add: loop_start)

text \<open>How the phase changes while the ring holds items and none is taken.\<close>

lemma phase_change:
  assumes "loop_step F W x l y" and "phase (snd y) \<noteq> phase (snd x)" and "ring (fst x) \<noteq> []"
  shows "phase (snd x) = Awaiting \<and> (\<exists>g. phase (snd y) = Draining g)
    \<or> (\<exists>g. phase (snd x) = Clearing g) \<and> phase (snd y) = Awaiting"
  using assms(1) by cases (use assms(2,3) in auto)

lemma reader_fair:
  assumes F: "async_fd_ok F view seen" and beh: "loop_behaviour F W \<rho> lab" and "loop_fair Reader F W \<rho>"
    and inv: "\<And>i. wake_inv view seen (\<rho> i)" and up: "\<And>i. tasks_up (fst (\<rho> i))"
  shows "fair Reader W (fst \<circ> \<rho>)"
proof (rule ccontr)
  assume "\<not> fair Reader W (fst \<circ> \<rho>)"
  then obtain i where en: "\<And>j. i \<le> j \<Longrightarrow> enabled Reader W (fst (\<rho> j))"
    and still: "\<And>j. i \<le> j \<Longrightarrow> \<not> moved Reader (fst (\<rho> j)) (fst (\<rho> (Suc j)))"
    unfolding fair_def weakly_fair_def by auto
  have ne: "ring (fst (\<rho> j)) \<noteq> []" if "i \<le> j" for j
    using en [OF that] unfolding enabled_def by auto
  have can: "loop_enabled Reader F W (\<rho> j)" if "i \<le> j" for j
    using loop_reader_enabled [OF F, of "fst (\<rho> j)" "snd (\<rho> j)"] inv [of j] up [of j] ne [OF that] by simp
  have onward: "\<exists>j\<ge>k. phase (snd (\<rho> j)) = p \<and>
      (phase (snd (\<rho> j)) = Awaiting \<and> (\<exists>g. phase (snd (\<rho> (Suc j))) = Draining g)
       \<or> (\<exists>g. phase (snd (\<rho> j)) = Clearing g) \<and> phase (snd (\<rho> (Suc j))) = Awaiting)"
    if k: "i \<le> k" "phase (snd (\<rho> k)) = p" for k p
  proof -
    have "\<exists>j\<ge>k. phase (snd (\<rho> j)) = p \<and> loop_moved Reader (\<rho> j) (\<rho> (Suc j))"
      by (rule weakly_fair_leads [OF assms(3) [unfolded loop_fair_def]]) (use k can in \<open>auto simp: loop_moved_def\<close>)
    then obtain j where j: "k \<le> j" "phase (snd (\<rho> j)) = p" "loop_moved Reader (\<rho> j) (\<rho> (Suc j))" by blast
    have ij: "i \<le> j" using k(1) j(1) by simp
    then have ch: "phase (snd (\<rho> (Suc j))) \<noteq> phase (snd (\<rho> j))"
      using j(3) still [of j] unfolding loop_moved_def by blast
    then have "loop_step F W (\<rho> j) (lab j) (\<rho> (Suc j))" using beh unfolding loop_behaviour_def by metis
    from phase_change [OF this ch ne [OF ij]] j(1,2) show ?thesis by blast
  qed
  have "\<not> (\<exists>g. phase (snd (\<rho> j)) = Draining g)" if "i \<le> j" for j
    using onward [OF that refl] by auto
  moreover from this have "phase (snd (\<rho> j)) \<noteq> Awaiting" if "i \<le> j" for j
    using onward [OF that, of Awaiting] that by (metis Suc_leD le_trans phase.distinct(3) not_less_eq_eq)
  ultimately show False using onward [OF order_refl refl] by (metis Suc_leD le_trans not_less_eq_eq)
qed

lemma loop_fair_fair:
  assumes "async_fd_ok F view seen" and "loop_behaviour F W \<rho> lab" and "\<And>A. loop_fair A F W \<rho>"
    and "\<And>i. wake_inv view seen (\<rho> i)" and "\<And>i. tasks_up (fst (\<rho> i))"
  shows "fair A W (fst \<circ> \<rho>)"
proof (cases "A = Reader")
  case True
  then show ?thesis using reader_fair [OF assms(1-3) assms(4,5)] by simp
next
  case False
  have "\<not> loop_enabled A F W x \<Longrightarrow> \<not> enabled A W (fst x)" for x
    using others_enabled [OF _ False, of W "fst x" F "snd x"] by auto
  then show ?thesis
    using assms(3) [of A] False unfolding fair_def loop_fair_def weakly_fair_def loop_moved_def comp_def by metis
qed

section \<open>Coming to rest\<close>

text \<open>Moves of the tasks only, counted.\<close>

inductive loop_drains ::
  "('f, 'g) async_fd \<Rightarrow> ('c, 'd, 'o, 'e, 'w) world \<Rightarrow> ('c, 'd, 'o, 'w, 'f, 'g) system \<Rightarrow> nat \<Rightarrow> label list \<Rightarrow>
     ('c, 'd, 'o, 'w, 'f, 'g) system \<Rightarrow> bool"
  for F W x0 where
  drains_start: "loop_drains F W x0 0 [] x0"
| drains_step: "loop_drains F W x0 n tr x \<Longrightarrow> loop_step F W x l y \<Longrightarrow> loop_moved A x y \<Longrightarrow>
    loop_drains F W x0 (Suc n) (tr @ l) y"

definition at_rest :: "('f, 'g) async_fd \<Rightarrow> ('c, 'd, 'o, 'e, 'w) world \<Rightarrow> ('c, 'd, 'o, 'w, 'f, 'g) system \<Rightarrow> bool" where
  "at_rest F W x \<longleftrightarrow> \<not> (\<exists>A. loop_enabled A F W x)"

definition loop_work :: "('c \<Rightarrow> RawDnsEvent chan_view) \<Rightarrow> ('d \<Rightarrow> DnsResponse chan_view) \<Rightarrow> ('f \<Rightarrow> fd_view) \<Rightarrow>
    ('g \<Rightarrow> nat) \<Rightarrow> ('c, 'd, 'o, 'w, 'f, 'g) system \<Rightarrow> nat" where
  "loop_work v1 v2 view seen x = work v1 v2 (fst x) + fd_work view seen (async_fd (snd x)) (phase (snd x))"

lemma loop_work_decreases:
  assumes c: "channel_ok (raw_ops W) CHANNEL_CAPACITY v1" "channel_ok (dns_ops W) CHANNEL_CAPACITY v2"
    and F: "async_fd_ok F view seen" and ti: "task_inv v1 v2 (fst x)"
    and "loop_step F W x l y" and "loop_moved A x y"
  shows "loop_work v1 v2 view seen y < loop_work v1 v2 view seen x"
proof -
  have own: "fd_work view seen (async_fd (snd y)) (phase (snd y)) < fd_work view seen (async_fd (snd x)) (phase (snd x))"
    if "phase (snd y) \<noteq> phase (snd x)"
    using waits_work [OF F reader_waits [OF assms(5), unfolded reader_waiting_def split_beta] that] .
  show ?thesis
    using assms(5)
  proof cases
  case (loop_submit s woken q item)
  then show ?thesis using assms(6) by (cases A) (simp_all add: loop_moved_def)
next
  case (loop_error s q)
  then show ?thesis using no_fd_error [OF F] by simp
next
  case (loop_next q g s t)
  then show ?thesis using work_decreases [OF c _ loop_next(4,5)] ti by (simp add: loop_work_def)
next
  case (loop_others s t A q)
  then show ?thesis using work_decreases [OF c _ loop_others(3) loop_others(5)] ti by (simp add: loop_work_def)
qed (use own in \<open>simp_all add: loop_work_def\<close>)
qed

lemma loop_work_bound:
  assumes "task_inv v1 v2 (fst x)"
  shows "loop_work v1 v2 view seen x \<le> 5 * length (ring (fst x)) + 6010"
  using work_bound [OF assms] fd_work_bound [of view seen "async_fd (snd x)" "phase (snd x)"]
  by (simp add: loop_work_def)

lemma loop_task_inv:
  assumes "channel_ok (raw_ops W) CHANNEL_CAPACITY v1" and "channel_ok (dns_ops W) CHANNEL_CAPACITY v2"
    and "task_inv v1 v2 (fst x)" and "loop_step F W x l y"
  shows "task_inv v1 v2 (fst y)"
  using loop_step_refines [OF assms(4)] task_inv_step [OF assms(1-3)] assms(3) by auto

lemma drains_work:
  assumes "channel_ok (raw_ops W) CHANNEL_CAPACITY v1" and "channel_ok (dns_ops W) CHANNEL_CAPACITY v2"
    and "async_fd_ok F view seen" and "task_inv v1 v2 (fst x)" and "loop_drains F W x n tr y"
  shows "task_inv v1 v2 (fst y) \<and> n + loop_work v1 v2 view seen y \<le> loop_work v1 v2 view seen x"
  using assms(5)
proof induction
  case drains_start
  then show ?case using assms(4) by simp
next
  case (drains_step n tr u l y A)
  then have "task_inv v1 v2 (fst u)" by blast
  from loop_task_inv [OF assms(1,2) this drains_step(2)] loop_work_decreases [OF assms(1-3) this drains_step(2,3)]
  show ?case using drains_step(4) by simp
qed

lemma drains_to_rest:
  assumes "channel_ok (raw_ops W) CHANNEL_CAPACITY v1" and "channel_ok (dns_ops W) CHANNEL_CAPACITY v2"
    and "async_fd_ok F view seen" and "task_inv v1 v2 (fst x)"
  shows "\<exists>n tr y. loop_drains F W x n tr y \<and> at_rest F W y"
proof -
  have "\<exists>n' tr' y'. loop_drains F W x n' tr' y' \<and> at_rest F W y'" if "loop_drains F W x n tr y" for n tr y
    using that
  proof (induction "loop_work v1 v2 view seen y" arbitrary: n tr y rule: less_induct)
    case less
    show ?case
    proof (cases "at_rest F W y")
      case False
      then obtain A l z where st: "loop_step F W y l z" "loop_moved A y z"
        unfolding at_rest_def loop_enabled_def by blast
      have "task_inv v1 v2 (fst y)" using drains_work [OF assms less.prems] by blast
      from less.hyps [OF loop_work_decreases [OF assms(1-3) this st] drains_step [OF less.prems st]] show ?thesis .
    qed (use less.prems in blast)
  qed
  then show ?thesis using drains_start by blast
qed

lemma drains_runs:
  assumes "loop_runs F W x0 tr x" and "loop_drains F W x n tr' y"
  shows "loop_runs F W x0 (tr @ tr') y"
  using assms(2)
proof induction
  case drains_start
  then show ?case using assms(1) by simp
next
  case (drains_step n tr' u l y A)
  show ?case using loop_more [OF drains_step(4,2)] by simp
qed

lemma loop_moved_submits_nothing:
  assumes "loop_step F W x l y" and "loop_moved A x y"
  shows "submitted l = []"
  using assms(1)
proof cases
  case (loop_submit s woken q item)
  then show ?thesis using assms(2) by (cases A) (simp_all add: loop_moved_def)
qed (use moved_submits_nothing in \<open>auto simp del: moved.simps\<close>)

lemma drains_submits_nothing: "loop_drains F W x n tr y \<Longrightarrow> submitted tr = []"
  by (induction rule: loop_drains.induct) (simp_all add: loop_moved_submits_nothing)

lemma rest_drained:
  assumes "channel_ok (raw_ops W) CHANNEL_CAPACITY v1" and "channel_ok (dns_ops W) CHANNEL_CAPACITY v2"
    and "async_fd_ok F view seen" and "wake_inv view seen (s, q)" and "healthy W" and "tasks_up s"
    and "at_rest F W (s, q)"
  shows "ring s = []" and "queue (v1 (raw_chan s)) = []" and "queue (v2 (dns_chan s)) = []"
proof -
  have no: "\<not> loop_enabled A F W (s, q)" for A using assms(7) by (simp add: at_rest_def)
  show "ring s = []" using loop_reader_enabled [OF assms(3,4,6)] no by blast
  have "\<not> enabled Parser W s" "\<not> enabled Writer W s" using others_enabled no by blast+
  then show "queue (v1 (raw_chan s)) = []" "queue (v2 (dns_chan s)) = []"
    using parser_enabled [OF assms(1,6)] writer_enabled [OF assms(2,5,6)] by blast+
qed

section \<open>The loop from its start\<close>

text \<open>\<open>AsyncFd::new\<close> registers the descriptor; items that are in the ring already make it ready.\<close>

definition loop_init :: "('c, 'd, 'o, 'w) topology \<Rightarrow> 'f \<Rightarrow> ('c, 'd, 'o, 'w, 'f, 'g) system" where
  "loop_init s f = (s, \<lparr>async_fd = f, phase = Awaiting\<rparr>)"

definition registered :: "('f \<Rightarrow> fd_view) \<Rightarrow> ('c, 'd, 'o, 'w) topology \<Rightarrow> 'f \<Rightarrow> bool" where
  "registered view s f \<longleftrightarrow> (ring s \<noteq> [] \<longrightarrow> is_ready (view f))"

lemma fst_loop_init [simp]: "fst (loop_init s f) = s"
  by (simp add: loop_init_def)

lemma registered_inv: "registered view s f \<Longrightarrow> wake_inv view seen (loop_init s f)"
  by (simp add: registered_def wake_ok_def reader_waiting_def loop_init_def)

text \<open>With the FQDN engine the tasks stay up.\<close>

lemma loop_tasks_up:
  assumes "channel_ok (raw_ops W) CHANNEL_CAPACITY v1" and "channel_ok (dns_ops W) CHANNEL_CAPACITY v2"
    and "started v1 v2 s0" and "obs_update W = update ins" and "open_log W"
    and "loop_runs F W (loop_init s0 f0) tr x" and "list_all item_ok (ring s0 @ submitted tr)"
  shows "tasks_up (fst x)"
proof -
  have "runs W s0 tr (fst x)" using loop_runs_refines [OF assms(6)] by simp
  from fqdn.alive_runs [OF assms(4,1,2,3) refl this assms(7)] show ?thesis by (rule alive_tasks_up [OF assms(5)])
qed

text \<open>A fair run of the loop is a live run of the topology.\<close>

lemma loop_live:
  assumes "channel_ok (raw_ops W) CHANNEL_CAPACITY v1" and "channel_ok (dns_ops W) CHANNEL_CAPACITY v2"
    and "started v1 v2 s0" and "async_fd_ok F view seen" and "registered view s0 f0"
    and "obs_update W = update ins" and "open_log W"
    and "appends (log_write W) content" and "progress (log_write W) rank"
    and "\<rho> 0 = loop_init s0 f0" and "loop_behaviour F W \<rho> lab" and "\<forall>A. loop_fair A F W \<rho>"
    and "\<forall>n. list_all item_ok (ring s0 @ submitted (trace_upto lab n))"
  shows "live_run W v1 v2 (fst \<circ> \<rho>)" and "behaviour W (fst \<circ> \<rho>) lab"
proof -
  have run: "loop_runs F W (loop_init s0 f0) (trace_upto lab n) (\<rho> n)" for n
    using loop_behaviour_runs [OF assms(11)] assms(10) by metis
  have up: "tasks_up (fst (\<rho> n))" for n using loop_tasks_up [OF assms(1-3,6,7) run] assms(13) by blast
  have wi: "wake_inv view seen (\<rho> n)" for n using wake_inv_runs [OF assms(4) registered_inv [OF assms(5)] run] .
  have ti: "task_inv v1 v2 (fst (\<rho> n))" for n
    using runs_inv [OF assms(1-3) loop_runs_refines [OF run, simplified]] by blast
  have fair: "fair A W (fst \<circ> \<rho>)" for A using loop_fair_fair [OF assms(4,11)] assms(12) wi up by blast
  show beh: "behaviour W (fst \<circ> \<rho>) lab" by (rule loop_behaviour_refines [OF assms(11)])
  then show "live_run W v1 v2 (fst \<circ> \<rho>)"
    using assms(1,2) healthyI [OF assms(7-9)] fair ti up unfolding live_run_def by auto
qed

section \<open>Liveness\<close>

text \<open>In every infinite run that is weakly fair to the reader's loop, the parser and the writer, however
  many items the kernel goes on submitting, a submitted item that parses to a response \<open>r\<close> is eventually
  handed to the policy engine and then eventually logged; unless it is dropped, which happens only at a
  moment when the channel in front of it holds 1000 messages.\<close>

lemma eventually_logged:
  assumes "assembly_processing_topology conv mkfd raw_channel dns_channel f ebpf_map eng = Inr s0"
    and "channel_ok (raw_ops W) CHANNEL_CAPACITY v1" and "channel_ok (dns_ops W) CHANNEL_CAPACITY v2"
    and "v1 (raw_channel CHANNEL_CAPACITY) = empty_view" and "v2 (dns_channel CHANNEL_CAPACITY) = empty_view"
    and "async_fd_ok F view seen" and "registered view s0 f0"
    and "obs_update W = update ins" and "open_log W"
    and "appends (log_write W) content" and "progress (log_write W) rank"
    and "\<rho> 0 = loop_init s0 f0" and "loop_behaviour F W \<rho> lab" and "\<forall>A. loop_fair A F W \<rho>"
    and "\<forall>n. list_all item_ok (ring s0 @ submitted (trace_upto lab n))"
    and "Kernel item \<in> set (lab i)" and "item_response item = Some r"
  shows "\<exists>k>i. DropRaw item \<in> set (lab k) \<and> length (queue (v1 (raw_chan (fst (\<rho> k))))) = 1000
    \<or> Observed r \<in> set (lab k)
      \<and> (DropDns r \<in> set (lab k) \<and> length (queue (v2 (dns_chan (fst (\<rho> k))))) = 1000
         \<or> (\<exists>j>k. Logged r \<in> set (lab j)))"
proof -
  have st: "started v1 v2 s0" using assms(1,4,5) by (rule assembly_started)
  note live = loop_live [OF assms(2,3) st assms(6-15)]
  show ?thesis
    by (rule item_through [OF live assms(16,17)]) (auto simp: CHANNEL_CAPACITY_def)
qed

text \<open>A first item wakes the loop.\<close>

lemma loop_submits:
  "loop_runs F W (loop_init s f) [Kernel item]
     (s\<lparr>ring := ring s @ [item]\<rparr>, \<lparr>async_fd = wake F f, phase = Awaiting\<rparr>)"
proof -
  have "loop_step F W (loop_init s f) [Kernel item]
      (s\<lparr>ring := ring s @ [item]\<rparr>, \<lparr>async_fd = wake F f, phase = Awaiting\<rparr>)"
    using loop_submit [of s True F W "\<lparr>async_fd = f, phase = Awaiting\<rparr>" item] by (simp add: loop_init_def)
  from loop_more [OF loop_start this] show ?thesis by simp
qed

lemma sample_ring: "ring sample_start = []"
  by (simp add: sample_start_def)

lemma sample_registered: "registered (\<lambda>v. v) sample_start idle"
  by (simp add: registered_def sample_ring)

definition sample_submitted ::
  "(RawDnsEvent chan_view, DnsResponse chan_view, (RawIpAddr \<times> u8) list FqdnPolicyEngine, nat \<times> bytes, fd_view, nat) system" where
  "sample_submitted = (sample_start\<lparr>ring := [sample_item]\<rparr>,
     \<lparr>async_fd = \<lparr>is_ready = True, wakeups = 1\<rparr>, phase = Awaiting\<rparr>)"

lemma sample_submit: "loop_runs sample_fd sample_world (loop_init sample_start idle) [Kernel sample_item] sample_submitted"
  using loop_submits [of sample_fd sample_world sample_start idle sample_item]
  by (simp add: sample_submitted_def sample_ring) (simp add: sample_fd_def idle_def)

lemma sample_started: "started (\<lambda>c. c) (\<lambda>c. c) sample_start"
  by (rule assembly_started [OF sample_assembly]) simp_all

lemma sample_item_ok: "item_ok sample_item"
proof -
  have "unat (ev_payload_len (sample_event sample_msg)) \<le> 512" by code_simp
  then show ?thesis by (simp add: item_ok_def sample_item_event)
qed

lemma sample_world_simps:
  "obs_update sample_world = update list_insert" "open_log sample_world"
  "log_write sample_world = sample_disk"
  by (simp_all add: sample_world_def)

section \<open>Properties\<close>

text \<open>C21. The reader's loop loses no wake-up: every run of the loop is a run of the topology with the
  same trace, and whenever the loop waits for the descriptor while the ring holds an item, the
  descriptor is ready. An item submitted between the last look at the ring and \<open>clear_ready\<close> is no
  exception.\<close>

theorem no_lost_wakeup:
  assumes "async_fd_ok F view seen" and "registered view s0 f0"
    and "loop_runs F W (loop_init s0 f0) tr (s, q)"
  shows "runs W s0 tr s \<and> (ring s \<noteq> [] \<and> phase q = Awaiting \<longrightarrow> (\<exists>g. readable_mut F (async_fd q) = Ready g))"
proof -
  have "\<exists>g. readable_mut F (async_fd q) = Ready g" if "ring s \<noteq> []" "phase q = Awaiting"
    by (rule reader_wait.never_asleep [OF assms(1) registered_inv [OF assms(2)] assms(3)])
      (use that in \<open>simp add: reader_waiting_def\<close>)
  then show ?thesis using loop_runs_refines [OF assms(3)] by auto
qed

theorem no_lost_wakeup_witness:
  "runs sample_world sample_start [Kernel sample_item] (sample_start\<lparr>ring := [sample_item]\<rparr>)
   \<and> (\<exists>g. readable_mut sample_fd \<lparr>is_ready = True, wakeups = 1\<rparr> = Ready g)"
  using no_lost_wakeup [OF sample_fd_ok sample_registered sample_submit [unfolded sample_submitted_def]] by simp



end
