(* ===== verification/Traffic.thy ===== *)
theory Traffic
  imports Classifier Event_Loop
begin

text \<open>
  The kernel side and the daemon as one system: packets arrive, the classifier
  (\<open>cilium-mini-ebpf/src/main.rs\<close>) handles each and may put an item into the ring, and the daemon's
  tasks (\<open>cilium-mini-rs/src/topology.rs\<close>) run in between. The ring has the 64 MiB that \<open>DNS_EVENTS_PIPE\<close>
  declares; reserving a record fails exactly if it would not fit beside those the reader has not taken
  yet, each with its header of eight bytes, as the documentation of the ring buffer has it. What should
  be logged is a function of the packets alone (\<open>packet_responses\<close>).
\<close>

section \<open>The items of a packet\<close>

definition packet_items :: "net_types \<Rightarrow> kernel_env \<Rightarrow> tc_context \<Rightarrow> bytes list" where
  "packet_items net env ctx = map event_to_bytes (snd (dns_tc net env ctx []))"

lemma packet_items_eq:
  assumes "net_ok net" and "ctx_ok ctx" and "env_ok env"
  shows "packet_items net env ctx = map event_to_bytes (events_of net env (packet ctx))"
  using dns_tc_events [OF assms, of "[]"] by (simp add: packet_items_def)

lemma events_of_cases:
  obtains (none) "events_of net env pkt = []"
  | (event) d stale where "dns_response net pkt = Some d" "reserve env = Some stale"
      "events_of net env pkt = [event_for d (ktime_end env) stale]"
  by (cases "dns_response net pkt"; cases "reserve env") (auto simp: events_of_def)

lemma dns_response_ip_ok:
  assumes "dns_response net pkt = Some d"
  shows "ip_ok (dp_src d)" and "ip_ok (dp_dst d)"
  using assms by (auto simp: dns_response_def udp_response_def Let_def ip_ok_def from_ipv4_def from_ipv6_def
      split: if_splits option.splits EtherType.splits)

text \<open>An event of the classifier on its way through the ring.\<close>

lemma event_for_item:
  assumes "net_ok net" and "env_ok env" and "dns_response net pkt = Some d" and "reserve env = Some stale"
  defines "ev \<equiv> event_for d (ktime_end env) stale"
  shows "wf_event ev" and "unat (ev_payload_len ev) = min 512 (length (dp_payload d))"
    and "live_payload ev = take 512 (dp_payload d)" and "ip_ok (ev_src_ip ev)" and "ip_ok (ev_dst_ip ev)"
    and "item_response (event_to_bytes ev) = event_response ev" and "item_ok (event_to_bytes ev)"
proof -
  have "wf_event stale" using assms(2,4) by (simp add: env_ok_def)
  note b = event_for_bounds [OF this dns_response_wf [OF assms(1,3)], of "ktime_end env"]
  have len: "unat (ev_payload_len ev) = min 512 (length (dp_payload d))"
    by (simp add: ev_def event_for_def Let_def unat_of_nat)
  then show "unat (ev_payload_len ev) = min 512 (length (dp_payload d))" .
  show wf: "wf_event ev" using b by (simp add: ev_def)
  show "live_payload ev = take 512 (dp_payload d)"
    using len by (simp add: live_payload_def ev_def event_for_def Let_def min_def)
  show "ip_ok (ev_src_ip ev)" "ip_ok (ev_dst_ip ev)"
    using dns_response_ip_ok [OF assms(3)] by (simp_all add: ev_def event_for_def Let_def)
  show "item_response (event_to_bytes ev) = event_response ev" "item_ok (event_to_bytes ev)"
    using wf len by (simp_all add: item_response_def item_ok_def raw_event.length_image raw_event.of_to)
qed

text \<open>Items that come from packets, however many and on whatever machine state, are what the daemon
  expects.\<close>

definition from_packet :: "net_types \<Rightarrow> bytes \<Rightarrow> bool" where
  "from_packet net item \<longleftrightarrow> (\<exists>ctx env. ctx_ok ctx \<and> env_ok env \<and> item \<in> set (packet_items net env ctx))"

lemma from_packet_ok:
  assumes "net_ok net" and "from_packet net item"
  shows "item_ok item"
proof -
  obtain ctx env where c: "ctx_ok ctx" "env_ok env" "item \<in> set (packet_items net env ctx)"
    using assms(2) by (auto simp: from_packet_def)
  show ?thesis
    using c(3) event_for_item(7) [OF assms(1) c(2)]
    by (cases rule: events_of_cases [of net env "packet ctx"])
      (auto simp: packet_items_eq [OF assms(1) c(1,2)])
qed

section \<open>Packets and tasks\<close>

text \<open>The ring keeps one byte free, so that full and empty differ.\<close>

definition ring_room :: "('c, 'd, 'o, 'w) topology \<Rightarrow> bool" where
  "ring_room s \<longleftrightarrow> (length (ring s) + 1) * (size_of RawDnsEvent_layout + 8) < max_entries DNS_EVENTS_PIPE"

inductive traffic ::
  "net_types \<Rightarrow> ('f, 'g) async_fd \<Rightarrow> ('c, 'd, 'o, 'e, 'w) world \<Rightarrow> ('c, 'd, 'o, 'w, 'f, 'g) system \<Rightarrow>
     (tc_context \<times> kernel_env) list \<Rightarrow> label list \<Rightarrow> ('c, 'd, 'o, 'w, 'f, 'g) system \<Rightarrow> bool"
  for net F W x0 where
  traffic_start: "traffic net F W x0 [] [] x0"
| traffic_passed:
    "traffic net F W x0 ps tr x \<Longrightarrow> ctx_ok ctx \<Longrightarrow> env_ok env \<Longrightarrow> reserve env = None \<longleftrightarrow> \<not> ring_room (fst x) \<Longrightarrow>
     packet_items net env ctx = [] \<Longrightarrow> traffic net F W x0 (ps @ [(ctx, env)]) tr x"
| traffic_event:
    "traffic net F W x0 ps tr x \<Longrightarrow> ctx_ok ctx \<Longrightarrow> env_ok env \<Longrightarrow> reserve env = None \<longleftrightarrow> \<not> ring_room (fst x) \<Longrightarrow>
     packet_items net env ctx = [item] \<Longrightarrow> loop_step F W x [Kernel item] y \<Longrightarrow>
     traffic net F W x0 (ps @ [(ctx, env)]) (tr @ [Kernel item]) y"
| traffic_task:
    "traffic net F W x0 ps tr x \<Longrightarrow> loop_step F W x l y \<Longrightarrow> submitted l = [] \<Longrightarrow>
     traffic net F W x0 ps (tr @ l) y"

text \<open>What a packet that arrives at time \<open>ts\<close> should leave in the log.\<close>

definition packet_response :: "net_types \<Rightarrow> u64 \<Rightarrow> bytes \<Rightarrow> DnsResponse option" where
  "packet_response net ts pkt = (case dns_response net pkt of
     None \<Rightarrow> None | Some d \<Rightarrow> event_response (event_for d ts default_RawDnsEvent))"

definition packet_responses :: "net_types \<Rightarrow> (tc_context \<times> kernel_env) list \<Rightarrow> DnsResponse list" where
  "packet_responses net ps = List.map_filter (\<lambda>(ctx, env). packet_response net (ktime_end env) (packet ctx)) ps"

lemma packet_responses_snoc:
  "packet_responses net [] = []"
  "packet_responses net (ps @ [(ctx, env)]) =
     packet_responses net ps @ (case packet_response net (ktime_end env) (packet ctx) of None \<Rightarrow> [] | Some r \<Rightarrow> [r])"
  by (simp_all add: packet_responses_def map_filter_simps split: option.splits)

text \<open>What the reserved memory held does not matter.\<close>

lemma event_for_stale:
  assumes "net_ok net" and "env_ok env" and "dns_response net pkt = Some d" and "reserve env = Some stale"
  shows "event_response (event_for d (ktime_end env) stale) = event_response (event_for d (ktime_end env) default_RawDnsEvent)"
proof -
  let ?env = "env\<lparr>reserve := Some default_RawDnsEvent\<rparr>"
  have env: "env_ok ?env" by (simp add: env_ok_def wf_default_event)
  have res: "reserve ?env = Some default_RawDnsEvent" by simp
  note e = event_for_item [OF assms] and e' = event_for_item [OF assms(1) env assms(3) res, simplified]
  show ?thesis
    unfolding event_response_def
    by (subst parse_dns_live [OF e'(1) e(1)]) (use e(3) e'(3) in \<open>simp_all add: event_for_def Let_def\<close>)
qed

lemma packet_items_cases:
  assumes "net_ok net" and "ctx_ok ctx" and "env_ok env"
  obtains (none) "packet_items net env ctx = []" "packet_response net (ktime_end env) (packet ctx) = None"
  | (full) "packet_items net env ctx = []" "reserve env = None"
  | (item) item where "packet_items net env ctx = [item]"
      "item_response item = packet_response net (ktime_end env) (packet ctx)"
proof (cases "dns_response net (packet ctx)")
  case None
  then show ?thesis using none by (simp add: packet_items_eq [OF assms] events_of_def packet_response_def)
next
  case (Some d)
  show ?thesis
  proof (cases "reserve env")
    case None
    then show ?thesis using Some full by (simp add: packet_items_eq [OF assms] events_of_def)
  next
    case r: (Some stale)
    show ?thesis
      by (rule item [of "event_to_bytes (event_for d (ktime_end env) stale)"])
        (simp_all add: packet_items_eq [OF assms] events_of_def Some r packet_response_def
          event_for_item(6) [OF assms(1,3) Some r] event_for_stale [OF assms(1,3) Some r])
  qed
qed

lemma items_reserved:
  assumes "net_ok net" and "ctx_ok ctx" and "env_ok env" and "packet_items net env ctx = [item]"
  shows "reserve env \<noteq> None"
  using assms(4) by (auto simp: packet_items_eq [OF assms(1-3)] events_of_def split: option.splits)

section \<open>Runs with traffic\<close>

lemma traffic_runs: "traffic net F W x0 ps tr x \<Longrightarrow> loop_runs F W x0 tr x"
proof (induction rule: traffic.induct)
  case (traffic_event ps tr x ctx env item y)
  then show ?case using loop_more by blast
next
  case (traffic_task ps tr x l y)
  then show ?case using loop_more by blast
qed (simp_all add: loop_start)

lemma submit_ring: "loop_step F W x [Kernel item] y \<Longrightarrow> ring (fst y) = ring (fst x) @ [item]"
  using loop_step_refines kernel_step by fastforce

lemma task_ring:
  assumes "loop_step F W x l y" and "submitted l = []"
  shows "length (ring (fst y)) \<le> length (ring (fst x))"
  using loop_step_refines [OF assms(1)]
proof
  assume "step W (fst x) l (fst y)"
  then show ?thesis by cases (use assms(2) in auto)
qed simp

text \<open>The ring holds at most 114912 items, and no more than packets have arrived.\<close>

lemma ring_room_iff: "ring_room s \<longleftrightarrow> length (ring s) < 114912"
  by (simp add: ring_room_def size_RawDnsEvent DNS_EVENTS_PIPE_def) presburger

lemma traffic_ring:
  assumes "net_ok net" and "ring (fst x0) = []" and "traffic net F W x0 ps tr x"
  shows "length (ring (fst x)) \<le> min (length ps) 114912"
  using assms(3)
proof (induction rule: traffic.induct)
  case (traffic_event ps tr x ctx env item y)
  have "reserve env \<noteq> None" by (rule items_reserved [OF assms(1) traffic_event.hyps(2,3,5)])
  then have "length (ring (fst x)) < 114912" using traffic_event.hyps(4) by (simp add: ring_room_iff)
  then show ?case using traffic_event.IH submit_ring [OF traffic_event.hyps(6)] by simp
next
  case (traffic_task ps tr x l y)
  then show ?case using task_ring [OF traffic_task.hyps(2,3)] by simp
qed (use assms(2) in auto)

lemma traffic_responses:
  assumes "net_ok net" and "ring (fst x0) = []" and "traffic net F W x0 ps tr x"
  shows "subseq (responses (submitted tr)) (packet_responses net ps)
    \<and> (length ps \<le> 114912 \<longrightarrow> responses (submitted tr) = packet_responses net ps)"
  using assms(3)
proof (induction rule: traffic.induct)
  case (traffic_passed ps tr x ctx env)
  have room: "reserve env \<noteq> None" if "length ps < 114912"
    using traffic_ring [OF assms(1,2) traffic_passed.hyps(1)] that traffic_passed.hyps(4) by (simp add: ring_room_iff)
  show ?case
  proof (cases rule: packet_items_cases [OF assms(1) traffic_passed.hyps(2,3)])
    case 1
    then show ?thesis using traffic_passed.IH by (simp add: packet_responses_snoc)
  next
    case 2
    then show ?thesis using traffic_passed.IH room by (auto simp: packet_responses_snoc intro: subseq_rev_drop_many)
  next
    case (3 it)
    then show ?thesis using traffic_passed.hyps(5) by simp
  qed
next
  case (traffic_event ps tr x ctx env item y)
  show ?case
  proof (cases rule: packet_items_cases [OF assms(1) traffic_event.hyps(2,3)])
    case (3 it)
    then show ?thesis using traffic_event by (auto simp: packet_responses_snoc split: option.splits)
  qed (use traffic_event.hyps(5) in simp_all)
qed (simp_all add: packet_responses_snoc)

text \<open>A run goes on while the tasks come to rest.\<close>

lemma traffic_drains:
  assumes "traffic net F W x0 ps tr x" and "loop_drains F W x n tr' y"
  shows "traffic net F W x0 ps (tr @ tr') y"
  using assms(2)
proof induction
  case (drains_step n tr' u l y A)
  then show ?case
    using traffic_task [OF drains_step(4,2) loop_moved_submits_nothing [OF drains_step(2,3)]] by simp
qed (use assms(1) in simp)

section \<open>A message\<close>

text \<open>The sample message is a response with one address.\<close>

lemma sample_msg_ok:
  "one_answer_msg sample_msg [[97, 98], [99]] [1, 2, 3, 4]" "sample_msg \<noteq> []" "length sample_msg \<le> 512"
  "dotted [[97, 98], [99]] = ''ab.c''"
proof -
  have nm: "answer_name [0xC0, 12]" by (rule answer_name_pointer) (simp add: COMPRESSION_MASK_def)
  have v: "valid_qname [[97, 98], [99]]" and b: "of_be [0, 1] = (1 :: u16)" by code_simp+
  show "one_answer_msg sample_msg [[97, 98], [99]] [1, 2, 3, 4]"
    unfolding one_answer_msg_def sample_msg_def
    by (intro exI [of _ "[0, 1, 0x81, 0x80, 0, 1, 0, 1, 0, 0, 0, 0]"] exI [of _ "[0, 1, 0, 1]"] exI [of _ "[0xC0, 12]"]
        exI [of _ 1] exI [of _ "[0, 1]"] exI [of _ "[0, 0, 0, 60]"] exI [of _ "[]"]) (simp add: nm v b)
  show "sample_msg \<noteq> []" "length sample_msg \<le> 512" "dotted [[97, 98], [99]] = ''ab.c''" by code_simp+
qed

end
