(* ===== verification/Accounting.thy ===== *)
theory Accounting
  imports Traffic "HOL-Library.Multiset"
begin

text \<open>
  The books of the pipeline (\<open>cilium-mini-rs/src/topology.rs\<close>) and of the ring in front of it: every
  response is counted, with its multiplicity, from the packet that carries it to the log. At each moment
  it is in exactly one place: refused by the full ring, in the ring, in the first channel, dropped in front
  of it, in the second channel, dropped in front of that, or logged. \<open>Pipeline\<close> has the order; here is
  how much.
\<close>

section \<open>Places\<close>

definition dropped_raw :: "label list \<Rightarrow> DnsResponse list" where
  "dropped_raw tr = List.map_filter (\<lambda>l. case l of DropRaw i \<Rightarrow> item_response i | _ \<Rightarrow> None) tr"

definition dropped_dns :: "label list \<Rightarrow> DnsResponse list" where
  "dropped_dns tr = List.map_filter (\<lambda>l. case l of DropDns r \<Rightarrow> Some r | _ \<Rightarrow> None) tr"

lemma dropped_raw_simps [simp]:
  "dropped_raw [] = []" "dropped_raw (Kernel i # tr) = dropped_raw tr" "dropped_raw (Observed r # tr) = dropped_raw tr"
  "dropped_raw (Logged r # tr) = dropped_raw tr" "dropped_raw (DropDns r # tr) = dropped_raw tr"
  "dropped_raw (DropRaw i # tr) = responses [i] @ dropped_raw tr" "dropped_raw (tr @ l) = dropped_raw tr @ dropped_raw l"
  by (simp_all add: dropped_raw_def map_filter_simps split: option.splits)

lemma dropped_dns_simps [simp]:
  "dropped_dns [] = []" "dropped_dns (Kernel i # tr) = dropped_dns tr" "dropped_dns (Observed r # tr) = dropped_dns tr"
  "dropped_dns (Logged r # tr) = dropped_dns tr" "dropped_dns (DropDns r # tr) = r # dropped_dns tr"
  "dropped_dns (DropRaw i # tr) = dropped_dns tr" "dropped_dns (tr @ l) = dropped_dns tr @ dropped_dns l"
  by (simp_all add: dropped_dns_def map_filter_simps)

text \<open>On its way to the engine, and from there to the log.\<close>

definition unparsed :: "('c \<Rightarrow> RawDnsEvent chan_view) \<Rightarrow> ('c, 'd, 'o, 'w) topology \<Rightarrow> DnsResponse multiset" where
  "unparsed v1 s = mset (event_responses (queue (v1 (raw_chan s)))) + mset (responses (ring s))"

definition unwritten :: "('d \<Rightarrow> DnsResponse chan_view) \<Rightarrow> ('c, 'd, 'o, 'w) topology \<Rightarrow> DnsResponse multiset" where
  "unwritten v2 s = mset (queue (v2 (dns_chan s)))"

section \<open>One step\<close>

lemma balance_step:
  assumes c1: "channel_ok (raw_ops W) CHANNEL_CAPACITY v1" and c2: "channel_ok (dns_ops W) CHANNEL_CAPACITY v2"
    and ti: "task_inv v1 v2 s" and "step W s l t"
  shows "unparsed v1 s + mset (responses (submitted l)) = mset (dropped_raw l) + mset (observed l) + unparsed v1 t
    \<and> unwritten v2 s + mset (observed l) = mset (dropped_dns l) + mset (logged l) + unwritten v2 t"
proof -
  let ?Q1 = "event_responses (queue (v1 (raw_chan s)))" and ?Q2 = "queue (v2 (dns_chan s))"
  note d = unparsed_def unwritten_def and ch = channel_okD(4-) [OF c1] channel_okD(4-) [OF c2]
  from assms(4) show ?thesis
  proof cases
    case (reader_item item rest st c)
    from reader_item(5) show ?thesis
      by (cases rule: reader_step_cases)
        (use reader_item in \<open>auto simp: d ch item_response_def channel_okD(3) [OF c1] split: option.splits\<close>)
  next
    case (parser_event ev st resp obs dd)
    from ti parser_event(3) have "queue (v1 (raw_chan s)) = ev # tl (queue (v1 (raw_chan s)))"
      by (simp add: task_inv_def tl_append_hd)
    then have q1: "?Q1 = (case event_response ev of None \<Rightarrow> [] | Some r \<Rightarrow> [r]) @ event_responses (tl (queue (v1 (raw_chan s))))"
      by (metis responses_simps(4))
    from parser_event(4) show ?thesis
      by (cases rule: parser_step_cases) (use parser_event q1 in \<open>auto simp: d ch channel_okD(3) [OF c2]\<close>)
  next
    case (writer_event r buf bw)
    from ti writer_event(3) obtain q where "?Q2 = r # q" by (cases ?Q2) (auto simp: task_inv_def)
    then show ?thesis using writer_event by (simp add: d ch)
  qed (simp_all add: d ch)
qed

section \<open>Runs\<close>

lemma balance_runs:
  assumes "channel_ok (raw_ops W) CHANNEL_CAPACITY v1" and "channel_ok (dns_ops W) CHANNEL_CAPACITY v2"
    and "started v1 v2 s0" and "runs W s0 tr s"
  shows "mset (responses (ring s0 @ submitted tr)) = mset (dropped_raw tr) + mset (observed tr) + unparsed v1 s
    \<and> mset (observed tr) = mset (dropped_dns tr) + mset (logged tr) + unwritten v2 s"
  using assms(4)
proof induction
  case runs_start
  then show ?case using assms(3) by (simp add: unparsed_def unwritten_def started_def empty_view_def)
next
  case (runs_step tr s l t)
  have "task_inv v1 v2 s" using runs_inv [OF assms(1-3) runs_step(1)] by blast
  note b = balance_step [OF assms(1,2) this runs_step(2)]
  have "mset (responses (ring s0 @ submitted (tr @ l))) = mset (dropped_raw tr) + mset (observed tr)
      + (unparsed v1 s + mset (responses (submitted l)))" using runs_step(3) by simp
  moreover have "mset (observed (tr @ l)) = mset (dropped_dns tr) + mset (logged tr) + (unwritten v2 s + mset (observed l))"
    using runs_step(3) by simp
  ultimately show ?case using b by simp
qed

text \<open>What the full ring refused.\<close>

definition refused :: "(tc_context \<times> kernel_env) list \<Rightarrow> (tc_context \<times> kernel_env) list" where
  "refused ps = filter (\<lambda>(ctx, env). reserve env = None) ps"

lemma refused_snoc [simp]:
  "refused [] = []" "refused (ps @ [(ctx, env)]) = refused ps @ (if reserve env = None then [(ctx, env)] else [])"
  by (simp_all add: refused_def)

lemma traffic_balance:
  assumes "net_ok net" and "traffic net F W x0 ps tr x"
  shows "mset (packet_responses net ps) = mset (packet_responses net (refused ps)) + mset (responses (submitted tr))"
  using assms(2)
proof (induction rule: traffic.induct)
  case (traffic_passed ps tr x ctx env)
  then show ?case
    by (cases rule: packet_items_cases [OF assms(1) traffic_passed.hyps(2,3)])
      (auto simp: packet_responses_snoc split: option.splits)
next
  case (traffic_event ps tr x ctx env item y)
  have "reserve env \<noteq> None" by (rule items_reserved [OF assms(1) traffic_event.hyps(2,3,5)])
  then show ?case
    by (cases rule: packet_items_cases [OF assms(1) traffic_event.hyps(2,3)])
      (use traffic_event in \<open>auto simp: packet_responses_snoc split: option.splits\<close>)
qed (simp_all add: packet_responses_snoc)

end
