(* ===== verification/Arrivals.thy ===== *)
theory Arrivals
  imports Traffic
begin

text \<open>
  Traffic without end: infinite runs in which, at each moment, a packet arrives at the classifier
  (\<open>dns_tc\<close> in \<open>cilium-mini-ebpf/src/main.rs\<close>), a task of the daemon moves, or nothing happens. Their
  finite beginnings are the runs of \<open>Traffic\<close>; conversely every run of \<open>Traffic\<close> begins one in which the
  tasks are scheduled fairly, so that what is shown of fair runs is about all of them. Forgetting the
  packets gives a run of \<open>Event_Loop\<close>.
\<close>

section \<open>Steps with arrivals\<close>

text \<open>A packet that the classifier passes on without an event changes nothing in user space; one with an
  event submits it. A task submits nothing, and nothing need happen at all.\<close>

type_synonym arrival = "tc_context \<times> kernel_env"

fun traffic_step ::
  "net_types \<Rightarrow> ('f, 'g) async_fd \<Rightarrow> ('c, 'd, 'o, 'e, 'w) world \<Rightarrow> ('c, 'd, 'o, 'w, 'f, 'g) system \<Rightarrow>
     label list \<times> arrival option \<Rightarrow> ('c, 'd, 'o, 'w, 'f, 'g) system \<Rightarrow> bool" where
  "traffic_step net F W x (l, None) y \<longleftrightarrow> submitted l = [] \<and> (loop_step F W x l y \<or> l = [] \<and> y = x)"
| "traffic_step net F W x (l, Some (ctx, env)) y \<longleftrightarrow>
     ctx_ok ctx \<and> env_ok env \<and> (reserve env = None \<longleftrightarrow> \<not> ring_room (fst x)) \<and>
     (packet_items net env ctx = [] \<and> l = [] \<and> y = x
      \<or> (\<exists>item. packet_items net env ctx = [item] \<and> l = [Kernel item] \<and> loop_step F W x l y))"

definition traffic_behaviour :: "net_types \<Rightarrow> ('f, 'g) async_fd \<Rightarrow> ('c, 'd, 'o, 'e, 'w) world \<Rightarrow>
    (nat \<Rightarrow> ('c, 'd, 'o, 'w, 'f, 'g) system) \<Rightarrow> (nat \<Rightarrow> label list \<times> arrival option) \<Rightarrow> bool" where
  "traffic_behaviour net F W \<rho> ev \<longleftrightarrow> (\<forall>i. traffic_step net F W (\<rho> i) (ev i) (\<rho> (Suc i)))"

definition arrivals :: "(nat \<Rightarrow> label list \<times> arrival option) \<Rightarrow> nat \<Rightarrow> arrival list" where
  "arrivals ev n = List.map_filter (snd \<circ> ev) [0..<n]"

lemma arrivals_simps [simp]:
  "arrivals ev 0 = []" "arrivals ev (Suc n) = arrivals ev n @ (case snd (ev n) of None \<Rightarrow> [] | Some p \<Rightarrow> [p])"
  by (simp_all add: arrivals_def map_filter_simps split: option.splits)

lemma arrivals_cong: "(\<And>j. j < n \<Longrightarrow> ev j = ev' j) \<Longrightarrow> arrivals ev n = arrivals ev' n"
  by (induction n) simp_all

lemma arrivals_set: "p \<in> set (arrivals ev n) \<Longrightarrow> \<exists>i<n. snd (ev i) = Some p"
  by (induction n) (auto simp: less_Suc_eq split: option.splits)

lemma traffic_step_more:
  assumes "traffic net F W x0 ps tr x" and "traffic_step net F W x e y"
  shows "traffic net F W x0 (ps @ (case snd e of None \<Rightarrow> [] | Some p \<Rightarrow> [p])) (tr @ fst e) y"
proof (cases "(net, F, W, x, e, y)" rule: traffic_step.cases)
  case (1 net' F' W' x' l y')
  then show ?thesis using assms traffic_task [OF assms(1), of l y] by auto
next
  case (2 net' F' W' x' l ctx env y')
  then show ?thesis
    using assms traffic_passed [OF assms(1), of ctx env] traffic_event [OF assms(1), of ctx env _ y] by auto
qed

section \<open>Finite and infinite runs\<close>

lemma traffic_behaviour_runs:
  assumes "traffic_behaviour net F W \<rho> ev"
  shows "traffic net F W (\<rho> 0) (arrivals ev n) (trace_upto (fst \<circ> ev) n) (\<rho> n)"
proof (induction n)
  case (Suc n)
  from traffic_step_more [OF Suc] assms show ?case by (simp add: traffic_behaviour_def)
qed (simp add: traffic_start)

lemma traffic_behaviour_loop:
  assumes "traffic_behaviour net F W \<rho> ev"
  shows "loop_behaviour F W \<rho> (fst \<circ> ev)"
  unfolding loop_behaviour_def
proof
  fix i
  from assms have "traffic_step net F W (\<rho> i) (ev i) (\<rho> (Suc i))" by (simp add: traffic_behaviour_def)
  then show "loop_step F W (\<rho> i) ((fst \<circ> ev) i) (\<rho> (Suc i)) \<or> (fst \<circ> ev) i = [] \<and> \<rho> (Suc i) = \<rho> i"
    by (cases "(net, F, W, \<rho> i, ev i, \<rho> (Suc i))" rule: traffic_step.cases) auto
qed

lemma traffic_from_packets: "traffic net F W x0 ps tr x \<Longrightarrow> list_all (from_packet net) (submitted tr)"
proof (induction rule: traffic.induct)
  case (traffic_event ps tr x ctx env item y)
  then have "from_packet net item"
    unfolding from_packet_def by (intro exI [of _ ctx] exI [of _ env]) simp
  with traffic_event.IH show ?case by simp
qed simp_all

text \<open>Every finite run is the beginning of an infinite one in which nothing more happens.\<close>

definition begins_with :: "(nat \<Rightarrow> ('c, 'd, 'o, 'w, 'f, 'g) system) \<Rightarrow> (nat \<Rightarrow> label list \<times> arrival option) \<Rightarrow>
    arrival list \<Rightarrow> label list \<Rightarrow> ('c, 'd, 'o, 'w, 'f, 'g) system \<Rightarrow> bool" where
  "begins_with \<rho> ev ps tr x \<longleftrightarrow> (\<exists>n. arrivals ev n = ps \<and> trace_upto (fst \<circ> ev) n = tr \<and> (\<forall>j\<ge>n. \<rho> j = x \<and> ev j = ([], None)))"

lemma begins_with_more:
  assumes "traffic_behaviour net F W \<rho> ev" and "begins_with \<rho> ev ps tr x" and "traffic_step net F W x (l, p) y"
  shows "\<exists>\<rho>' ev'. traffic_behaviour net F W \<rho>' ev' \<and> \<rho>' 0 = \<rho> 0
    \<and> begins_with \<rho>' ev' (ps @ (case p of None \<Rightarrow> [] | Some p \<Rightarrow> [p])) (tr @ l) y"
proof -
  obtain n where n: "arrivals ev n = ps" "trace_upto (fst \<circ> ev) n = tr" "\<forall>j\<ge>n. \<rho> j = x \<and> ev j = ([], None)"
    using assms(2) by (auto simp: begins_with_def)
  from extend_run [of "traffic_step net F W" \<rho> ev n x "([], None)" "(l, p)" y] assms(1,3) n(3) obtain \<rho>' ev' where
    e: "traffic_behaviour net F W \<rho>' ev'" "\<rho>' 0 = \<rho> 0" "\<forall>j<n. ev' j = ev j" "ev' n = (l, p)"
      "\<forall>j\<ge>Suc n. \<rho>' j = y \<and> ev' j = ([], None)" by (auto simp: traffic_behaviour_def)
  have "trace_upto (fst \<circ> ev') (Suc n) = tr @ l"
    using trace_upto_cong [of n "fst \<circ> ev'" "fst \<circ> ev"] e(3,4) n(2) by simp
  moreover have "arrivals ev' (Suc n) = ps @ (case p of None \<Rightarrow> [] | Some p \<Rightarrow> [p])"
    using arrivals_cong [of n ev' ev] e(3,4) n(1) by simp
  ultimately have "begins_with \<rho>' ev' (ps @ (case p of None \<Rightarrow> [] | Some p \<Rightarrow> [p])) (tr @ l) y"
    using e(5) unfolding begins_with_def by (intro exI [of _ "Suc n"]) simp
  with e(1,2) show ?thesis by blast
qed

lemma traffic_run_behaviour:
  assumes "traffic net F W x0 ps tr x"
  shows "\<exists>\<rho> ev. traffic_behaviour net F W \<rho> ev \<and> \<rho> 0 = x0 \<and> begins_with \<rho> ev ps tr x"
  using assms
proof induction
  case traffic_start
  show ?case
    by (intro exI [of _ "\<lambda>_. x0"] exI [of _ "\<lambda>_. ([], None)"])
      (auto simp: traffic_behaviour_def begins_with_def intro: exI [of _ 0])
next
  case (traffic_passed ps tr x ctx env)
  then obtain \<rho> ev where b: "traffic_behaviour net F W \<rho> ev" "\<rho> 0 = x0" "begins_with \<rho> ev ps tr x" by blast
  have "traffic_step net F W x ([], Some (ctx, env)) x" using traffic_passed.hyps by simp
  from begins_with_more [OF b(1,3) this] b(2) show ?case by simp
next
  case (traffic_event ps tr x ctx env item y)
  then obtain \<rho> ev where b: "traffic_behaviour net F W \<rho> ev" "\<rho> 0 = x0" "begins_with \<rho> ev ps tr x" by blast
  have "traffic_step net F W x ([Kernel item], Some (ctx, env)) y" using traffic_event.hyps by simp
  from begins_with_more [OF b(1,3) this] b(2) show ?case by simp
next
  case (traffic_task ps tr x l y)
  then obtain \<rho> ev where b: "traffic_behaviour net F W \<rho> ev" "\<rho> 0 = x0" "begins_with \<rho> ev ps tr x" by blast
  have "traffic_step net F W x (l, None) y" using traffic_task.hyps by simp
  from begins_with_more [OF b(1,3) this] b(2) show ?case by simp
qed

text \<open>And of one in which the tasks are scheduled fairly.\<close>

lemma traffic_fair_extension:
  assumes "channel_ok (raw_ops W) CHANNEL_CAPACITY v1" and "channel_ok (dns_ops W) CHANNEL_CAPACITY v2"
    and "async_fd_ok F view seen" and "started v1 v2 (fst x0)" and "traffic net F W x0 ps tr x"
  shows "\<exists>\<rho> ev tr' y. traffic_behaviour net F W \<rho> ev \<and> \<rho> 0 = x0 \<and> (\<forall>A. loop_fair A F W \<rho>)
    \<and> begins_with \<rho> ev ps (tr @ tr') y"
proof -
  have "task_inv v1 v2 (fst x)"
    using runs_inv [OF assms(1,2,4) loop_runs_refines [OF traffic_runs [OF assms(5)]]] by blast
  from drains_to_rest [OF assms(1-3) this] obtain m tr' y where
    d: "loop_drains F W x m tr' y" and r: "at_rest F W y" by blast
  from traffic_run_behaviour [OF traffic_drains [OF assms(5) d]] obtain \<rho> ev where
    b: "traffic_behaviour net F W \<rho> ev" "\<rho> 0 = x0" "begins_with \<rho> ev ps (tr @ tr') y" by blast
  from b(3) r have "loop_fair A F W \<rho>" for A
    unfolding loop_fair_def weakly_fair_def at_rest_def begins_with_def by (metis le_cases)
  with b show ?thesis by blast
qed

section \<open>Arrivals\<close>

text \<open>What becomes of a packet that arrives.\<close>

lemma arrival_step:
  assumes "traffic_behaviour net F W \<rho> ev" and "snd (ev i) = Some (ctx, env)"
  shows "traffic_step net F W (\<rho> i) (fst (ev i), Some (ctx, env)) (\<rho> (Suc i))"
  using assms by (metis prod.collapse traffic_behaviour_def)

lemma arrival:
  assumes "traffic_behaviour net F W \<rho> ev" and "snd (ev i) = Some (ctx, env)"
  shows "ctx_ok ctx" and "env_ok env" and "reserve env = None \<Longrightarrow> 114912 \<le> length (ring (fst (\<rho> i)))"
    and "packet_items net env ctx = [item] \<Longrightarrow> fst (ev i) = [Kernel item]"
  using arrival_step [OF assms] by (auto simp: ring_room_iff)

text \<open>All that reaches the reader comes from packets.\<close>

lemma traffic_items:
  assumes "list_all (from_packet net) (ring s0)" and "traffic_behaviour net F W \<rho> ev"
  shows "\<forall>n. list_all (from_packet net) (ring s0 @ submitted (trace_upto (fst \<circ> ev) n))"
  using assms(1) traffic_from_packets [OF traffic_behaviour_runs [OF assms(2)]] by simp

lemma traffic_items_ok:
  assumes "net_ok net" and "list_all (from_packet net) (ring s0)" and "traffic_behaviour net F W \<rho> ev"
  shows "\<forall>n. list_all item_ok (ring s0 @ submitted (trace_upto (fst \<circ> ev) n))"
proof
  fix n
  have "list_all (from_packet net) (ring s0 @ submitted (trace_upto (fst \<circ> ev) n))"
    using traffic_items [OF assms(2,3)] ..
  then show "list_all item_ok (ring s0 @ submitted (trace_upto (fst \<circ> ev) n))"
    by (rule list.pred_mono_strong) (rule from_packet_ok [OF assms(1)])
qed

end
