(* ===== verification/Logger.thy ===== *)
theory Logger
  imports Async_Fd
begin

text \<open>
  The task that forwards the kernel program's log (\<open>setup_ebpf_logging\<close> in
  \<open>cilium-mini-rs/src/main.rs\<close>): \<open>while let Ok(guard) = readable_mut().await\<close>, flush, clear the
  readiness. \<open>EbpfLogger\<close> of \<open>aya_log\<close> is a parameter with its documented behaviour \<open>logger_ok\<close>: \<open>flush\<close>
  reads the records there are and hands them to the log. A record that arrives during a flush counts as
  before it if the flush has read it and as after it otherwise. Unlike the reader of the topology, which
  starts over, the task ends at the first error of the descriptor.
\<close>

section \<open>The logger\<close>

record ('l, 'r) ebpf_logger =
  submit_record :: "'r \<Rightarrow> 'l \<Rightarrow> 'l"
  flush :: "'l \<Rightarrow> 'l"

record 'r log_view =
  unread :: "'r list"
  emitted :: "'r list"

definition logger_ok :: "('l, 'r) ebpf_logger \<Rightarrow> ('l \<Rightarrow> 'r log_view) \<Rightarrow> bool" where
  "logger_ok L lview \<longleftrightarrow> (\<forall>l.
     lview (flush L l) = \<lparr>unread = [], emitted = emitted (lview l) @ unread (lview l)\<rparr>
     \<and> (\<forall>r. lview (submit_record L r l) = (lview l)\<lparr>unread := unread (lview l) @ [r]\<rparr>))"

lemma logger_okD:
  assumes "logger_ok L lview"
  shows "lview (flush L l) = \<lparr>unread = [], emitted = emitted (lview l) @ unread (lview l)\<rparr>"
    and "lview (submit_record L r l) = (lview l)\<lparr>unread := unread (lview l) @ [r]\<rparr>"
  using assms unfolding logger_ok_def by blast+

section \<open>The task\<close>

record ('l, 'f, 'g) log_task =
  log_inner :: 'l
  log_fd :: 'f
  log_phase :: "'g phase"
  log_ended :: bool

text \<open>The steps are labelled with the records the kernel submits. As for the event ring, the kernel wakes
  the descriptor when it submits to a ring that has been emptied, and may do so otherwise.\<close>

inductive log_step ::
  "('f, 'g) async_fd \<Rightarrow> ('l, 'r) ebpf_logger \<Rightarrow> ('l \<Rightarrow> 'r log_view) \<Rightarrow>
     ('l, 'f, 'g) log_task \<Rightarrow> 'r list \<Rightarrow> ('l, 'f, 'g) log_task \<Rightarrow> bool"
  for F L lview where
  log_submit:
    "(unread (lview (log_inner q)) = [] \<Longrightarrow> woken) \<Longrightarrow>
     log_step F L lview q [r] (q\<lparr>log_inner := submit_record L r (log_inner q),
       log_fd := (if woken then wake F (log_fd q) else log_fd q)\<rparr>)"
| log_ready:
    "\<not> log_ended q \<Longrightarrow> log_phase q = Awaiting \<Longrightarrow> readable_mut F (log_fd q) = Ready g \<Longrightarrow>
     log_step F L lview q [] (q\<lparr>log_phase := Draining g\<rparr>)"
| log_error:
    "\<not> log_ended q \<Longrightarrow> log_phase q = Awaiting \<Longrightarrow> readable_mut F (log_fd q) = FdError \<Longrightarrow>
     log_step F L lview q [] (q\<lparr>log_ended := True\<rparr>)"
| log_flush:
    "\<not> log_ended q \<Longrightarrow> log_phase q = Draining g \<Longrightarrow>
     log_step F L lview q [] (q\<lparr>log_inner := flush L (log_inner q), log_phase := Clearing g\<rparr>)"
| log_clear:
    "\<not> log_ended q \<Longrightarrow> log_phase q = Clearing g \<Longrightarrow>
     log_step F L lview q [] (q\<lparr>log_fd := clear_ready F g (log_fd q), log_phase := Awaiting\<rparr>)"

inductive_cases log_step_elim: "log_step F L lview q l q'"

inductive log_runs ::
  "('f, 'g) async_fd \<Rightarrow> ('l, 'r) ebpf_logger \<Rightarrow> ('l \<Rightarrow> 'r log_view) \<Rightarrow>
     ('l, 'f, 'g) log_task \<Rightarrow> 'r list \<Rightarrow> ('l, 'f, 'g) log_task \<Rightarrow> bool"
  for F L lview q0 where
  log_start: "log_runs F L lview q0 [] q0"
| log_more: "log_runs F L lview q0 rs q \<Longrightarrow> log_step F L lview q l q' \<Longrightarrow> log_runs F L lview q0 (rs @ l) q'"

text \<open>The state in which \<open>setup_ebpf_logging\<close> spawns the task: a descriptor registered for a logger is
  ready if the logger has records to read.\<close>

definition log_init :: "'l \<Rightarrow> 'f \<Rightarrow> ('l, 'f, 'g) log_task" where
  "log_init l f = \<lparr>log_inner = l, log_fd = f, log_phase = Awaiting, log_ended = False\<rparr>"

definition log_registered :: "('f \<Rightarrow> fd_view) \<Rightarrow> ('l \<Rightarrow> 'r log_view) \<Rightarrow> 'l \<Rightarrow> 'f \<Rightarrow> bool" where
  "log_registered view lview l f \<longleftrightarrow> (unread (lview l) \<noteq> [] \<longrightarrow> is_ready (view f))"

section \<open>Records are neither lost nor reordered\<close>

definition log_history :: "'r log_view \<Rightarrow> 'r list" where
  "log_history v = emitted v @ unread v"

lemma log_step_history:
  assumes "logger_ok L lview" and "log_step F L lview q l q'"
  shows "log_history (lview (log_inner q')) = log_history (lview (log_inner q)) @ l"
  using assms(2) by cases (simp_all add: log_history_def logger_okD [OF assms(1)])

lemma log_runs_history:
  assumes "logger_ok L lview" and "log_runs F L lview q0 rs q"
  shows "log_history (lview (log_inner q)) = log_history (lview (log_inner q0)) @ rs"
  using assms(2) by induction (simp_all add: log_step_history [OF assms(1)])

section \<open>The loop waits as specified\<close>

text \<open>Whether there is something to read depends on the logger's view.\<close>

definition log_waiting :: "('l \<Rightarrow> 'r log_view) \<Rightarrow> ('l, 'f, 'g) log_task \<Rightarrow> ('f, 'g) waiting" where
  "log_waiting lview q = (unread (lview (log_inner q)) \<noteq> [], log_fd q, log_phase q)"

lemma log_waits:
  assumes "logger_ok L lview" and "log_step F L lview q l q'"
  shows "waits F (log_waiting lview q) (log_waiting lview q')"
  using assms(2)
proof cases
  case (log_submit woken r)
  show ?thesis
  proof (cases woken)
    case True
    then show ?thesis using log_submit by (simp add: log_waiting_def waits_woken)
  next
    case False
    then show ?thesis using log_submit by (auto simp: log_waiting_def intro: waits_on)
  qed
next
  case (log_flush g)
  then show ?thesis using waits_done [of F _ "log_fd q" g]
    by (simp add: log_waiting_def logger_okD [OF assms(1)])
qed (simp_all add: log_waiting_def waits_on waits_ready waits_clear)

interpretation log_wait: waiting_loop F "\<lambda>q l q'. logger_ok L lview \<and> log_step F L lview q l q'"
  "\<lambda>q0 rs q. logger_ok L lview \<and> log_runs F L lview q0 rs q" "log_waiting lview" for F L lview
proof
  show "waits F (log_waiting lview q) (log_waiting lview q')" if "logger_ok L lview \<and> log_step F L lview q l q'" for q l q'
    using that log_waits by blast
  show "P rs q" if run: "logger_ok L lview \<and> log_runs F L lview q0 rs q" and "P [] q0"
    and "\<And>rs q l q'. logger_ok L lview \<and> log_runs F L lview q0 rs q \<Longrightarrow> P rs q \<Longrightarrow>
      logger_ok L lview \<and> log_step F L lview q l q' \<Longrightarrow> P (rs @ l) q'" for q0 rs q P
  proof -
    from run have "log_runs F L lview q0 rs q" by blast
    then show ?thesis by induction (use that in blast)+
  qed
qed

lemma registered_waits: "log_registered view lview l f \<Longrightarrow> wake_ok view seen (log_waiting lview (log_init l f))"
  by (simp add: log_registered_def wake_ok_def log_waiting_def log_init_def)

section \<open>Coming to rest\<close>

text \<open>Moves of the task only, counted.\<close>

inductive log_drains ::
  "('f, 'g) async_fd \<Rightarrow> ('l, 'r) ebpf_logger \<Rightarrow> ('l \<Rightarrow> 'r log_view) \<Rightarrow>
     ('l, 'f, 'g) log_task \<Rightarrow> nat \<Rightarrow> ('l, 'f, 'g) log_task \<Rightarrow> bool"
  for F L lview q0 where
  log_drains_start: "log_drains F L lview q0 0 q0"
| log_drains_step: "log_drains F L lview q0 n q \<Longrightarrow> log_step F L lview q [] q' \<Longrightarrow> log_drains F L lview q0 (Suc n) q'"

definition log_at_rest :: "('f, 'g) async_fd \<Rightarrow> ('l, 'r) ebpf_logger \<Rightarrow> ('l \<Rightarrow> 'r log_view) \<Rightarrow> ('l, 'f, 'g) log_task \<Rightarrow> bool" where
  "log_at_rest F L lview q \<longleftrightarrow> (\<nexists>q'. log_step F L lview q [] q')"

definition log_work :: "('f \<Rightarrow> fd_view) \<Rightarrow> ('g \<Rightarrow> nat) \<Rightarrow> ('l, 'f, 'g) log_task \<Rightarrow> nat" where
  "log_work view seen q = fd_work view seen (log_fd q) (log_phase q)"

lemma log_work_decreases:
  assumes "async_fd_ok F view seen" and "logger_ok L lview" and "log_step F L lview q [] q'"
  shows "log_work view seen q' < log_work view seen q"
proof -
  have "log_phase q' \<noteq> log_phase q"
    using assms(3) by cases (use no_fd_error [OF assms(1)] in auto)
  with waits_work [OF assms(1) log_waits [OF assms(2,3), unfolded log_waiting_def]]
  show ?thesis by (simp add: log_work_def)
qed

lemma log_drains_work:
  assumes "async_fd_ok F view seen" and "logger_ok L lview" and "log_drains F L lview q n q'"
  shows "n + log_work view seen q' \<le> log_work view seen q"
  using assms(3) by induction (use log_work_decreases [OF assms(1,2)] in fastforce)+

lemma log_drains_to_rest:
  assumes "async_fd_ok F view seen" and "logger_ok L lview"
  shows "\<exists>n q'. log_drains F L lview q n q' \<and> log_at_rest F L lview q'"
proof -
  have "\<exists>n q''. log_drains F L lview q n q'' \<and> log_at_rest F L lview q''" if "log_drains F L lview q m q'" for m q'
    using that
  proof (induction "log_work view seen q'" arbitrary: m q' rule: less_induct)
    case less
    show ?case
    proof (cases "log_at_rest F L lview q'")
      case False
      then obtain y where "log_step F L lview q' [] y" by (auto simp: log_at_rest_def)
      from less.hyps [OF log_work_decreases [OF assms this] log_drains_step [OF less.prems this]] show ?thesis .
    qed (use less.prems in blast)
  qed
  then show ?thesis using log_drains_start by blast
qed

lemma log_drains_runs:
  assumes "log_runs F L lview q0 rs q" and "log_drains F L lview q n q'"
  shows "log_runs F L lview q0 rs q'"
  using assms(2)
proof induction
  case (log_drains_step n q q')
  from log_more [OF log_drains_step(3,2)] show ?case by simp
qed (rule assms(1))

lemma log_never_ends:
  assumes "async_fd_ok F view seen" and "log_runs F L lview q0 rs q"
  shows "log_ended q = log_ended q0"
  using assms(2)
proof induction
  case (log_more rs q l q')
  then show ?case by (elim log_step_elim) (use no_fd_error [OF assms(1)] in auto)
qed simp

lemma log_rest_empty:
  assumes "async_fd_ok F view seen" and "wake_ok view seen (log_waiting lview q)" and "\<not> log_ended q"
    and "log_at_rest F L lview q"
  shows "unread (lview (log_inner q)) = []"
proof (cases "log_phase q")
  case Awaiting
  show ?thesis
  proof (rule ccontr)
    assume "unread (lview (log_inner q)) \<noteq> []"
    with assms(2) Awaiting obtain g where "readable_mut F (log_fd q) = Ready g"
      using wake_ok_ready [OF assms(1)] by (auto simp: log_waiting_def)
    from log_ready [OF assms(3) Awaiting this] show False using assms(4) by (auto simp: log_at_rest_def)
  qed
next
  case (Draining g)
  from log_flush [OF assms(3) this] show ?thesis using assms(4) by (auto simp: log_at_rest_def)
next
  case (Clearing g)
  from log_clear [OF assms(3) this] show ?thesis using assms(4) by (auto simp: log_at_rest_def)
qed

section \<open>A logger for the witnesses\<close>

definition sample_logger :: "('r log_view, 'r) ebpf_logger" where
  "sample_logger = \<lparr>submit_record = (\<lambda>r l. l\<lparr>unread := unread l @ [r]\<rparr>),
     flush = (\<lambda>l. \<lparr>unread = [], emitted = emitted l @ unread l\<rparr>)\<rparr>"

lemma sample_logger_ok: "logger_ok sample_logger (\<lambda>l. l)"
  by (simp add: logger_ok_def sample_logger_def)

section \<open>Properties\<close>

text \<open>A descriptor that fails ends the task: from then on records only pile up.\<close>

lemma log_task_ends:
  assumes "logger_ok L lview" and "\<not> log_ended q" and "log_phase q = Awaiting" and "readable_mut F (log_fd q) = FdError"
  shows "\<exists>q'. log_step F L lview q [] q' \<and> (\<forall>rs t. log_runs F L lview q' rs t \<longrightarrow>
    emitted (lview (log_inner t)) = emitted (lview (log_inner q))
    \<and> unread (lview (log_inner t)) = unread (lview (log_inner q)) @ rs)"
proof -
  let ?q = "q\<lparr>log_ended := True\<rparr>"
  have "log_ended t \<and> emitted (lview (log_inner t)) = emitted (lview (log_inner q))
    \<and> unread (lview (log_inner t)) = unread (lview (log_inner q)) @ rs" if "log_runs F L lview ?q rs t" for rs t
    using that
  proof induction
    case (log_more rs t l t')
    then show ?case by (elim log_step_elim) (auto simp: logger_okD [OF assms(1)])
  qed simp
  then show ?thesis using log_error [OF assms(2-4)] by blast
qed

text \<open>C22. The task that forwards the kernel's log: at every moment of every run what it has handed over,
  followed by what is still to be read, is what was there at the start followed by what the kernel
  submitted, in that order; the task does not end and never waits on a descriptor that is not ready while
  there are records; and without new records it makes at most five moves, after which none is left.\<close>

theorem log_flush_task:
  assumes "async_fd_ok F view seen" and "logger_ok L lview" and "log_registered view lview l0 f0"
    and "log_runs F L lview (log_init l0 f0) rs q"
  shows "emitted (lview (log_inner q)) @ unread (lview (log_inner q)) = emitted (lview l0) @ unread (lview l0) @ rs
    \<and> \<not> log_ended q
    \<and> (unread (lview (log_inner q)) \<noteq> [] \<and> log_phase q = Awaiting \<longrightarrow> (\<exists>g. readable_mut F (log_fd q) = Ready g))
    \<and> (\<forall>n t. log_drains F L lview q n t \<longrightarrow> n \<le> 5)
    \<and> (\<exists>n t. log_drains F L lview q n t \<and> log_at_rest F L lview t)
    \<and> (\<forall>n t. log_drains F L lview q n t \<and> log_at_rest F L lview t \<longrightarrow>
         emitted (lview (log_inner t)) = emitted (lview l0) @ unread (lview l0) @ rs)"
proof (intro conjI allI impI)
  note ok = registered_waits [OF assms(3), of seen]
  have hist: "emitted (lview (log_inner t)) @ unread (lview (log_inner t)) = emitted (lview l0) @ unread (lview l0) @ rs"
    if "log_runs F L lview (log_init l0 f0) rs t" for t
    using log_runs_history [OF assms(2) that] by (simp add: log_history_def log_init_def)
  have up: "\<not> log_ended t" if "log_runs F L lview (log_init l0 f0) rs t" for t
    using log_never_ends [OF assms(1) that] by (simp add: log_init_def)
  show "emitted (lview (log_inner q)) @ unread (lview (log_inner q)) = emitted (lview l0) @ unread (lview l0) @ rs"
    using hist assms(4) .
  show "\<not> log_ended q" using up assms(4) .
  show "\<exists>g. readable_mut F (log_fd q) = Ready g" if "unread (lview (log_inner q)) \<noteq> [] \<and> log_phase q = Awaiting"
    by (rule log_wait.never_asleep [OF assms(1) ok conjI [OF assms(2,4)]]) (use that in \<open>simp add: log_waiting_def\<close>)
  show "n \<le> 5" if "log_drains F L lview q n t" for n t
    using log_drains_work [OF assms(1,2) that] fd_work_bound [of view seen "log_fd q" "log_phase q"]
    by (simp add: log_work_def)
  show "\<exists>n t. log_drains F L lview q n t \<and> log_at_rest F L lview t" by (rule log_drains_to_rest [OF assms(1,2)])
  fix n t
  assume d: "log_drains F L lview q n t \<and> log_at_rest F L lview t"
  then have run: "log_runs F L lview (log_init l0 f0) rs t" using log_drains_runs [OF assms(4)] by blast
  have "unread (lview (log_inner t)) = []"
    using log_rest_empty [OF assms(1) log_wait.wake_ok_runs [OF assms(1) ok conjI [OF assms(2) run]] up [OF run]] d by blast
  then show "emitted (lview (log_inner t)) = emitted (lview l0) @ unread (lview l0) @ rs"
    using hist [OF run] by simp
qed

theorem log_flush_task_witness:
  "\<exists>n t. log_drains sample_fd sample_logger (\<lambda>l. l)
     \<lparr>log_inner = \<lparr>unread = [7 :: nat], emitted = []\<rparr>, log_fd = \<lparr>is_ready = True, wakeups = 1\<rparr>,
       log_phase = Awaiting, log_ended = False\<rparr> n t
   \<and> n \<le> 5 \<and> emitted (log_inner t) = [7]"
proof -
  let ?l = "\<lparr>unread = [], emitted = []\<rparr> :: nat log_view"
  let ?q = "\<lparr>log_inner = \<lparr>unread = [7 :: nat], emitted = []\<rparr>, log_fd = \<lparr>is_ready = True, wakeups = 1\<rparr>,
    log_phase = Awaiting, log_ended = False\<rparr>"
  have reg: "log_registered (\<lambda>v. v) (\<lambda>l. l) ?l idle" by (simp add: log_registered_def)
  have "log_step sample_fd sample_logger (\<lambda>l. l) (log_init ?l idle) [7] ?q"
    using log_submit [of "\<lambda>l. l" "log_init ?l idle" True sample_fd sample_logger 7]
    by (simp add: log_init_def sample_logger_def sample_fd_def idle_def)
  from log_more [OF log_start this] have run: "log_runs sample_fd sample_logger (\<lambda>l. l) (log_init ?l idle) [7] ?q" by simp
  note ok = log_flush_task [OF sample_fd_ok sample_logger_ok reg run]
  then obtain n t where "log_drains sample_fd sample_logger (\<lambda>l. l) ?q n t" "log_at_rest sample_fd sample_logger (\<lambda>l. l) t"
    by blast
  with ok have "n \<le> 5" "emitted (log_inner t) = [7]" by simp_all blast+
  with \<open>log_drains sample_fd sample_logger (\<lambda>l. l) ?q n t\<close> show ?thesis by blast
qed

end
