(* ===== verification/Ip_Text.thy ===== *)
theory Ip_Text
  imports Dns_Answers
begin

text \<open>
  The text of addresses read back. \<open>parser.rs\<close> turns addresses into text with \<open>write!\<close>; whoever reads
  the log has only the text of the source and destination, and the text beside the raw bytes of the
  answers. The reader here accepts what \<open>str::parse::<IpAddr>\<close> of the standard library accepts, in the
  form that \<open>Display\<close> produces (lower case, no leading zeros): dotted decimal, eight groups, or groups
  with one \<open>::\<close>, the last two groups possibly dotted. Reading back a displayed address gives the address.
  Addresses written one after the other without a separator, as \<open>parse_rdata\<close> does, cannot be read.
\<close>

section \<open>Splitting at a separator\<close>

lemma split_on_keeps: "x \<in> set s \<Longrightarrow> x \<noteq> c \<Longrightarrow> \<exists>p \<in> set (split_on c s). x \<in> set p"
proof (induction s)
  case (Cons y s)
  obtain z zs where "split_on c s = z # zs" by (cases "split_on c s") simp_all
  with Cons show ?case by auto
qed simp

lemma count_join:
  "xs \<noteq> [] \<Longrightarrow> \<forall>x \<in> set xs. c \<notin> set x \<Longrightarrow> Suc (count_list (join [c] xs) c) = length xs"
  by (metis length_split_on split_on_join)

lemma those_eq_Some: "those xs = Some ys \<longleftrightarrow> xs = map Some ys"
  by (induction xs arbitrary: ys) (auto split: option.splits)

section \<open>Numbers\<close>

definition read_num :: "nat \<Rightarrow> nat \<Rightarrow> string \<Rightarrow> nat option" where
  "read_num r limit s = (let n = read_radix r s in if fmt_radix r n = s \<and> n < limit then Some n else None)"

lemma read_num_fmt: "2 \<le> r \<Longrightarrow> r \<le> 36 \<Longrightarrow> n < limit \<Longrightarrow> read_num r limit (fmt_radix r n) = Some n"
  by (simp add: read_num_def read_fmt_radix)

lemma read_num_SomeD: "read_num r limit s = Some n \<Longrightarrow> s = fmt_radix r n \<and> n < limit"
  by (auto simp: read_num_def Let_def split: if_splits)

lemma fmt_radix_digits: "2 \<le> r \<Longrightarrow> c \<in> set (fmt_radix r n) \<Longrightarrow> \<exists>d<r. c = digit_char d"
proof (induction n rule: less_induct)
  case (less n)
  show ?case
  proof (cases "n < r")
    case True
    then show ?thesis using less.prems by (auto simp: fmt_radix.simps [of r n])
  next
    case False
    then have "n div r < n" "n mod r < r" using less.prems(1) by simp_all
    moreover have "c \<in> set (fmt_radix r (n div r)) \<or> c = digit_char (n mod r)"
      using False less.prems by (auto simp: fmt_radix.simps [of r n])
    ultimately show ?thesis using less.IH less.prems(1) by blast
  qed
qed

lemma separators_not_digits: "d < 36 \<Longrightarrow> digit_char d \<noteq> CHR ''.'' \<and> digit_char d \<noteq> CHR '':''"
proof -
  assume "d < 36"
  then have "of_char (digit_char d) \<noteq> (46 :: nat) \<and> of_char (digit_char d) \<noteq> (58 :: nat)"
    by (simp add: digit_char_def)
  then show ?thesis by auto
qed

lemma fmt_radix_separators [simp]:
  assumes "2 \<le> r" and "r \<le> 36"
  shows "CHR ''.'' \<notin> set (fmt_radix r n)" and "CHR '':'' \<notin> set (fmt_radix r n)"
  using fmt_radix_digits [OF assms(1), of _ n] separators_not_digits assms(2) by (metis less_le_trans)+

lemma read_num_separator:
  "2 \<le> r \<Longrightarrow> r \<le> 36 \<Longrightarrow> CHR ''.'' \<in> set s \<or> CHR '':'' \<in> set s \<Longrightarrow> read_num r limit s = None"
  by (cases "read_num r limit s") (auto dest!: read_num_SomeD)

section \<open>IPv4\<close>

definition read_ipv4 :: "string \<Rightarrow> bytes option" where
  "read_ipv4 s = (case those (map (read_num 10 256) (split_on (CHR ''.'') s)) of
     Some [a, b, c, d] \<Rightarrow> Some [of_nat a, of_nat b, of_nat c, of_nat d] | _ \<Rightarrow> None)"

lemma read_ipv4_SomeD:
  assumes "read_ipv4 s = Some a"
  shows "count_list s (CHR ''.'') = 3" and "CHR '':'' \<notin> set s" and "length a = 4"
proof -
  from assms obtain ns where ns: "those (map (read_num 10 256) (split_on (CHR ''.'') s)) = Some ns"
      "length ns = 4" and a: "length a = 4"
    by (auto simp: read_ipv4_def split: option.splits list.splits)
  from ns(1) have m: "map (read_num 10 256) (split_on (CHR ''.'') s) = map Some ns" by (simp add: those_eq_Some)
  from arg_cong [OF m, of length] show "count_list s (CHR ''.'') = 3" using ns(2) by (simp add: length_split_on)
  show "CHR '':'' \<notin> set s"
  proof
    assume "CHR '':'' \<in> set s"
    then obtain p where "p \<in> set (split_on (CHR ''.'') s)" "CHR '':'' \<in> set p"
      using split_on_keeps [of "CHR '':''" s "CHR ''.''"] by auto
    then have "None \<in> set (map (read_num 10 256) (split_on (CHR ''.'') s))"
      using read_num_separator [of 10 p 256] by force
    then show False unfolding m by auto
  qed
  show "length a = 4" by (rule a)
qed

lemma ipv4_dots: "length a = 4 \<Longrightarrow> count_list (ipv4_display a) (CHR ''.'') = 3"
  using count_join [of "map (\<lambda>b. fmt_radix 10 (unat b)) a" "CHR ''.''"]
  by (cases a) (auto simp: ipv4_display_def)

lemma ipv4_no_colon: "CHR '':'' \<notin> set (ipv4_display a)"
proof -
  have "set (join sep xs) \<subseteq> set sep \<union> (\<Union>x \<in> set xs. set x)" for sep xs
    by (induction sep xs rule: join.induct) auto
  from this [of "''.''" "map (\<lambda>b. fmt_radix 10 (unat b)) a"] show ?thesis
    by (auto simp: ipv4_display_def)
qed

lemma read_ipv4_display: "length a = 4 \<Longrightarrow> read_ipv4 (ipv4_display a) = Some a"
proof -
  assume len: "length a = 4"
  have "split_on (CHR ''.'') (ipv4_display a) = map (\<lambda>b. fmt_radix 10 (unat b)) a"
    using len unfolding ipv4_display_def by (intro split_on_join) auto
  moreover have "read_num 10 256 (fmt_radix 10 (unat b)) = Some (unat b)" for b :: u8
    by (rule read_num_fmt) (use unat_u8_less [of b] in simp_all)
  ultimately have "those (map (read_num 10 256) (split_on (CHR ''.'') (ipv4_display a))) = Some (map unat a)"
    by (simp add: those_eq_Some)
  moreover obtain b c d e where "a = [b, c, d, e]" using len by (auto simp: length4_conv)
  ultimately show ?thesis by (simp add: read_ipv4_def)
qed

section \<open>IPv6\<close>

text \<open>The text before and after the first \<open>::\<close>.\<close>

fun cut_omission :: "string \<Rightarrow> (string \<times> string) option" where
  "cut_omission (a # b # s) =
     (if a = CHR '':'' \<and> b = CHR '':'' then Some ([], s)
      else map_option (apfst (Cons a)) (cut_omission (b # s)))"
| "cut_omission s = None"

definition read_group :: "string \<Rightarrow> u16 option" where
  "read_group s = map_option of_nat (read_num 16 65536 s)"

fun read_groups :: "string list \<Rightarrow> u16 list option" where
  "read_groups [] = Some []"
| "read_groups [p] = (case read_group p of
     Some g \<Rightarrow> Some [g]
   | None \<Rightarrow> (case read_ipv4 p of Some [a, b, c, d] \<Rightarrow> Some [of_be [a, b], of_be [c, d]] | _ \<Rightarrow> None))"
| "read_groups (p # q # ps) = (case read_group p of
     None \<Rightarrow> None | Some g \<Rightarrow> map_option (Cons g) (read_groups (q # ps)))"

definition read_left :: "string \<Rightarrow> u16 list option" where
  "read_left s = (if s = [] then Some [] else those (map read_group (split_on (CHR '':'') s)))"

definition read_right :: "string \<Rightarrow> u16 list option" where
  "read_right s = (if s = [] then Some [] else read_groups (split_on (CHR '':'') s))"

definition octets :: "u16 list \<Rightarrow> bytes" where
  "octets gs = concat (map (be_bytes 2) gs)"

definition read_ipv6 :: "string \<Rightarrow> bytes option" where
  "read_ipv6 s = (case cut_omission s of
     None \<Rightarrow> (case read_right s of
         Some gs \<Rightarrow> if length gs = 8 then Some (octets gs) else None
       | None \<Rightarrow> None)
   | Some (l, r) \<Rightarrow> (case read_left l of
         None \<Rightarrow> None
       | Some gl \<Rightarrow> (case read_right r of
             None \<Rightarrow> None
           | Some gr \<Rightarrow> if length gl + length gr < 8
               then Some (octets (gl @ replicate (8 - length gl - length gr) 0 @ gr)) else None)))"

definition read_address :: "string \<Rightarrow> bytes option" where
  "read_address s = (case read_ipv4 s of Some a \<Rightarrow> Some a | None \<Rightarrow> read_ipv6 s)"

text \<open>Segments of an address.\<close>

lemma octets_segments:
  assumes "length a = 16"
  shows "octets (segments a) = a"
proof -
  have be: "be_bytes (Suc (Suc 0)) (of_be [x, y] :: u16) = [x, y]" for x y
    using be_bytes_of_be [of "[x, y]", where 'a = 16] by simp
  have "octets (segments a) = map (\<lambda>i. a ! i) [0..<16]"
    by (simp add: octets_def segments_def be upt_rec numeral_eq_Suc)
  also have "\<dots> = a" using assms by (metis map_nth)
  finally show ?thesis .
qed

text \<open>The run of zero segments that the display leaves out.\<close>

definition zero_run :: "u16 list \<Rightarrow> nat \<times> nat \<Rightarrow> bool" where
  "zero_run segs run \<longleftrightarrow> (\<forall>j. fst run \<le> j \<and> j < fst run + snd run \<longrightarrow> j < length segs \<and> segs ! j = 0)"

lemma zero_span_run:
  assumes "zero_run pre longest" and "zero_run pre current"
    and "snd current = 0 \<or> fst current + snd current = length pre"
  shows "zero_run (pre @ ss) (zero_span (length pre) ss longest current)"
  using assms
proof (induction ss arbitrary: pre longest current)
  case (Cons s ss)
  have grow: "zero_run (pre @ [s]) r" if "zero_run pre r" for r
    using that by (auto simp: zero_run_def nth_append)
  let ?cur = "((if snd current = 0 then length pre else fst current), snd current + 1)"
  have cur: "zero_run (pre @ [s]) ?cur" if "s = 0"
    using Cons.prems(2,3) that by (auto simp: zero_run_def nth_append less_Suc_eq)
  show ?case
  proof (cases "s = 0")
    case True
    with Cons.IH [of "pre @ [s]" "if snd ?cur > snd longest then ?cur else longest" ?cur]
      Cons.prems cur grow [OF Cons.prems(1)] show ?thesis by (auto simp: Let_def)
  next
    case False
    with Cons.IH [of "pre @ [s]" longest "(0, 0)"] grow [OF Cons.prems(1)] show ?thesis
      by (simp add: zero_run_def)
  qed
qed simp

lemma zero_span_zeros:
  assumes "zero_span 0 segs (0, 0) (0, 0) = (st, len)" and "len > 0"
  shows "take st segs @ replicate len 0 @ drop (st + len) segs = segs" and "st + len \<le> length segs"
proof -
  have z: "\<And>j. st \<le> j \<Longrightarrow> j < st + len \<Longrightarrow> j < length segs \<and> segs ! j = 0"
    using zero_span_run [of "[]" "(0, 0)" "(0, 0)" segs] assms(1) by (simp add: zero_run_def)
  show le: "st + len \<le> length segs" using z [of "st + (len - 1)"] assms(2) by linarith
  have "take len (drop st segs) = replicate len 0"
    by (rule nth_equalityI) (use le z in auto)
  then show "take st segs @ replicate len 0 @ drop (st + len) segs = segs"
    by (metis add.commute append_take_drop_id drop_drop)
qed

text \<open>Groups that hold no colon.\<close>

definition group_texts :: "string list \<Rightarrow> bool" where
  "group_texts ps \<longleftrightarrow> list_all (\<lambda>p. p \<noteq> [] \<and> CHR '':'' \<notin> set p) ps"

lemma cut_other: "a \<noteq> CHR '':'' \<Longrightarrow> cut_omission (a # s) = map_option (apfst (Cons a)) (cut_omission s)"
  by (cases s) simp_all

lemma cut_part: "CHR '':'' \<notin> set p \<Longrightarrow> cut_omission (p @ s) = map_option (apfst ((@) p)) (cut_omission s)"
  by (induction p) (simp_all add: cut_other; cases "cut_omission s"; auto)+

lemma cut_groups:
  "group_texts ps \<Longrightarrow> ps \<noteq> [] \<Longrightarrow>
     cut_omission (join '':'' ps @ s) = map_option (apfst ((@) (join '':'' ps))) (cut_omission s)"
proof (induction ps)
  case (Cons p ps)
  show ?case
  proof (cases "ps = []")
    case True
    then show ?thesis using Cons.prems by (simp add: cut_part group_texts_def)
  next
    case False
    obtain q qs where ps: "ps = q # qs" using False by (cases ps) simp_all
    then obtain a q' where q: "q = a # q'" "a \<noteq> CHR '':''" using Cons.prems(1) by (cases q) (auto simp: group_texts_def)
    then have "\<exists>t. join '':'' ps @ s = a # t" using ps by (cases qs) simp_all
    then have "cut_omission (CHR '':'' # join '':'' ps @ s) = map_option (apfst (Cons (CHR '':''))) (cut_omission (join '':'' ps @ s))"
      using q(2) by auto
    then show ?thesis using Cons False
      by (cases "cut_omission s") (auto simp: join_Cons cut_part group_texts_def)
  qed
qed simp

lemma cut_no_omission: "group_texts ps \<Longrightarrow> cut_omission (join '':'' ps) = None"
  using cut_groups [of ps "[]"] by (cases "ps = []") simp_all

lemma cut_at_omission:
  "group_texts ps \<Longrightarrow> cut_omission (join '':'' ps @ ''::'' @ s) = Some (join '':'' ps, s)"
  using cut_groups [of ps "''::'' @ s"] by (cases "ps = []") simp_all

text \<open>The groups of a displayed part of an address.\<close>

definition hex_texts :: "u16 list \<Rightarrow> string list" where
  "hex_texts gs = map (\<lambda>g. fmt_radix 16 (unat g)) gs"

lemma fmt_subslice_eq: "fmt_subslice gs = join '':'' (hex_texts gs)"
  by (simp add: fmt_subslice_def hex_texts_def)

lemma hex_texts_ok: "group_texts (hex_texts gs)"
  by (auto simp: group_texts_def hex_texts_def list_all_iff)

lemma read_group_fmt [simp]: "read_group (fmt_radix 16 (unat g)) = Some g"
  by (simp add: read_group_def read_num_fmt [OF _ _ unat_u16_less])

lemma read_groups_hex: "read_groups (hex_texts gs) = Some gs"
  by (induction gs rule: induct_list012) (simp_all add: hex_texts_def)

lemma join_eq_Nil: "group_texts ps \<Longrightarrow> join '':'' ps = [] \<longleftrightarrow> ps = []"
  by (cases ps) (auto simp: group_texts_def join_Cons dest: arg_cong [where f = length] elim: join.elims)

lemma split_groups: "group_texts ps \<Longrightarrow> ps \<noteq> [] \<Longrightarrow> split_on (CHR '':'') (join '':'' ps) = ps"
  by (rule split_on_join) (auto simp: group_texts_def list_all_iff)

lemma read_fmt_subslice: "read_left (fmt_subslice gs) = Some gs" "read_right (fmt_subslice gs) = Some gs"
proof -
  have ne: "hex_texts gs = [] \<longleftrightarrow> gs = []" by (simp add: hex_texts_def)
  have "those (map read_group (hex_texts gs)) = Some gs"
    by (simp add: those_eq_Some hex_texts_def comp_def)
  then show "read_left (fmt_subslice gs) = Some gs" "read_right (fmt_subslice gs) = Some gs"
    using split_groups [OF hex_texts_ok, of gs] ne
    by (simp_all add: read_left_def read_right_def fmt_subslice_eq join_eq_Nil [OF hex_texts_ok] read_groups_hex)
qed

lemma read_ipv6_mapped:
  assumes "length v4 = 4"
  shows "read_ipv6 (''::ffff:'' @ ipv4_display v4) = Some (replicate 10 0 @ [0xFF, 0xFF] @ v4)"
proof -
  obtain a b c d where v4: "v4 = [a, b, c, d]" using assms by (auto simp: length4_conv)
  have "fmt_radix 16 (unat (0xFFFF :: u16)) = ''ffff''"
    by (simp add: fmt_radix.simps [of 16 65535] fmt_radix.simps [of 16 4095] fmt_radix.simps [of 16 255]
        fmt_radix.simps [of 16 15] digit_char_def char_of_def bit_0)
  then have ff: "read_group ''ffff'' = Some 0xFFFF" by (metis read_group_fmt)
  have "CHR ''.'' \<in> set (ipv4_display v4)"
    using ipv4_dots [OF assms] by (cases "CHR ''.'' \<in> set (ipv4_display v4)") simp_all
  then have dots: "read_group (ipv4_display v4) = None" by (simp add: read_group_def read_num_separator)
  have "split_on (CHR '':'') (''ffff:'' @ ipv4_display v4) = [''ffff'', ipv4_display v4]"
    using split_on_sep [of "CHR '':''" "''ffff''" "ipv4_display v4"] ipv4_no_colon by (simp add: split_on_free)
  then have "read_right (''ffff:'' @ ipv4_display v4) = Some [0xFFFF, of_be [a, b], of_be [c, d]]"
    using read_ipv4_display [OF assms] dots ff v4 by (simp add: read_right_def)
  then have "read_ipv6 (''::ffff:'' @ ipv4_display v4) = Some (octets (replicate 5 0 @ [0xFFFF, of_be [a, b], of_be [c, d]]))"
    by (simp add: read_ipv6_def read_left_def)
  moreover have "be_bytes 2 (of_be [x, y] :: u16) = [x, y]" for x y
    using be_bytes_of_be [of "[x, y]", where 'a = 16] by (simp add: numeral_2_eq_2)
  moreover have "be_bytes 2 (0 :: u16) = [0, 0]" "be_bytes 2 (0xFFFF :: u16) = [0xFF, 0xFF]"
    by code_simp+
  ultimately show ?thesis by (simp add: octets_def v4 eval_nat_numeral)
qed

lemma read_ipv6_display:
  assumes "length a = 16"
  shows "read_ipv6 (ipv6_display a) = Some a"
proof (cases "to_ipv4_mapped a")
  case (Some v4)
  then have "take 12 a = replicate 10 0 @ [0xFF, 0xFF]" "v4 = drop 12 a"
    by (auto simp: to_ipv4_mapped_def split: if_splits)
  then have "replicate 10 0 @ [0xFF, 0xFF] @ v4 = a" "length v4 = 4"
    using append_take_drop_id [of 12 a] assms by simp_all
  with read_ipv6_mapped [of v4] Some show ?thesis by (simp add: ipv6_display_def)
next
  case None
  obtain st len where z: "zero_span 0 (segments a) (0, 0) (0, 0) = (st, len)" by fastforce
  show ?thesis
  proof (cases "len > 1")
    case True
    let ?l = "take st (segments a)" and ?r = "drop (st + len) (segments a)"
    have zs: "?l @ replicate len 0 @ ?r = segments a" and le: "st + len \<le> 8"
      using zero_span_zeros [OF z] True by simp_all
    then have "8 - length ?l - length ?r = len" "length ?l + length ?r < 8" using True by simp_all
    with None z True zs show ?thesis
      using cut_at_omission [OF hex_texts_ok, of ?l "fmt_subslice ?r"] octets_segments [OF assms]
      by (simp add: ipv6_display_def read_ipv6_def read_fmt_subslice fmt_subslice_eq [symmetric] Let_def)
  next
    case False
    with None z show ?thesis
      using cut_no_omission [OF hex_texts_ok, of "segments a"] octets_segments [OF assms]
      by (simp add: ipv6_display_def read_ipv6_def read_fmt_subslice fmt_subslice_eq [symmetric])
  qed
qed

section \<open>Either family\<close>

lemma ipv6_has_colon:
  assumes "length a = 16"
  shows "CHR '':'' \<in> set (ipv6_display a)"
proof (cases "CHR '':'' \<in> set (ipv6_display a)")
  case False
  have "cut_omission s = None" if "CHR '':'' \<notin> set s" for s
    using cut_part [OF that, of "[]"] by simp
  then have "\<exists>gs. read_right (ipv6_display a) = Some gs \<and> length gs = 8"
    using False read_ipv6_display [OF assms] by (auto simp: read_ipv6_def split: option.splits if_splits)
  then show ?thesis using False
    by (auto simp: read_right_def split_on_free split: if_splits option.splits list.splits)
qed simp

lemma read_address_text:
  assumes "length a = 4 \<or> length a = 16"
  shows "read_address (addr_text a) = Some a"
proof (cases "length a = 4")
  case True
  then show ?thesis by (simp add: read_address_def addr_text_def read_ipv4_display)
next
  case False
  with assms have len: "length a = 16" by simp
  have "read_ipv4 (ipv6_display a) = None"
    using read_ipv4_SomeD(2) ipv6_has_colon [OF len] by (metis option.exhaust)
  with len show ?thesis by (simp add: read_address_def addr_text_def read_ipv6_display)
qed

text \<open>Several addresses in a row. A text that reads as IPv6 has at most eight colons and at most one
  place where two of them meet.\<close>

fun double_colons :: "string \<Rightarrow> nat" where
  "double_colons (a # b # s) = (if a = CHR '':'' \<and> b = CHR '':'' then 1 else 0) + double_colons (b # s)"
| "double_colons s = 0"

abbreviation colons :: "string \<Rightarrow> nat" where
  "colons s \<equiv> count_list s (CHR '':'')"

lemma double_append: "double_colons x + double_colons y \<le> double_colons (x @ y)"
proof (induction x)
  case (Cons a x)
  then show ?case by (cases x; cases y) simp_all
qed simp

lemma double_other: "a \<noteq> CHR '':'' \<Longrightarrow> double_colons (a # s) = double_colons s"
  by (cases s) simp_all

lemma double_part: "CHR '':'' \<notin> set p \<Longrightarrow> double_colons (p @ s) = double_colons s"
  by (induction p) (auto simp: double_other)

lemma double_groups:
  "group_texts ps \<Longrightarrow> ps \<noteq> [] \<Longrightarrow> double_colons (join '':'' ps @ s) = double_colons s"
proof (induction ps)
  case (Cons p ps)
  show ?case
  proof (cases ps)
    case Nil
    then show ?thesis using Cons.prems by (simp add: double_part group_texts_def)
  next
    case (Cons q qs)
    then obtain a q' where q: "q = a # q'" "a \<noteq> CHR '':''"
      using \<open>group_texts (p # ps)\<close> by (cases q) (auto simp: group_texts_def)
    then have "\<exists>t. join '':'' ps @ s = a # t" using Cons by (cases qs) simp_all
    then have "double_colons (CHR '':'' # join '':'' ps @ s) = double_colons (join '':'' ps @ s)"
      using q(2) by auto
    then show ?thesis using Cons.IH Cons.prems Cons by (simp add: join_Cons double_part group_texts_def)
  qed
qed simp

lemma double_side:
  assumes "group_texts (split_on (CHR '':'') s) \<or> s = []"
  shows "double_colons (s @ t) = double_colons t"
  using double_groups [of "split_on (CHR '':'') s" t] assms join_split_on [of "CHR '':''" s] by auto

lemma read_group_nonempty: "read_group p = Some g \<Longrightarrow> p \<noteq> []"
  by (auto simp: read_group_def dest!: read_num_SomeD)

lemma read_groups_SomeD: "read_groups ps = Some gs \<Longrightarrow> [] \<notin> set ps \<and> length ps \<le> length gs"
proof (induction ps arbitrary: gs rule: read_groups.induct)
  case (2 p)
  then show ?case
    by (auto dest: read_group_nonempty split: option.splits list.splits) (auto dest!: read_ipv4_SomeD(1))
next
  case (3 p q ps)
  then show ?case by (fastforce dest: read_group_nonempty split: option.splits)
qed simp

lemma read_left_SomeD:
  assumes "read_left s = Some gs"
  shows "s = [] \<or> group_texts (split_on (CHR '':'') s) \<and> Suc (colons s) \<le> length gs"
proof (cases "s = []")
  case False
  with assms have m: "map read_group (split_on (CHR '':'') s) = map Some gs"
    by (simp add: read_left_def those_eq_Some)
  have "\<exists>g. read_group p = Some g" if "p \<in> set (split_on (CHR '':'') s)" for p
    using that m by (metis image_iff list.set_map)
  then show ?thesis using arg_cong [OF m, of length] split_on_parts read_group_nonempty
    by (fastforce simp: group_texts_def list_all_iff length_split_on)
qed simp

lemma read_right_SomeD:
  assumes "read_right s = Some gs"
  shows "s = [] \<or> group_texts (split_on (CHR '':'') s) \<and> Suc (colons s) \<le> length gs"
proof (cases "s = []")
  case False
  with assms have "read_groups (split_on (CHR '':'') s) = Some gs" by (simp add: read_right_def)
  from read_groups_SomeD [OF this] show ?thesis using split_on_parts
    by (fastforce simp: group_texts_def list_all_iff length_split_on)
qed simp

lemma cut_SomeD: "cut_omission s = Some (l, r) \<Longrightarrow> s = l @ ''::'' @ r"
  by (induction s arbitrary: l rule: cut_omission.induct) (auto split: if_splits)

lemma read_ipv6_SomeD:
  assumes "read_ipv6 s = Some a"
  shows "colons s \<le> 8" and "double_colons s \<le> 1"
proof -
  have "colons s \<le> 8 \<and> double_colons s \<le> 1"
  proof (cases "cut_omission s")
    case None
    then obtain gs where "read_right s = Some gs" "length gs = 8"
      using assms by (auto simp: read_ipv6_def split: option.splits if_splits)
    with read_right_SomeD [of s gs] double_side [of s "[]"] show ?thesis by auto
  next
    case (Some lr)
    then obtain l r where lr: "cut_omission s = Some (l, r)" by (cases lr) simp
    with assms obtain gl gr where g: "read_left l = Some gl" "read_right r = Some gr" "length gl + length gr < 8"
      by (auto simp: read_ipv6_def split: option.splits if_splits)
    note sides = read_left_SomeD [OF g(1)] read_right_SomeD [OF g(2)]
    have "double_colons (CHR '':'' # r) = 0"
    proof (cases r)
      case (Cons c t)
      then have "c \<noteq> CHR '':''" using sides(2) by (auto simp: group_texts_def)
      then show ?thesis using Cons sides(2) double_side [of r "[]"] by auto
    qed simp
    then have "double_colons s = 1"
      using double_side [of l "''::'' @ r"] sides(1) cut_SomeD [OF lr] by auto
    moreover have "colons s \<le> 8" using sides g(3) cut_SomeD [OF lr] by auto
    ultimately show ?thesis by simp
  qed
  then show "colons s \<le> 8" "double_colons s \<le> 1" by simp_all
qed

lemma ipv6_colons:
  assumes "length a = 16"
  shows "double_colons (ipv6_display a) = 0 \<and> colons (ipv6_display a) = 7
    \<or> 1 \<le> double_colons (ipv6_display a) \<and> 2 \<le> colons (ipv6_display a)"
proof -
  have dbl: "1 \<le> double_colons (x @ ''::'' @ y)" "2 \<le> colons (x @ ''::'' @ y)" for x y
    using double_append [of x "''::'' @ y"] by simp_all
  show ?thesis
  proof (cases "to_ipv4_mapped a")
    case (Some v4)
    then show ?thesis using dbl [of "[]"] by (simp add: ipv6_display_def)
  next
    case None
    obtain st len where z: "zero_span 0 (segments a) (0, 0) (0, 0) = (st, len)" by fastforce
    have h: "hex_texts (segments a) \<noteq> []" "length (hex_texts (segments a)) = 8"
      by (simp_all add: hex_texts_def flip: length_0_conv)
    have "double_colons (fmt_subslice (segments a)) = 0"
      using double_groups [OF hex_texts_ok h(1), of "[]"] by (simp add: fmt_subslice_eq)
    moreover have "colons (fmt_subslice (segments a)) = 7"
      using count_join [OF h(1), of "CHR '':''"] hex_texts_ok [of "segments a"] h(2)
      by (simp add: fmt_subslice_eq group_texts_def list_all_iff)
    ultimately show ?thesis using None z dbl by (auto simp: ipv6_display_def Let_def)
  qed
qed

lemma no_colon_reads_ipv4:
  assumes "CHR '':'' \<notin> set s" and "CHR ''.'' \<in> set s" and "read_ipv4 s = None"
  shows "read_address s = None"
proof -
  have "cut_omission s = None" using cut_part [OF assms(1), of "[]"] by simp
  moreover have "read_group s = None" using assms(2) by (simp add: read_group_def read_num_separator)
  ultimately show ?thesis using assms by (auto simp: read_address_def read_ipv6_def read_right_def split_on_free)
qed

lemma ipv4_texts_unreadable:
  assumes "2 \<le> length addrs" and "list_all (\<lambda>a. length a = 4) addrs"
  shows "read_address (concat (map ipv4_display addrs)) = None"
proof -
  let ?s = "concat (map ipv4_display addrs)"
  have dots: "count_list ?s (CHR ''.'') = 3 * length addrs"
    using assms(2) by (induction addrs) (simp_all add: ipv4_dots)
  then have "read_ipv4 ?s = None" using read_ipv4_SomeD(1) [of ?s] assms(1) by (cases "read_ipv4 ?s") auto
  moreover have "CHR ''.'' \<in> set ?s" using dots assms(1) by (cases "CHR ''.'' \<in> set ?s") simp_all
  ultimately show ?thesis using ipv4_no_colon by (intro no_colon_reads_ipv4) auto
qed

lemma ipv6_texts_unreadable:
  assumes "2 \<le> length addrs" and "list_all (\<lambda>a. length a = 16) addrs"
  shows "read_address (concat (map ipv6_display addrs)) = None"
proof (rule ccontr)
  obtain a b as where addrs: "addrs = a # b # as" using assms(1) by (cases addrs; cases "tl addrs") auto
  have len: "length a = 16" "length b = 16" using assms(2) addrs by simp_all
  let ?a = "ipv6_display a" and ?b = "ipv6_display b"
  let ?r = "concat (map ipv6_display as)"
  let ?s = "?a @ ?b @ ?r"
  assume "read_address (concat (map ipv6_display addrs)) \<noteq> None"
  moreover have "read_ipv4 ?s = None"
    using read_ipv4_SomeD(2) [of ?s] ipv6_has_colon [OF len(1)] by (cases "read_ipv4 ?s") auto
  ultimately obtain x where "read_ipv6 ?s = Some x" by (auto simp: read_address_def addrs)
  note most = read_ipv6_SomeD [OF this]
  have "double_colons ?a + double_colons ?b \<le> 1"
    using most(2) double_append [of ?a "?b @ ?r"] double_append [of ?b ?r] by simp
  moreover have "colons ?a + colons ?b \<le> 8" using most(1) by simp
  ultimately show False using ipv6_colons [OF len(1)] ipv6_colons [OF len(2)] by linarith
qed

lemma addr_texts_unreadable:
  assumes "2 \<le> length addrs" and "list_all (\<lambda>a. length a = 4) addrs \<or> list_all (\<lambda>a. length a = 16) addrs"
  shows "read_address (concat (map addr_text addrs)) = None"
proof (cases "list_all (\<lambda>a. length a = 4) addrs")
  case True
  then have "map addr_text addrs = map ipv4_display addrs"
    by (intro map_cong refl) (simp add: addr_text_def list_all_iff)
  with ipv4_texts_unreadable [OF assms(1) True] show ?thesis by (simp only:)
next
  case False
  with assms(2) have all: "list_all (\<lambda>a. length a = 16) addrs" by blast
  then have "map addr_text addrs = map ipv6_display addrs"
    by (intro map_cong refl) (simp add: addr_text_def list_all_iff)
  with ipv6_texts_unreadable [OF assms(1) all] show ?thesis by (simp only:)
qed

section \<open>Properties\<close>

definition address :: "RawIpAddr \<Rightarrow> bytes" where
  "address a = (if ia_family a = AF_INET then take 4 (ia_bytes a) else ia_bytes a)"

lemma read_ip_text: "wf_ip a \<Longrightarrow> read_address (ip_text a) = Some (address a)"
  using read_address_text [of "address a"]
  by (cases "ia_family a = AF_INET") (simp_all add: ip_text_def address_def addr_text_def wf_ip_def)

lemma one_collected:
  assumes "collected addrs out"
    and "length (resolved_ip_raw out) = 4 \<or> length (resolved_ip_raw out) = 16 \<and> ip_family out = AF_INET6"
  shows "addrs = [resolved_ip_raw out]"
proof -
  have all: "list_all (\<lambda>a. 4 \<le> length a) addrs" using assms(1) by (auto simp: collected_def list_all_iff)
  then have le: "4 * length addrs \<le> length (concat addrs)" by (induction addrs) simp_all
  obtain pre a where addrs: "addrs = pre @ [a]" using assms by (cases addrs rule: rev_cases) (auto simp: collected_def)
  have "length a = 4 \<and> length (concat addrs) = 4 \<or> length a = 16 \<and> length (concat addrs) = 16"
    using assms addrs le by (auto simp: collected_def addr_family_def AF_INET_def AF_INET6_def split: if_splits)
  then have "concat pre = []" using addrs by auto
  moreover have "list_all (\<lambda>a. a \<noteq> []) pre" using all addrs by (auto simp: list_all_iff)
  ultimately have "pre = []" by (cases pre) auto
  with addrs assms(1) show ?thesis by (simp add: collected_def)
qed

text \<open>C13. The text of a parsed response can be read back: the source and destination give the event's
  addresses, bit for bit; with one address in the answers (four raw bytes, or sixteen of family
  \<open>AF_INET6\<close>), their text gives the raw bytes stored beside it; with two or more of the same family it is no address at all, since \<open>parse_rdata\<close> writes them one
  after the other without a separator.\<close>

theorem parsed_text_reads_back:
  assumes "wf_event ev" and "parse_dns_into ev slot = (Ok (), out)"
  shows "read_address (src_ip out) = Some (address (ev_src_ip ev))
    \<and> read_address (dst_ip out) = Some (address (ev_dst_ip ev))
    \<and> (length (resolved_ip_raw out) = 4 \<or> length (resolved_ip_raw out) = 16 \<and> ip_family out = AF_INET6 \<longrightarrow>
        read_address (resolved_ip out) = Some (resolved_ip_raw out))
    \<and> (\<exists>addrs. collected addrs out
        \<and> (2 \<le> length addrs \<and> (list_all (\<lambda>a. length a = 4) addrs \<or> list_all (\<lambda>a. length a = 16) addrs) \<longrightarrow>
            read_address (resolved_ip out) = None))"
proof -
  obtain dn addrs where c: "collected addrs out" and fr: "same_frame ((base_slot ev)\<lparr>domain_name := dn\<rparr>) out"
    using parse_dns_ok_run [OF assms] by metis
  have "read_address (resolved_ip out) = Some (resolved_ip_raw out)"
    if "length (resolved_ip_raw out) = 4 \<or> length (resolved_ip_raw out) = 16 \<and> ip_family out = AF_INET6"
    using one_collected [OF c that] that c read_address_text [of "resolved_ip_raw out"]
    by (auto simp: collected_def)
  moreover have "read_address (resolved_ip out) = None"
    if "2 \<le> length addrs" "list_all (\<lambda>a. length a = 4) addrs \<or> list_all (\<lambda>a. length a = 16) addrs"
    using addr_texts_unreadable [OF that] c by (simp add: collected_def)
  ultimately show ?thesis
    using c fr read_ip_text [OF wf_eventD(1) [OF assms(1)]] read_ip_text [OF wf_eventD(2) [OF assms(1)]]
    by (auto simp: same_frame_def base_slot_def)
qed

theorem parsed_text_reads_back_witness:
  "\<exists>out. parse_dns_into (sample_event sample_msg) default_DnsResponse = (Ok (), out)
    \<and> read_address (src_ip out) = Some [8, 8, 8, 8] \<and> read_address (dst_ip out) = Some [10, 0, 0, 2]
    \<and> read_address (resolved_ip out) = Some [1, 2, 3, 4]"
proof -
  have w: "wf_event (sample_event sample_msg)" by (rule wf_sample_event) code_simp
  have "fst (parse_dns_into (sample_event sample_msg) default_DnsResponse) = Ok ()" by code_simp
  then obtain out where run: "parse_dns_into (sample_event sample_msg) default_DnsResponse = (Ok (), out)"
    by (metis prod.collapse)
  have "resolved_ip_raw (snd (parse_dns_into (sample_event sample_msg) default_DnsResponse)) = [1, 2, 3, 4]"
    by code_simp
  with run have "resolved_ip_raw out = [1, 2, 3, 4]" by simp
  moreover have "address (ev_src_ip (sample_event sample_msg)) = [8, 8, 8, 8]"
    "address (ev_dst_ip (sample_event sample_msg)) = [10, 0, 0, 2]"
    by (simp_all add: address_def sample_event_def from_ipv4_def)
  ultimately show ?thesis using run parsed_text_reads_back [OF w run] by auto
qed

end
