(* ===== verification/Bitfield.thy ===== *)
theory Bitfield
  imports Prelude
begin

text \<open>
  The bit-field runtime of the kernel bindings (\<open>cilium-mini-ebpf/src/vmlinux.rs\<close>, lines 1 to 214):
  \<open>__BindgenBitfieldUnit\<close> with its bit, field and raw accessors, and the marker types for flexible
  arrays and unions. The target of the build is an argument: its byte order (\<open>cfg!(target_endian = "big")\<close>)
  and whether it has debug assertions. The laws hold for all four. A \<open>debug_assert!\<close> is a check that
  panics on a target with debug assertions and is absent on the others. Indexing a byte outside the
  storage panics; through a raw pointer it is a fault, also \<open>Panic\<close>. Offsets are natural numbers: the
  accessors pass constants, so no sum of them wraps at the width of \<open>usize\<close>.

  A bit-field of a struct has four methods of one shape (getter, setter and their raw forms); the
  record \<open>accessor\<close> holds them. The locale \<open>bitfield_units\<close> states what makes a list of accessors on the
  units of a struct correct, and proves read-over-write for it once; \<open>bitfield_struct\<close> and
  \<open>bitfield_pair\<close> are its cases with one and two units.
\<close>

section \<open>The target\<close>

record target =
  big_endian :: bool
  debug_assertions :: bool

definition debug_assert :: "target \<Rightarrow> bool \<Rightarrow> ('s, 'e, unit) prog" where
  "debug_assert tgt cond = (if debug_assertions tgt \<and> \<not> cond then panic else ret ())"

text \<open>\<open>1 << n\<close> at 64 bits. Without overflow checks the shift count is taken modulo the width; the
  assertion \<open>bit_width <= 64\<close> keeps it below.\<close>

definition shl_one :: "nat \<Rightarrow> u64" where
  "shl_one n = push_bit (n mod 64) 1"

section \<open>The unit\<close>

record BindgenBitfieldUnit =
  storage :: bytes

definition unit_new :: "bytes \<Rightarrow> BindgenBitfieldUnit" where
  "unit_new st = \<lparr>storage = st\<rparr>"

definition bit_index :: "target \<Rightarrow> nat \<Rightarrow> nat" where
  "bit_index tgt index = (if big_endian tgt then 7 - (index mod 8) else index mod 8)"

definition extract_bit :: "target \<Rightarrow> u8 \<Rightarrow> nat \<Rightarrow> bool" where
  "extract_bit tgt byte index =
     (let mask = push_bit (bit_index tgt index) 1 in byte AND mask = mask)"

definition change_bit :: "target \<Rightarrow> u8 \<Rightarrow> nat \<Rightarrow> bool \<Rightarrow> u8" where
  "change_bit tgt byte index val =
     (let mask = push_bit (bit_index tgt index) 1 in if val then byte OR mask else byte AND NOT mask)"

definition get_bit :: "target \<Rightarrow> nat \<Rightarrow> (BindgenBitfieldUnit, unit, bool) prog" where
  "get_bit tgt index self =
     bindM (debug_assert tgt (index div 8 < length (storage self))) (\<lambda>_.
     let byte_index = index div 8 in
     bindM (index_at byte_index (storage self)) (\<lambda>byte. ret (extract_bit tgt byte index))) self"

definition set_bit_at :: "target \<Rightarrow> nat \<Rightarrow> bool \<Rightarrow> (BindgenBitfieldUnit, unit, unit) prog" where
  "set_bit_at tgt index val self =
     bindM (debug_assert tgt (index div 8 < length (storage self))) (\<lambda>_.
     let byte_index = index div 8 in
     bindM (index_at byte_index (storage self)) (\<lambda>byte.
       modify (\<lambda>u. u\<lparr>storage := (storage u)[byte_index := change_bit tgt byte index val]\<rparr>))) self"

text \<open>The raw forms read and write through a pointer to the first byte of the storage; an access
  past the storage is a fault.\<close>

definition raw_load :: "nat \<Rightarrow> (BindgenBitfieldUnit, unit, u8) prog" where
  "raw_load offset this = (if offset < length (storage this) then (Ok (storage this ! offset), this) else (Panic, this))"

definition raw_store :: "nat \<Rightarrow> u8 \<Rightarrow> (BindgenBitfieldUnit, unit, unit) prog" where
  "raw_store offset byte this =
     (if offset < length (storage this) then (Ok (), this\<lparr>storage := (storage this)[offset := byte]\<rparr>) else (Panic, this))"

definition raw_get_bit :: "target \<Rightarrow> nat \<Rightarrow> (BindgenBitfieldUnit, unit, bool) prog" where
  "raw_get_bit tgt index this =
     bindM (debug_assert tgt (index div 8 < length (storage this))) (\<lambda>_.
     let byte_index = index div 8 in
     bindM (raw_load byte_index) (\<lambda>byte. ret (extract_bit tgt byte index))) this"

definition raw_set_bit :: "target \<Rightarrow> nat \<Rightarrow> bool \<Rightarrow> (BindgenBitfieldUnit, unit, unit) prog" where
  "raw_set_bit tgt index val this =
     bindM (debug_assert tgt (index div 8 < length (storage this))) (\<lambda>_.
     let byte_index = index div 8 in
     bindM (raw_load byte_index) (\<lambda>byte. raw_store byte_index (change_bit tgt byte index val))) this"

text \<open>The loops over \<open>0..bit_width\<close>, with the index of a bit in the value.\<close>

definition value_index :: "target \<Rightarrow> nat \<Rightarrow> nat \<Rightarrow> nat" where
  "value_index tgt bit_width i = (if big_endian tgt then bit_width - 1 - i else i)"

fun get_loop :: "(nat \<Rightarrow> (BindgenBitfieldUnit, unit, bool) prog) \<Rightarrow> target \<Rightarrow> nat \<Rightarrow> nat \<Rightarrow> nat list \<Rightarrow> u64 \<Rightarrow>
    (BindgenBitfieldUnit, unit, u64) prog" where
  "get_loop read tgt bit_offset bit_width [] val = ret val"
| "get_loop read tgt bit_offset bit_width (i # is) val =
     bindM (read (i + bit_offset)) (\<lambda>b.
     get_loop read tgt bit_offset bit_width is
       (if b then val OR shl_one (value_index tgt bit_width i) else val))"

fun set_loop :: "(nat \<Rightarrow> bool \<Rightarrow> (BindgenBitfieldUnit, unit, unit) prog) \<Rightarrow> target \<Rightarrow> nat \<Rightarrow> nat \<Rightarrow> u64 \<Rightarrow> nat list \<Rightarrow>
    (BindgenBitfieldUnit, unit, unit) prog" where
  "set_loop write tgt bit_offset bit_width val [] = ret ()"
| "set_loop write tgt bit_offset bit_width val (i # is) =
     (let mask = shl_one i; val_bit_is_set = (val AND mask = mask) in
      bindM (write (value_index tgt bit_width i + bit_offset) val_bit_is_set) (\<lambda>_.
      set_loop write tgt bit_offset bit_width val is))"

text \<open>The three assertions that each of the four methods begins with.\<close>

definition assert_field :: "target \<Rightarrow> nat \<Rightarrow> nat \<Rightarrow> (BindgenBitfieldUnit, unit, unit) prog" where
  "assert_field tgt bit_offset bit_width self =
     bindM (debug_assert tgt (bit_width \<le> 64)) (\<lambda>_.
     bindM (debug_assert tgt (bit_offset div 8 < length (storage self))) (\<lambda>_.
     debug_assert tgt ((bit_offset + bit_width) div 8 \<le> length (storage self)))) self"

definition unit_get :: "target \<Rightarrow> nat \<Rightarrow> nat \<Rightarrow> (BindgenBitfieldUnit, unit, u64) prog" where
  "unit_get tgt bit_offset bit_width =
     bindM (assert_field tgt bit_offset bit_width) (\<lambda>_.
     get_loop (get_bit tgt) tgt bit_offset bit_width [0..<bit_width] 0)"

definition unit_raw_get :: "target \<Rightarrow> nat \<Rightarrow> nat \<Rightarrow> (BindgenBitfieldUnit, unit, u64) prog" where
  "unit_raw_get tgt bit_offset bit_width =
     bindM (assert_field tgt bit_offset bit_width) (\<lambda>_.
     get_loop (raw_get_bit tgt) tgt bit_offset bit_width [0..<bit_width] 0)"

definition unit_set :: "target \<Rightarrow> nat \<Rightarrow> nat \<Rightarrow> u64 \<Rightarrow> (BindgenBitfieldUnit, unit, unit) prog" where
  "unit_set tgt bit_offset bit_width val =
     bindM (assert_field tgt bit_offset bit_width) (\<lambda>_.
     set_loop (set_bit_at tgt) tgt bit_offset bit_width val [0..<bit_width])"

definition unit_raw_set :: "target \<Rightarrow> nat \<Rightarrow> nat \<Rightarrow> u64 \<Rightarrow> (BindgenBitfieldUnit, unit, unit) prog" where
  "unit_raw_set tgt bit_offset bit_width val =
     bindM (assert_field tgt bit_offset bit_width) (\<lambda>_.
     set_loop (raw_set_bit tgt) tgt bit_offset bit_width val [0..<bit_width])"

section \<open>Bits of a unit\<close>

definition unit_bit :: "target \<Rightarrow> BindgenBitfieldUnit \<Rightarrow> nat \<Rightarrow> bool" where
  "unit_bit tgt u p = bit (storage u ! (p div 8)) (bit_index tgt p)"

lemma bit_index_less [simp]: "bit_index tgt p < 8"
  by (auto simp: bit_index_def)

lemma bit_index_inject: "bit_index tgt p = bit_index tgt q \<longleftrightarrow> p mod 8 = q mod 8"
proof -
  have "p mod 8 < 8" "q mod 8 < 8" by simp_all
  then show ?thesis by (auto simp: bit_index_def)
qed

lemma mask_test: "i < LENGTH('a) \<Longrightarrow> (w AND 2 ^ i = 2 ^ i) \<longleftrightarrow> bit (w :: 'a::len word) i"
proof
  assume "i < LENGTH('a)" and "w AND 2 ^ i = 2 ^ i"
  then have "bit (w AND 2 ^ i) i" by (simp add: bit_exp_iff)
  then show "bit w i" by (simp add: bit_and_iff)
next
  assume "bit w i"
  then show "w AND 2 ^ i = 2 ^ i" by (intro bit_word_eqI) (auto simp: bit_and_iff bit_exp_iff)
qed

lemma bit_shl_one: "bit (shl_one n) k \<longleftrightarrow> k = n mod 64"
  by (auto simp: shl_one_def bit_exp_iff)

lemma shl_one_test: "i < 64 \<Longrightarrow> (w AND shl_one i = shl_one i) \<longleftrightarrow> bit w i"
  using mask_test [of i w] by (simp add: shl_one_def)

lemma debug_assert_simps [simp]:
  "cond \<Longrightarrow> debug_assert tgt cond = ret ()"
  "\<not> debug_assertions tgt \<Longrightarrow> debug_assert tgt cond = ret ()"
  "debug_assertions tgt \<Longrightarrow> \<not> cond \<Longrightarrow> debug_assert tgt cond = panic"
  by (simp_all add: debug_assert_def)

lemma extract_bit_iff: "extract_bit tgt byte p \<longleftrightarrow> bit byte (bit_index tgt p)"
  by (simp add: extract_bit_def Let_def mask_test)

lemma bit_change_bit:
  "k < 8 \<Longrightarrow> bit (change_bit tgt byte p v) k \<longleftrightarrow> (if k = bit_index tgt p then v else bit byte k)"
  by (auto simp: change_bit_def Let_def bit_or_iff bit_and_iff bit_not_iff bit_exp_iff)

lemma get_bit_eq:
  "p < 8 * length (storage u) \<Longrightarrow> get_bit tgt p u = (Ok (unit_bit tgt u p), u)"
  by (simp add: get_bit_def Let_def ret_def extract_bit_iff unit_bit_def)

lemma raw_get_bit_eq: "raw_get_bit tgt p u = get_bit tgt p u"
  by (simp add: raw_get_bit_def get_bit_def debug_assert_def Let_def raw_load_def index_at_def bindM_def ret_def
      panic_def)

lemma raw_set_bit_eq: "raw_set_bit tgt p v u = set_bit_at tgt p v u"
  by (simp add: raw_set_bit_def set_bit_at_def debug_assert_def Let_def raw_load_def raw_store_def index_at_def bindM_def ret_def
      panic_def modify_def)

text \<open>Writing one bit changes that bit only.\<close>

definition put_bit :: "target \<Rightarrow> nat \<Rightarrow> bool \<Rightarrow> BindgenBitfieldUnit \<Rightarrow> BindgenBitfieldUnit" where
  "put_bit tgt p v u =
     u\<lparr>storage := (storage u)[p div 8 := change_bit tgt (storage u ! (p div 8)) p v]\<rparr>"

lemma set_bit_eq: "p < 8 * length (storage u) \<Longrightarrow> set_bit_at tgt p v u = (Ok (), put_bit tgt p v u)"
  by (simp add: set_bit_at_def Let_def modify_def put_bit_def)

lemma length_put_bit [simp]: "length (storage (put_bit tgt p v u)) = length (storage u)"
  by (simp add: put_bit_def)

lemma unit_bit_put:
  assumes "p < 8 * length (storage u)" and "q < 8 * length (storage u)"
  shows "unit_bit tgt (put_bit tgt p v u) q \<longleftrightarrow> (if q = p then v else unit_bit tgt u q)"
proof (cases "q div 8 = p div 8")
  case True
  then have "q = p \<longleftrightarrow> bit_index tgt q = bit_index tgt p"
    by (metis bit_index_inject div_mult_mod_eq)
  with True assms show ?thesis by (simp add: unit_bit_def put_bit_def bit_change_bit)
next
  case False
  then show ?thesis by (auto simp: unit_bit_def put_bit_def)
qed

section \<open>Fields of a unit\<close>

text \<open>The loops, on ranges inside the storage.\<close>

definition in_unit :: "nat \<Rightarrow> nat \<Rightarrow> BindgenBitfieldUnit \<Rightarrow> bool" where
  "in_unit off w u \<longleftrightarrow> w \<le> 64 \<and> off div 8 < length (storage u) \<and> off + w \<le> 8 * length (storage u)"

lemma in_unitI: "0 < w \<Longrightarrow> w \<le> 64 \<Longrightarrow> off + w \<le> 8 * length (storage u) \<Longrightarrow> in_unit off w u"
  by (simp add: in_unit_def div_less_iff_less_mult)

text \<open>The assertions hold for a field inside the unit, and where one does not, a target with debug
  assertions panics.\<close>

lemma assert_field_ok:
  assumes "in_unit off w u"
  shows "assert_field tgt off w u = (Ok (), u)"
proof -
  have "(off + w) div 8 \<le> length (storage u)"
    using div_le_mono [of "off + w" "8 * length (storage u)" 8] assms by (simp add: in_unit_def)
  then show ?thesis using assms by (simp add: assert_field_def in_unit_def ret_def)
qed

lemma assert_field_panics:
  "debug_assertions tgt \<Longrightarrow>
     \<not> (w \<le> 64 \<and> off div 8 < length (storage u) \<and> (off + w) div 8 \<le> length (storage u)) \<Longrightarrow>
     assert_field tgt off w u = (Panic, u)"
  by (auto simp: assert_field_def debug_assert_def bindM_def panic_def ret_def)

lemma get_loop_eq:
  assumes "\<forall>i \<in> set is. i + off < 8 * length (storage u)"
  shows "get_loop (get_bit tgt) tgt off w is val u =
    (Ok (fold (\<lambda>i v. if unit_bit tgt u (i + off) then v OR shl_one (value_index tgt w i) else v) is val), u)"
  using assms by (induction "is" arbitrary: val) (simp_all add: get_bit_eq ret_def)

lemma bit_get_fold:
  "bit (fold (\<lambda>i v. if unit_bit tgt u (i + off) then v OR shl_one (f i) else v) is (val :: u64)) k \<longleftrightarrow>
     bit val k \<or> (\<exists>i \<in> set is. f i mod 64 = k \<and> unit_bit tgt u (i + off))"
  by (induction "is" arbitrary: val) (auto simp: bit_or_iff bit_shl_one)

lemma value_index_flip:
  "i < w \<Longrightarrow> k < w \<Longrightarrow> value_index tgt w i = k \<longleftrightarrow> i = value_index tgt w k"
  by (auto simp: value_index_def)

lemma value_index_invol: "k < w \<Longrightarrow> value_index tgt w (value_index tgt w k) = k"
  by (auto simp: value_index_def)

lemma value_index_less: "i < w \<Longrightarrow> value_index tgt w i < w"
  by (auto simp: value_index_def)

lemma unit_get_spec:
  assumes "in_unit off w u"
  obtains x where "unit_get tgt off w u = (Ok x, u)"
    and "\<forall>k. bit x k \<longleftrightarrow> k < w \<and> unit_bit tgt u (value_index tgt w k + off)"
proof -
  let ?x = "fold (\<lambda>i v. if unit_bit tgt u (i + off) then v OR shl_one (value_index tgt w i) else v) [0..<w] (0 :: u64)"
  have w: "w \<le> 64" and r: "\<forall>i \<in> set [0..<w]. i + off < 8 * length (storage u)"
    using assms by (auto simp: in_unit_def)
  have "bit ?x k \<longleftrightarrow> k < w \<and> unit_bit tgt u (value_index tgt w k + off)" for k
  proof -
    have m: "value_index tgt w i mod 64 = value_index tgt w i" if "i < w" for i
      using value_index_less [OF that, of tgt] w by simp
    have "(\<exists>i \<in> set [0..<w]. value_index tgt w i mod 64 = k \<and> unit_bit tgt u (i + off))
        \<longleftrightarrow> k < w \<and> unit_bit tgt u (value_index tgt w k + off)"
      by (auto simp: m value_index_invol value_index_less intro!: bexI [of _ "value_index tgt w k"])
    then show ?thesis by (simp add: bit_get_fold)
  qed
  moreover have "unit_get tgt off w u = (Ok ?x, u)"
    using get_loop_eq [OF r, of tgt w 0] assert_field_ok [OF assms, of tgt] by (simp add: unit_get_def)
  ultimately show ?thesis using that by blast
qed

lemma set_loop_eq:
  assumes "\<forall>i \<in> set is. value_index tgt w i + off < 8 * length (storage u)"
  shows "set_loop (set_bit_at tgt) tgt off w val is u =
    (Ok (), fold (\<lambda>i u. put_bit tgt (value_index tgt w i + off) (val AND shl_one i = shl_one i) u) is u)"
  using assms by (induction "is" arbitrary: u) (simp_all add: set_bit_eq ret_def Let_def)

lemma length_put_fold [simp]:
  "length (storage (fold (\<lambda>i. put_bit tgt (f i) (g i)) is u)) = length (storage u)"
  by (induction "is" arbitrary: u) simp_all

lemma bit_set_fold:
  assumes "\<forall>i \<in> set is. f i < 8 * length (storage u)" and "p < 8 * length (storage u)" and "inj_on f (set is)"
    and "distinct is"
  shows "unit_bit tgt (fold (\<lambda>i. put_bit tgt (f i) (g i)) is u) p \<longleftrightarrow>
    (if \<exists>i \<in> set is. f i = p then (\<exists>i \<in> set is. f i = p \<and> g i) else unit_bit tgt u p)"
  using assms
proof (induction "is" arbitrary: u)
  case Nil
  then show ?case by simp
next
  case (Cons i "is")
  have "inj_on f (set is)" using Cons.prems(3) by simp
  moreover have "f i \<noteq> f j" if "j \<in> set is" for j
    using Cons.prems(3,4) that by (metis distinct.simps(2) inj_on_eq_iff list.set_intros)
  ultimately show ?case
    using Cons.IH [of "put_bit tgt (f i) (g i) u"] Cons.prems
    by (auto simp: unit_bit_put)
qed

text \<open>The bit of the value that lands at position \<open>p\<close>.\<close>

lemma field_range:
  "(\<exists>i \<in> set [0..<w]. value_index tgt w i + off = p \<and> P i) \<longleftrightarrow>
     off \<le> p \<and> p < off + w \<and> P (value_index tgt w (p - off))"
proof
  assume "\<exists>i \<in> set [0..<w]. value_index tgt w i + off = p \<and> P i"
  then obtain i where i: "i < w" "value_index tgt w i + off = p" "P i" by auto
  then have "i = value_index tgt w (p - off)" by (auto simp: value_index_invol)
  with i value_index_less [of i w tgt] show "off \<le> p \<and> p < off + w \<and> P (value_index tgt w (p - off))" by auto
next
  assume a: "off \<le> p \<and> p < off + w \<and> P (value_index tgt w (p - off))"
  then have "p - off < w" by auto
  with a show "\<exists>i \<in> set [0..<w]. value_index tgt w i + off = p \<and> P i"
    by (intro bexI [of _ "value_index tgt w (p - off)"]) (auto simp: value_index_invol value_index_less)
qed

lemma unit_set_spec:
  assumes "in_unit off w u"
  obtains u' where "unit_set tgt off w v u = (Ok (), u')" and "length (storage u') = length (storage u)"
    and "\<forall>p < 8 * length (storage u). unit_bit tgt u' p \<longleftrightarrow>
      (if off \<le> p \<and> p < off + w then bit v (value_index tgt w (p - off)) else unit_bit tgt u p)"
proof -
  let ?f = "\<lambda>i. value_index tgt w i + off" and ?g = "\<lambda>i. v AND shl_one i = shl_one i"
  let ?u = "fold (\<lambda>i. put_bit tgt (?f i) (?g i)) [0..<w] u"
  have w: "w \<le> 64" and r: "\<forall>i \<in> set [0..<w]. ?f i < 8 * length (storage u)"
    using assms value_index_less [of _ w tgt] by (fastforce simp: in_unit_def)+
  have inj: "inj_on ?f (set [0..<w])"
    by (rule inj_onI) (auto simp: value_index_def split: if_splits)
  have "unit_bit tgt ?u p \<longleftrightarrow>
      (if off \<le> p \<and> p < off + w then bit v (value_index tgt w (p - off)) else unit_bit tgt u p)"
    if p: "p < 8 * length (storage u)" for p
  proof -
    have in_w: "off \<le> p \<and> p < off + w \<Longrightarrow> value_index tgt w (p - off) < 64"
      using w value_index_less [of "p - off" w tgt] by linarith
    show ?thesis
      using bit_set_fold [OF r p inj distinct_upt, of tgt ?g] field_range [of w tgt off p "\<lambda>_. True"]
        field_range [of w tgt off p ?g] in_w shl_one_test [of _ v]
      by (auto split: if_splits)
  qed
  moreover have "unit_set tgt off w v u = (Ok (), ?u)"
    using set_loop_eq [OF r, of v] assert_field_ok [OF assms, of tgt] by (simp add: unit_set_def)
  ultimately show ?thesis using that [of ?u] by simp
qed

text \<open>The raw loops compute the same.\<close>

lemma raw_loops_eq:
  "get_loop (raw_get_bit tgt) b off w is val u = get_loop (get_bit tgt) b off w is val u"
  "set_loop (raw_set_bit tgt) b off w v is u = set_loop (set_bit_at tgt) b off w v is u"
proof -
  have "raw_get_bit tgt = get_bit tgt" "raw_set_bit tgt = set_bit_at tgt"
    by (simp_all add: fun_eq_iff raw_get_bit_eq raw_set_bit_eq)
  then show "get_loop (raw_get_bit tgt) b off w is val u = get_loop (get_bit tgt) b off w is val u"
    and "set_loop (raw_set_bit tgt) b off w v is u = set_loop (set_bit_at tgt) b off w v is u" by (simp_all only:)
qed

lemma raw_eq: "unit_raw_get tgt off w = unit_get tgt off w" "unit_raw_set tgt off w v = unit_set tgt off w v"
  by (simp_all add: unit_raw_get_def unit_get_def unit_raw_set_def unit_set_def raw_loops_eq [abs_def])

text \<open>Reading a field after writing it, and after writing another.\<close>

lemma unit_get_set:
  assumes "in_unit off w u" and "unit_set tgt off w v u = (Ok (), u')"
  shows "unit_get tgt off w u' = (Ok (take_bit w v), u')"
proof -
  obtain u1 where "unit_set tgt off w v u = (Ok (), u1)" and len: "length (storage u1) = length (storage u)"
      and bits: "\<forall>p < 8 * length (storage u). unit_bit tgt u1 p \<longleftrightarrow>
        (if off \<le> p \<and> p < off + w then bit v (value_index tgt w (p - off)) else unit_bit tgt u p)"
    by (rule unit_set_spec [OF assms(1), of tgt v])
  then have [simp]: "u1 = u'" using assms(2) by simp
  have "in_unit off w u'" using assms(1) len by (simp add: in_unit_def)
  then obtain x where x: "unit_get tgt off w u' = (Ok x, u')"
      and xb: "\<forall>k. bit x k \<longleftrightarrow> k < w \<and> unit_bit tgt u' (value_index tgt w k + off)"
    by (rule unit_get_spec [where tgt = tgt])
  have "bit x k \<longleftrightarrow> bit (take_bit w v) k" for k
  proof (cases "k < w")
    case True
    then have "value_index tgt w k + off < 8 * length (storage u)"
      using assms(1) value_index_less [OF True, of tgt] by (simp add: in_unit_def)
    with True bits show ?thesis
      using value_index_less [OF True, of tgt] by (simp add: xb bit_take_bit_iff value_index_invol)
  qed (simp add: xb bit_take_bit_iff)
  then have "x = take_bit w v" by (intro bit_word_eqI) simp
  with x show ?thesis by simp
qed

lemma unit_get_set_other:
  assumes "in_unit off w u" and "in_unit off2 w2 u" and "unit_set tgt off w v u = (Ok (), u')"
    and "off + w \<le> off2 \<or> off2 + w2 \<le> off"
  shows "fst (unit_get tgt off2 w2 u') = (fst (unit_get tgt off2 w2 u))"
    and "length (storage u') = length (storage u)"
proof -
  obtain u1 where "unit_set tgt off w v u = (Ok (), u1)" and len: "length (storage u1) = length (storage u)"
      and bits: "\<forall>p < 8 * length (storage u). unit_bit tgt u1 p \<longleftrightarrow>
        (if off \<le> p \<and> p < off + w then bit v (value_index tgt w (p - off)) else unit_bit tgt u p)"
    by (rule unit_set_spec [OF assms(1), of tgt v])
  then have [simp]: "u1 = u'" using assms(3) by simp
  show "length (storage u') = length (storage u)" using len by simp
  then have "in_unit off2 w2 u'" using assms(2) by (simp add: in_unit_def)
  then obtain x where x: "unit_get tgt off2 w2 u' = (Ok x, u')"
      and xb: "\<forall>k. bit x k \<longleftrightarrow> k < w2 \<and> unit_bit tgt u' (value_index tgt w2 k + off2)"
    by (rule unit_get_spec [where tgt = tgt])
  obtain y where y: "unit_get tgt off2 w2 u = (Ok y, u)"
      and yb: "\<forall>k. bit y k \<longleftrightarrow> k < w2 \<and> unit_bit tgt u (value_index tgt w2 k + off2)"
    by (rule unit_get_spec [OF assms(2), where tgt = tgt])
  have "bit x k \<longleftrightarrow> bit y k" for k
  proof (cases "k < w2")
    case True
    with assms(2,4) bits value_index_less [OF True, of tgt] show ?thesis by (auto simp: xb yb in_unit_def)
  qed (simp add: xb yb)
  then have "x = y" by (intro bit_word_eqI) simp
  with x y show "fst (unit_get tgt off2 w2 u') = (fst (unit_get tgt off2 w2 u))" by simp
qed

section \<open>Accessors of struct fields\<close>

text \<open>The four methods that bindgen emits for a bit-field: \<open>f\<close>, \<open>set_f\<close>, \<open>f_raw\<close> and \<open>set_f_raw\<close>,
  as programs over the struct, with values of the field's declared width.\<close>

record ('s, 'v) accessor =
  field_get :: "('s, unit, 'v) prog"
  field_set :: "'v \<Rightarrow> ('s, unit, unit) prog"
  field_get_raw :: "('s, unit, 'v) prog"
  field_set_raw :: "'v \<Rightarrow> ('s, unit, unit) prog"

definition bitfield ::
  "target \<Rightarrow> ('s \<Rightarrow> BindgenBitfieldUnit) \<Rightarrow> ((BindgenBitfieldUnit \<Rightarrow> BindgenBitfieldUnit) \<Rightarrow> 's \<Rightarrow> 's) \<Rightarrow> nat \<Rightarrow> nat \<Rightarrow>
     ('s, 'w::len word) accessor" where
  "bitfield tgt sel upd bit_offset bit_width =
     \<lparr>field_get = bindM (on_field sel upd (unit_get tgt bit_offset bit_width)) (\<lambda>v. ret (ucast v)),
      field_set = (\<lambda>val. on_field sel upd (unit_set tgt bit_offset bit_width (ucast val))),
      field_get_raw = bindM (on_field sel upd (unit_raw_get tgt bit_offset bit_width)) (\<lambda>v. ret (ucast v)),
      field_set_raw = (\<lambda>val. on_field sel upd (unit_raw_set tgt bit_offset bit_width (ucast val)))\<rparr>"

text \<open>\<open>new_bitfield_n\<close>: the fields set one after the other in a zeroed unit.\<close>

fun set_all :: "target \<Rightarrow> (nat \<times> nat \<times> u64) list \<Rightarrow> (BindgenBitfieldUnit, unit, unit) prog" where
  "set_all tgt [] = ret ()"
| "set_all tgt ((bit_offset, bit_width, val) # fs) =
     bindM (unit_set tgt bit_offset bit_width val) (\<lambda>_. set_all tgt fs)"

definition new_bitfield :: "target \<Rightarrow> nat \<Rightarrow> (nat \<times> nat \<times> u64) list \<Rightarrow> (unit, unit) outcome \<times> BindgenBitfieldUnit" where
  "new_bitfield tgt sz fs = set_all tgt fs (unit_new (replicate sz 0))"

text \<open>A flexible array member has no storage of its own: its slice is the memory behind the struct.
  A union member is its union's storage read at the member's type.\<close>

definition incomplete_array_slice :: "nat \<Rightarrow> 'b list \<Rightarrow> (unit, 'b list) outcome" where
  "incomplete_array_slice len mem = (if len \<le> length mem then Ok (take len mem) else Panic)"

definition union_field_ref :: "(bytes \<Rightarrow> 't) \<Rightarrow> bytes \<Rightarrow> 't" where
  "union_field_ref transmute mem = transmute mem"

definition union_field_mut :: "('t \<Rightarrow> bytes) \<Rightarrow> (bytes \<Rightarrow> 't) \<Rightarrow> ('t, 'e, 'a) prog \<Rightarrow> (bytes, 'e, 'a) prog" where
  "union_field_mut to_bytes transmute p mem =
     (case p (transmute mem) of (r, x) \<Rightarrow> (r, to_bytes x @ drop (length (to_bytes x)) mem))"

text \<open>Setting disjoint fields one after the other leaves each with its own value.\<close>

definition apart :: "nat \<Rightarrow> nat \<Rightarrow> nat \<Rightarrow> nat \<Rightarrow> bool" where
  "apart o1 w1 o2 w2 \<longleftrightarrow> o1 + w1 \<le> o2 \<or> o2 + w2 \<le> o1"

lemma set_all_spec:
  assumes "list_all (\<lambda>(off, w, v). in_unit off w u) fs"
    and "sorted_wrt (\<lambda>(o1, w1, v1) (o2, w2, v2). apart o1 w1 o2 w2) fs"
  shows "\<exists>u'. set_all tgt fs u = (Ok (), u') \<and> length (storage u') = length (storage u)
    \<and> list_all (\<lambda>(off, w, v). unit_get tgt off w u' = (Ok (take_bit w v), u')) fs
    \<and> (\<forall>off w. in_unit off w u \<longrightarrow> list_all (\<lambda>(o2, w2, v). apart off w o2 w2) fs \<longrightarrow>
          fst (unit_get tgt off w u') = fst (unit_get tgt off w u))
    \<and> (\<forall>p < 8 * length (storage u). list_all (\<lambda>(o2, w2, v). \<not> (o2 \<le> p \<and> p < o2 + w2)) fs \<longrightarrow>
          unit_bit tgt u' p = unit_bit tgt u p)"
  using assms
proof (induction fs arbitrary: u)
  case Nil
  then show ?case by (simp add: ret_def)
next
  case (Cons f fs)
  obtain o1 w1 v1 where f: "f = (o1, w1, v1)" by (cases f)
  have in1: "in_unit o1 w1 u" using Cons.prems(1) f by simp
  obtain u1 where u1: "unit_set tgt o1 w1 v1 u = (Ok (), u1)" "length (storage u1) = length (storage u)"
      "\<forall>p < 8 * length (storage u). unit_bit tgt u1 p \<longleftrightarrow>
        (if o1 \<le> p \<and> p < o1 + w1 then bit v1 (value_index tgt w1 (p - o1)) else unit_bit tgt u p)"
    by (rule unit_set_spec [OF in1, where tgt = tgt and v = v1])
  have same: "in_unit off w u1 = in_unit off w u" for off w by (simp add: in_unit_def u1(2))
  obtain u' where u': "set_all tgt fs u1 = (Ok (), u')" "length (storage u') = length (storage u1)"
      "list_all (\<lambda>(off, w, v). unit_get tgt off w u' = (Ok (take_bit w v), u')) fs"
      "\<forall>off w. in_unit off w u1 \<longrightarrow> list_all (\<lambda>(o2, w2, v). apart off w o2 w2) fs \<longrightarrow>
          fst (unit_get tgt off w u') = fst (unit_get tgt off w u1)"
      "\<forall>p < 8 * length (storage u1). list_all (\<lambda>(o2, w2, v). \<not> (o2 \<le> p \<and> p < o2 + w2)) fs \<longrightarrow>
          unit_bit tgt u' p = unit_bit tgt u1 p"
    using Cons.IH [of u1] Cons.prems by (auto simp: same)
  have "fst (unit_get tgt o1 w1 u') = Ok (take_bit w1 v1)"
    using u'(4) in1 Cons.prems(2) unit_get_set [OF in1 u1(1)] by (simp add: same f list_all_iff)
  moreover have "in_unit o1 w1 u'" using in1 u'(2) u1(2) by (simp add: in_unit_def)
  then obtain x where "unit_get tgt o1 w1 u' = (Ok x, u')" by (rule unit_get_spec [where tgt = tgt])
  ultimately have first: "unit_get tgt o1 w1 u' = (Ok (take_bit w1 v1), u')" by simp
  have others: "fst (unit_get tgt off w u') = fst (unit_get tgt off w u)"
    if "in_unit off w u" "list_all (\<lambda>(o2, w2, v). apart off w o2 w2) (f # fs)" for off w
  proof -
    have "o1 + w1 \<le> off \<or> off + w \<le> o1" using that(2) f by (auto simp: apart_def)
    from unit_get_set_other(1) [OF in1 that(1) u1(1) this] u'(4) that show ?thesis by (simp add: same)
  qed
  have clear: "unit_bit tgt u' p = unit_bit tgt u p"
    if "p < 8 * length (storage u)" "list_all (\<lambda>(o2, w2, v). \<not> (o2 \<le> p \<and> p < o2 + w2)) (f # fs)" for p
    using u'(5) u1(2,3) that f by auto
  show ?case
    using u' u1(1,2) first others clear f by (intro exI [of _ u']) simp
qed

section \<open>Structs with bit-fields\<close>

text \<open>The fields of one unit: their accessors, with the offsets and widths they are generated from,
  lie inside the unit and do not overlap; the unit is a field of the struct.\<close>

definition fields_ok :: "nat \<Rightarrow> nat \<Rightarrow> (nat \<times> nat) list \<Rightarrow> bool" where
  "fields_ok width sz ranges \<longleftrightarrow>
     list_all (\<lambda>(off, w). 0 < w \<and> w \<le> width \<and> off + w \<le> 8 * sz) ranges
     \<and> sorted_wrt (\<lambda>(o1, w1) (o2, w2). o1 + w1 \<le> o2) ranges"

text \<open>Read over write for a list of accessors, on the structs that satisfy \<open>ok\<close>: a field that is set
  reads back cut to its width, every other field keeps its value, and the raw methods agree.\<close>

definition reads_back :: "('s \<Rightarrow> bool) \<Rightarrow> (target \<Rightarrow> ('s, 'w::len word) accessor list) \<Rightarrow> (nat \<times> nat) list \<Rightarrow> bool" where
  "reads_back ok table ranges \<longleftrightarrow>
     (\<forall>tgt i j v s. i < length ranges \<and> j < length ranges \<and> ok s \<longrightarrow>
       (\<exists>s' x. field_set (table tgt ! j) v s = (Ok (), s') \<and> ok s'
          \<and> field_get (table tgt ! i) s = (Ok x, s)
          \<and> field_get (table tgt ! i) s' = (Ok (if i = j then take_bit (snd (ranges ! j)) v else x), s')
          \<and> field_set_raw (table tgt ! j) v s = (Ok (), s') \<and> field_get_raw (table tgt ! i) s = (Ok x, s)))"

text \<open>A constructor's result \<open>res\<close> for the values \<open>vs\<close>: a unit of \<open>sz\<close> bytes from which every field reads
  back, cut to its width, and whose bits outside the fields are clear.\<close>

definition constructs :: "('s \<Rightarrow> BindgenBitfieldUnit) \<Rightarrow> nat \<Rightarrow> (target \<Rightarrow> ('s, 'w::len word) accessor list) \<Rightarrow>
    (nat \<times> nat) list \<Rightarrow> target \<Rightarrow> 'w word list \<Rightarrow> (unit, unit) outcome \<times> BindgenBitfieldUnit \<Rightarrow> bool" where
  "constructs sel sz table ranges tgt vs res \<longleftrightarrow> (\<exists>u. res = (Ok (), u) \<and> length (storage u) = sz
     \<and> (\<forall>i < length ranges. \<forall>s. sel s = u \<longrightarrow>
          field_get (table tgt ! i) s = (Ok (take_bit (snd (ranges ! i)) (vs ! i)), s))
     \<and> (\<forall>p < 8 * sz. list_all (\<lambda>(off, w). \<not> (off \<le> p \<and> p < off + w)) ranges \<longrightarrow> \<not> unit_bit tgt u p))"

text \<open>A struct with any number of units. A bit-field is given by the unit it lies in, its offset there and
  its width; the fields lie inside their units and do not overlap, and the units are different members of
  the struct.\<close>

record 's unit_slot =
  slot_sel :: "'s \<Rightarrow> BindgenBitfieldUnit"
  slot_upd :: "(BindgenBitfieldUnit \<Rightarrow> BindgenBitfieldUnit) \<Rightarrow> 's \<Rightarrow> 's"
  slot_size :: nat

definition slots_ok :: "'s unit_slot list \<Rightarrow> 's \<Rightarrow> bool" where
  "slots_ok units s = list_all (\<lambda>u. length (storage (slot_sel u s)) = slot_size u) units"

definition slots_lens :: "'s unit_slot list \<Rightarrow> bool" where
  "slots_lens units \<longleftrightarrow>
     list_all (\<lambda>u. \<forall>f s. slot_sel u (slot_upd u f s) = f (slot_sel u s) \<and> slot_upd u (\<lambda>_. slot_sel u s) s = s) units
     \<and> sorted_wrt (\<lambda>u v. \<forall>f s. slot_sel u (slot_upd v f s) = slot_sel u s \<and> slot_sel v (slot_upd u f s) = slot_sel v s) units"

definition layout_ok :: "nat \<Rightarrow> nat list \<Rightarrow> (nat \<times> nat \<times> nat) list \<Rightarrow> bool" where
  "layout_ok width sizes layout \<longleftrightarrow>
     list_all (\<lambda>(k, off, w). k < length sizes \<and> 0 < w \<and> w \<le> width \<and> off + w \<le> 8 * sizes ! k) layout
     \<and> sorted_wrt (\<lambda>(k, o1, w1) (m, o2, w2). k < m \<or> k = m \<and> o1 + w1 \<le> o2) layout"

lemma slots_lensD:
  assumes "slots_lens units" and "k < length units"
  shows "slot_sel (units ! k) (slot_upd (units ! k) f s) = f (slot_sel (units ! k) s)"
    and "slot_upd (units ! k) (\<lambda>_. slot_sel (units ! k) s) s = s"
  using assms by (simp_all add: slots_lens_def list_all_length)

lemma slots_lens_other:
  assumes "slots_lens units" and "k < length units" and "m < length units" and "k \<noteq> m"
  shows "slot_sel (units ! k) (slot_upd (units ! m) f s) = slot_sel (units ! k) s"
proof -
  have sw: "sorted_wrt (\<lambda>u v. \<forall>f s. slot_sel u (slot_upd v f s) = slot_sel u s \<and> slot_sel v (slot_upd u f s) = slot_sel v s) units"
    using assms(1) by (simp add: slots_lens_def)
  from sorted_wrt_nth_less [OF sw, of k m] sorted_wrt_nth_less [OF sw, of m k] assms(2-) show ?thesis
    by (cases k m rule: linorder_cases) auto
qed

lemma layout_okD:
  assumes "layout_ok width sizes layout" and "i < length layout" and "layout ! i = (k, off, w)"
  shows "k < length sizes" and "0 < w" and "w \<le> width" and "off + w \<le> 8 * sizes ! k"
  using assms by (auto simp: layout_ok_def list_all_length)

lemma layout_ok_apart:
  assumes "layout_ok width sizes layout" and "i < length layout" and "j < length layout" and "i \<noteq> j"
    and "layout ! i = (k, o1, w1)" and "layout ! j = (k, o2, w2)"
  shows "o1 + w1 \<le> o2 \<or> o2 + w2 \<le> o1"
proof -
  have sw: "sorted_wrt (\<lambda>(k, o1, w1) (m, o2, w2). k < m \<or> k = m \<and> o1 + w1 \<le> o2) layout"
    using assms(1) by (simp add: layout_ok_def)
  from sorted_wrt_nth_less [OF sw, of i j] sorted_wrt_nth_less [OF sw, of j i] assms(2-) show ?thesis
    by (cases i j rule: linorder_cases) auto
qed

text \<open>A value cut to the width of a field fits the field's type.\<close>

lemma ucast_take_bit:
  fixes v :: "'w::len word"
  assumes "w \<le> LENGTH('w)" and "LENGTH('w) \<le> 64"
  shows "ucast (take_bit w (ucast v :: u64)) = take_bit w v"
  using assms by (intro bit_word_eqI) (auto simp: bit_ucast_iff bit_take_bit_iff dest: bit_imp_le_length)

locale bitfield_units =
  fixes units :: "'s unit_slot list"
    and layout :: "(nat \<times> nat \<times> nat) list"
    and table :: "target \<Rightarrow> ('s, 'w::len word) accessor list"
  assumes lenses: "slots_lens units"
    and inside: "layout_ok LENGTH('w) (map slot_size units) layout"
    and entries: "table tgt = map (\<lambda>(k, off, w). bitfield tgt (slot_sel (units ! k)) (slot_upd (units ! k)) off w) layout"
    and value_width: "LENGTH('w) \<le> 64"
begin

lemma entry:
  assumes "i < length layout" and "layout ! i = (k, off, w)"
  shows "table tgt ! i = bitfield tgt (slot_sel (units ! k)) (slot_upd (units ! k)) off w"
    and "k < length units" and "w \<le> LENGTH('w)"
    and "slots_ok units s \<Longrightarrow> in_unit off w (slot_sel (units ! k) s)"
  using assms layout_okD [OF inside assms] value_width
  by (simp_all add: entries slots_ok_def list_all_length in_unitI)

lemma entry_get:
  assumes "i < length layout" and "layout ! i = (k, off, w)"
    and "unit_get tgt off w (slot_sel (units ! k) s) = (Ok x, slot_sel (units ! k) s)"
  shows "field_get (table tgt ! i) s = (Ok (ucast x), s)"
  using assms(3) slots_lensD(2) [OF lenses entry(2) [OF assms(1,2)]]
  by (simp add: entry(1) [OF assms(1,2)] bitfield_def on_field_def bindM_def ret_def)

lemma entry_set:
  assumes "i < length layout" and "layout ! i = (k, off, w)"
    and "unit_set tgt off w (ucast v) (slot_sel (units ! k) s) = (Ok (), u)"
  shows "field_set (table tgt ! i) v s = (Ok (), slot_upd (units ! k) (\<lambda>_. u) s)"
  using assms(3) by (simp add: entry(1) [OF assms(1,2)] bitfield_def on_field_def)

lemma entry_raw:
  assumes "i < length layout"
  shows "field_get_raw (table tgt ! i) = field_get (table tgt ! i)"
    and "field_set_raw (table tgt ! i) = field_set (table tgt ! i)"
  using assms by (simp_all add: entries bitfield_def raw_eq split: prod.splits)

text \<open>What one field holds after another was set.\<close>

lemma get_after_set:
  assumes "i < length layout" and "j < length layout" and "layout ! i = (k, o1, w1)" and "layout ! j = (m, o2, w2)"
    and "slots_ok units s" and "unit_set tgt o2 w2 (ucast v) (slot_sel (units ! m) s) = (Ok (), u)"
    and "length (storage u) = length (storage (slot_sel (units ! m) s))"
    and "unit_get tgt o1 w1 (slot_sel (units ! k) s) = (Ok y, slot_sel (units ! k) s)"
  shows "field_get (table tgt ! i) (slot_upd (units ! m) (\<lambda>_. u) s)
    = (Ok (if i = j then take_bit w2 v else ucast y), slot_upd (units ! m) (\<lambda>_. u) s)"
proof -
  let ?s = "slot_upd (units ! m) (\<lambda>_. u) s"
  note a = entry [OF assms(1,3)] and b = entry [OF assms(2,4)]
  have m: "slot_sel (units ! m) ?s = u" using slots_lensD(1) [OF lenses b(2)] by simp
  note get = entry_get [OF assms(1,3), of tgt ?s]
  show ?thesis
  proof (cases "k = m")
    case False
    then have "slot_sel (units ! k) ?s = slot_sel (units ! k) s" using slots_lens_other [OF lenses a(2) b(2)] by blast
    then show ?thesis using get [of y] assms(3,4,8) False by auto
  next
    case same: True
    show ?thesis
    proof (cases "i = j")
      case True
      then have "unit_get tgt o1 w1 u = (Ok (take_bit w2 (ucast v)), u)"
        using unit_get_set [OF b(4) [OF assms(5)] assms(6)] assms(3,4) by simp
      then show ?thesis using get same m ucast_take_bit [OF b(3) value_width] True by simp
    next
      case False
      have "o2 + w2 \<le> o1 \<or> o1 + w1 \<le> o2" using layout_ok_apart [OF inside assms(1,2) False] assms(3,4) same by auto
      from unit_get_set_other(1) [OF b(4) [OF assms(5)] a(4) [OF assms(5), unfolded same] assms(6) this] assms(8) same
      have y: "fst (unit_get tgt o1 w1 u) = Ok y" by simp
      have "in_unit o1 w1 u" using a(4) [OF assms(5)] assms(7) same by (simp add: in_unit_def)
      then obtain z where "unit_get tgt o1 w1 u = (Ok z, u)" by (rule unit_get_spec [where tgt = tgt])
      then show ?thesis using get [of y] y same m False by simp
    qed
  qed
qed

lemma set_keeps_ok:
  assumes "slots_ok units s" and "m < length units" and "length (storage u) = slot_size (units ! m)"
  shows "slots_ok units (slot_upd (units ! m) (\<lambda>_. u) s)"
  unfolding slots_ok_def list_all_length
proof (intro allI impI)
  fix k assume k: "k < length units"
  then show "length (storage (slot_sel (units ! k) (slot_upd (units ! m) (\<lambda>_. u) s))) = slot_size (units ! k)"
    using assms slots_lensD(1) [OF lenses k] slots_lens_other [OF lenses k assms(2)]
    by (cases "k = m") (simp_all add: slots_ok_def list_all_length)
qed

lemma units_read_back: "reads_back (slots_ok units) table (map snd layout)"
  unfolding reads_back_def
proof (intro allI impI)
  fix tgt i j s and v :: "'w word"
  assume "i < length (map snd layout) \<and> j < length (map snd layout) \<and> slots_ok units s"
  then have a: "i < length layout" "j < length layout" "slots_ok units s" by simp_all
  obtain k o1 w1 m o2 w2 where l: "layout ! i = (k, o1, w1)" "layout ! j = (m, o2, w2)" by (metis prod_cases3)
  note ei = entry [OF a(1) l(1)] and ej = entry [OF a(2) l(2)]
  obtain u where u: "unit_set tgt o2 w2 (ucast v) (slot_sel (units ! m) s) = (Ok (), u)"
      "length (storage u) = length (storage (slot_sel (units ! m) s))"
    by (rule unit_set_spec [OF ej(4) [OF a(3)], where tgt = tgt and v = "ucast v"])
  obtain y where y: "unit_get tgt o1 w1 (slot_sel (units ! k) s) = (Ok y, slot_sel (units ! k) s)"
    by (rule unit_get_spec [OF ei(4) [OF a(3)], where tgt = tgt])
  let ?s = "slot_upd (units ! m) (\<lambda>_. u) s"
  have "slots_ok units ?s"
    using set_keeps_ok [OF a(3) ej(2)] u(2) a(3) ej(2) by (simp add: slots_ok_def list_all_length)
  with entry_set [OF a(2) l(2) u(1)] entry_get [OF a(1) l(1) y] get_after_set [OF a(1,2) l a(3) u y] l a(1,2)
  show "\<exists>s' x. field_set (table tgt ! j) v s = (Ok (), s') \<and> slots_ok units s'
      \<and> field_get (table tgt ! i) s = (Ok x, s)
      \<and> field_get (table tgt ! i) s' = (Ok (if i = j then take_bit (snd (map snd layout ! j)) v else x), s')
      \<and> field_set_raw (table tgt ! j) v s = (Ok (), s') \<and> field_get_raw (table tgt ! i) s = (Ok x, s)"
    by (intro exI [of _ ?s] exI [of _ "ucast y"]) (simp add: entry_raw)
qed

end

text \<open>A struct with one unit.\<close>

locale bitfield_struct =
  fixes sel :: "'s \<Rightarrow> BindgenBitfieldUnit"
    and upd :: "(BindgenBitfieldUnit \<Rightarrow> BindgenBitfieldUnit) \<Rightarrow> 's \<Rightarrow> 's"
    and sz :: nat
    and fields :: "target \<Rightarrow> ('s, 'w::len word) accessor list"
    and ranges :: "(nat \<times> nat) list"
  assumes sel_upd: "sel (upd f s) = f (sel s)"
    and upd_same: "upd (\<lambda>_. sel s) s = s"
    and generated: "fields tgt = map (\<lambda>(off, w). bitfield tgt sel upd off w) ranges"
    and ranges_ok: "fields_ok LENGTH('w) sz ranges"
    and width_ok: "LENGTH('w) \<le> 64"
begin

lemma length_fields: "length (fields tgt) = length ranges"
  by (simp add: generated)

lemma range_inside:
  assumes "i < length ranges" and "ranges ! i = (off, w)" and "length (storage (sel s)) = sz"
  shows "in_unit off w (sel s)" and "w \<le> LENGTH('w)"
proof -
  have "(off, w) \<in> set ranges" using assms(1,2) by (metis nth_mem)
  then have "0 < w \<and> w \<le> LENGTH('w) \<and> off + w \<le> 8 * sz"
    using ranges_ok by (auto simp: fields_ok_def list_all_iff)
  with width_ok assms(3) show "in_unit off w (sel s)" and "w \<le> LENGTH('w)" by (simp_all add: in_unitI)
qed

lemma ranges_apart:
  assumes "i < length ranges" and "j < length ranges" and "i \<noteq> j"
    and "ranges ! i = (o1, w1)" and "ranges ! j = (o2, w2)"
  shows "o1 + w1 \<le> o2 \<or> o2 + w2 \<le> o1"
proof -
  have sw: "sorted_wrt (\<lambda>(o1, w1) (o2, w2). o1 + w1 \<le> o2) ranges"
    using ranges_ok by (simp add: fields_ok_def)
  show ?thesis
    using sorted_wrt_nth_less [OF sw, of i j] sorted_wrt_nth_less [OF sw, of j i] assms
    by (cases i j rule: linorder_cases) auto
qed

lemma field_at:
  "i < length ranges \<Longrightarrow> ranges ! i = (off, w) \<Longrightarrow> fields tgt ! i = bitfield tgt sel upd off w"
  by (simp add: generated)

lemma get_eq:
  "unit_get tgt off w (sel s) = (Ok x, sel s) \<Longrightarrow>
     field_get (bitfield tgt sel upd off w :: ('s, 'w word) accessor) s = (Ok (ucast x), s)"
  by (simp add: bitfield_def on_field_def bindM_def upd_same ret_def)

lemma layout_part:
  assumes "k < length sizes" and "sizes ! k = sz"
  shows "layout_ok LENGTH('w) sizes (map (Pair k) ranges)"
proof -
  have "list_all (\<lambda>(k, off, w). k < length sizes \<and> 0 < w \<and> w \<le> LENGTH('w) \<and> off + w \<le> 8 * sizes ! k) (map (Pair k) ranges)"
    using ranges_ok assms by (auto simp: fields_ok_def list_all_iff)
  moreover have "sorted_wrt (\<lambda>(k, o1, w1) (m, o2, w2). k < m \<or> k = m \<and> o1 + w1 \<le> o2) (map (Pair k) ranges)"
    using ranges_ok by (simp add: fields_ok_def sorted_wrt_map case_prod_beta')
  ultimately show ?thesis by (simp add: layout_ok_def)
qed

lemma new_fields:
  assumes "length vs = length ranges"
  obtains u where "new_bitfield tgt sz (map (\<lambda>((off, w), v). (off, w, ucast v)) (zip ranges vs)) = (Ok (), u)"
    and "length (storage u) = sz"
    and "\<forall>i < length ranges. \<forall>s. sel s = u \<longrightarrow>
      field_get (fields tgt ! i) s = (Ok (take_bit (snd (ranges ! i)) (vs ! i)), s)"
    and "\<forall>p < 8 * sz. list_all (\<lambda>(off, w). \<not> (off \<le> p \<and> p < off + w)) ranges \<longrightarrow> \<not> unit_bit tgt u p"
proof -
  let ?fs = "map (\<lambda>((off, w), v). (off, w, ucast (v :: 'w word) :: u64)) (zip ranges vs)"
  let ?u0 = "unit_new (replicate sz 0)"
  have rng: "0 < w \<and> w \<le> 64 \<and> off + w \<le> 8 * sz" if "(off, w) \<in> set ranges" for off w
    using that ranges_ok width_ok by (fastforce simp: fields_ok_def list_all_iff)
  have ins: "list_all (\<lambda>(off, w, v). in_unit off w ?u0) ?fs"
    using rng by (fastforce simp: list_all_iff unit_new_def dest: set_zip_leftD intro: in_unitI)
  have "sorted_wrt (\<lambda>(o1, w1, v1) (o2, w2, v2). apart o1 w1 o2 w2) ?fs"
  proof (unfold sorted_wrt_iff_nth_less, intro allI impI)
    fix i j assume ij: "i < j" "j < length ?fs"
    obtain o1 w1 o2 w2 where r: "ranges ! i = (o1, w1)" "ranges ! j = (o2, w2)" by fastforce
    have "o1 + w1 \<le> o2 \<or> o2 + w2 \<le> o1" using ranges_apart [of i j o1 w1 o2 w2] ij r by simp
    with r ij show "(\<lambda>(o1, w1, v1) (o2, w2, v2). apart o1 w1 o2 w2) (?fs ! i) (?fs ! j)"
      by (simp add: apart_def)
  qed
  from set_all_spec [OF ins this, of tgt] obtain u where
    u: "set_all tgt ?fs ?u0 = (Ok (), u)" "length (storage u) = sz"
      "list_all (\<lambda>(off, w, v). unit_get tgt off w u = (Ok (take_bit w v), u)) ?fs"
      "\<forall>p < 8 * sz. list_all (\<lambda>(o2, w2, v). \<not> (o2 \<le> p \<and> p < o2 + w2)) ?fs \<longrightarrow> unit_bit tgt u p = unit_bit tgt ?u0 p"
    by (auto simp: unit_new_def)
  have "\<not> unit_bit tgt u p" if "p < 8 * sz" "list_all (\<lambda>(off, w). \<not> (off \<le> p \<and> p < off + w)) ranges" for p
  proof -
    have "list_all (\<lambda>(o2, w2, v). \<not> (o2 \<le> p \<and> p < o2 + w2)) ?fs"
      using that(2) by (fastforce simp: list_all_iff dest: set_zip_leftD)
    with u(4) that(1) show ?thesis by (simp add: unit_bit_def unit_new_def div_less_iff_less_mult)
  qed
  note clear = this
  have "field_get (fields tgt ! i) s = (Ok (take_bit (snd (ranges ! i)) (vs ! i)), s)"
    if "i < length ranges" "sel s = u" for i s
  proof -
    obtain off w where r: "ranges ! i = (off, w)" by fastforce
    have "?fs ! i = (off, w, ucast (vs ! i))" "?fs ! i \<in> set ?fs"
      using that(1) assms r by (simp, intro nth_mem) simp
    then have "unit_get tgt off w u = (Ok (take_bit w (ucast (vs ! i))), u)"
      using u(3) by (auto simp: list_all_iff)
    moreover have "ucast (take_bit w (ucast (vs ! i) :: u64)) = take_bit w (vs ! i)"
      using range_inside(2) [OF that(1) r, of s] that(2) u(2) by (intro ucast_take_bit width_ok) simp
    ultimately show ?thesis
      using get_eq [of tgt off w s] that(2) r by (simp add: field_at [OF that(1) r])
  qed
  then have "\<forall>i < length ranges. \<forall>s. sel s = u \<longrightarrow>
      field_get (fields tgt ! i) s = (Ok (take_bit (snd (ranges ! i)) (vs ! i)), s)" by blast
  with u(1,2) clear show ?thesis by (intro that [of u]) (simp_all add: new_bitfield_def)
qed

lemma new_constructs:
  assumes "length vs = length ranges"
    and "res = new_bitfield tgt sz (map (\<lambda>((off, w), v). (off, w, ucast v)) (zip ranges vs))"
  shows "constructs sel sz fields ranges tgt vs res"
proof (rule new_fields [OF assms(1), of tgt])
  fix u
  assume "new_bitfield tgt sz (map (\<lambda>((off, w), v). (off, w, ucast v)) (zip ranges vs)) = (Ok (), u)"
    and "length (storage u) = sz"
    and "\<forall>i < length ranges. \<forall>s. sel s = u \<longrightarrow>
      field_get (fields tgt ! i) s = (Ok (take_bit (snd (ranges ! i)) (vs ! i)), s)"
    and "\<forall>p < 8 * sz. list_all (\<lambda>(off, w). \<not> (off \<le> p \<and> p < off + w)) ranges \<longrightarrow> \<not> unit_bit tgt u p"
  then show ?thesis unfolding constructs_def assms(2) by (intro exI [of _ u] conjI)
qed

end

sublocale bitfield_struct \<subseteq> alone: bitfield_units "[\<lparr>slot_sel = sel, slot_upd = upd, slot_size = sz\<rparr>]" "map (Pair 0) ranges" fields
  using layout_part [of 0 "[sz]"]
  by unfold_locales (simp_all add: slots_lens_def sel_upd upd_same generated width_ok case_prod_beta')

context bitfield_struct
begin

lemma unit_reads_back: "reads_back (\<lambda>s. length (storage (sel s)) = sz) fields ranges"
  using alone.units_read_back by (simp add: comp_def slots_ok_def [abs_def])

end

text \<open>A struct with two units, each with its own table.\<close>

locale bitfield_pair =
  one: bitfield_struct sel1 upd1 sz1 fields1 ranges1 + two: bitfield_struct sel2 upd2 sz2 fields2 ranges2
  for sel1 :: "'s \<Rightarrow> BindgenBitfieldUnit" and upd1 sz1 and fields1 :: "target \<Rightarrow> ('s, 'w::len word) accessor list"
    and ranges1 and sel2 :: "'s \<Rightarrow> BindgenBitfieldUnit" and upd2 sz2
    and fields2 :: "target \<Rightarrow> ('s, 'w word) accessor list" and ranges2 +
  assumes indep: "sel1 (upd2 g s) = sel1 s" "sel2 (upd1 g s) = sel2 s"

sublocale bitfield_pair \<subseteq> pair: bitfield_units
    "[\<lparr>slot_sel = sel1, slot_upd = upd1, slot_size = sz1\<rparr>, \<lparr>slot_sel = sel2, slot_upd = upd2, slot_size = sz2\<rparr>]"
    "map (Pair 0) ranges1 @ map (Pair 1) ranges2" "\<lambda>tgt. fields1 tgt @ fields2 tgt"
proof
  show "slots_lens [\<lparr>slot_sel = sel1, slot_upd = upd1, slot_size = sz1\<rparr>, \<lparr>slot_sel = sel2, slot_upd = upd2, slot_size = sz2\<rparr>]"
    by (simp add: slots_lens_def one.sel_upd one.upd_same two.sel_upd two.upd_same indep)
  show "layout_ok LENGTH('w) (map slot_size [\<lparr>slot_sel = sel1, slot_upd = upd1, slot_size = sz1\<rparr>,
      \<lparr>slot_sel = sel2, slot_upd = upd2, slot_size = sz2\<rparr>]) (map (Pair 0) ranges1 @ map (Pair 1) ranges2)"
    using one.layout_part [of 0 "[sz1, sz2]"] two.layout_part [of 1 "[sz1, sz2]"]
    by (auto simp: layout_ok_def sorted_wrt_append)
qed (simp_all add: one.generated two.generated one.width_ok case_prod_beta')

context bitfield_pair
begin

lemma pair_reads_back:
  "reads_back (\<lambda>s. length (storage (sel1 s)) = sz1 \<and> length (storage (sel2 s)) = sz2)
     (\<lambda>tgt. fields1 tgt @ fields2 tgt) (ranges1 @ ranges2)"
  using pair.units_read_back by (simp add: comp_def slots_ok_def [abs_def])

end

end
