(* ===== verification/Vmlinux.thy ===== *)
theory Vmlinux
  imports Bitfield Common
begin

text \<open>
  Structs of the kernel bindings that describe the packets and programs the classifier lives among
  (\<open>cilium-mini-ebpf/src/vmlinux.rs\<close>): the IPv4 header, the BPF instruction, the socket buffer and
  the two names of its header group. A struct is a record with its bit-field units; pointers are
  64-bit words, unions their first member's words. Every bit-field is an \<open>accessor\<close> with the offset
  and width its four methods use, every \<open>new_bitfield_n\<close> a definition with the arguments in order.
  \<open>*_fields\<close> lists the accessors of a unit and \<open>*_ranges\<close> their offsets and widths; the
  interpretations of \<open>bitfield_struct\<close> and \<open>bitfield_pair\<close> check that they match, do not overlap and
  fit. \<open>Vmlinux_Prog\<close> goes on with the program and the socket.
\<close>

section \<open>Structs\<close>

record iphdr =
  iphdr_bitfield_1 :: BindgenBitfieldUnit
  ip_tos :: u8
  ip_tot_len :: u16
  ip_id :: u16
  ip_frag_off :: u16
  ip_ttl :: u8
  ip_protocol :: u8
  ip_check :: u16
  ip_saddr :: u32
  ip_daddr :: u32

record bpf_insn =
  insn_code :: u8
  bpf_insn_bitfield_1 :: BindgenBitfieldUnit
  insn_off :: u16
  insn_imm :: u32

record sk_buff_ty_4_ty_1 =
  skb1_bitfield_1 :: BindgenBitfieldUnit
  skb1_bitfield_2 :: BindgenBitfieldUnit
  skb1_tc_index :: u16
  skb1_alloc_cpu :: u16
  skb1_anon_1 :: u32
  skb1_priority :: u32
  skb1_skb_iif :: u32
  skb1_hash :: u32
  skb1_anon_2 :: u32
  skb1_anon_3 :: u32
  skb1_secmark :: u32
  skb1_anon_4 :: u32
  skb1_anon_5 :: u16
  skb1_inner_transport_header :: u16
  skb1_inner_network_header :: u16
  skb1_inner_mac_header :: u16
  skb1_protocol :: u16
  skb1_transport_header :: u16
  skb1_network_header :: u16
  skb1_mac_header :: u16

record sk_buff_ty_4_ty_2 =
  skb2_bitfield_1 :: BindgenBitfieldUnit
  skb2_bitfield_2 :: BindgenBitfieldUnit
  skb2_tc_index :: u16
  skb2_alloc_cpu :: u16
  skb2_anon_1 :: u32
  skb2_priority :: u32
  skb2_skb_iif :: u32
  skb2_hash :: u32
  skb2_anon_2 :: u32
  skb2_anon_3 :: u32
  skb2_secmark :: u32
  skb2_anon_4 :: u32
  skb2_anon_5 :: u16
  skb2_inner_transport_header :: u16
  skb2_inner_network_header :: u16
  skb2_inner_mac_header :: u16
  skb2_protocol :: u16
  skb2_transport_header :: u16
  skb2_network_header :: u16
  skb2_mac_header :: u16

text \<open>The union \<open>sk_buff__bindgen_ty_4\<close> is its storage; a member is the storage read at its type.\<close>

record sk_buff_ty_4 =
  bindgen_union_field :: bytes

record sk_buff =
  skb_anon_1 :: bytes
  skb_sk :: u64
  skb_anon_2 :: u64
  skb_cb :: bytes
  skb_anon_3 :: bytes
  skb_nfct :: u64
  skb_len :: u32
  skb_data_len :: u32
  skb_mac_len :: u16
  skb_hdr_len :: u16
  skb_queue_mapping :: u16
  sk_buff_bitfield_1 :: BindgenBitfieldUnit
  skb_active_extensions :: u8
  skb_anon_4 :: sk_buff_ty_4
  skb_tail :: u32
  skb_end :: u32
  skb_head :: u64
  skb_data :: u64
  skb_truesize :: u32
  skb_users :: u32
  skb_extensions :: u64

definition skb1_view :: "bytes \<Rightarrow> sk_buff_ty_4_ty_1" where
  "skb1_view mem =
     \<lparr>skb1_bitfield_1 = unit_new (take 1 mem), skb1_bitfield_2 = unit_new (take 4 (drop 1 mem)),
      skb1_tc_index = of_le (take 2 (drop 6 mem)),
      skb1_alloc_cpu = of_le (take 2 (drop 8 mem)),
      skb1_anon_1 = of_le (take 4 (drop 12 mem)),
      skb1_priority = of_le (take 4 (drop 16 mem)),
      skb1_skb_iif = of_le (take 4 (drop 20 mem)),
      skb1_hash = of_le (take 4 (drop 24 mem)),
      skb1_anon_2 = of_le (take 4 (drop 28 mem)),
      skb1_anon_3 = of_le (take 4 (drop 32 mem)),
      skb1_secmark = of_le (take 4 (drop 36 mem)),
      skb1_anon_4 = of_le (take 4 (drop 40 mem)),
      skb1_anon_5 = of_le (take 2 (drop 44 mem)),
      skb1_inner_transport_header = of_le (take 2 (drop 46 mem)),
      skb1_inner_network_header = of_le (take 2 (drop 48 mem)),
      skb1_inner_mac_header = of_le (take 2 (drop 50 mem)),
      skb1_protocol = of_le (take 2 (drop 52 mem)),
      skb1_transport_header = of_le (take 2 (drop 54 mem)),
      skb1_network_header = of_le (take 2 (drop 56 mem)),
      skb1_mac_header = of_le (take 2 (drop 58 mem))\<rparr>"

definition skb2_view :: "bytes \<Rightarrow> sk_buff_ty_4_ty_2" where
  "skb2_view mem =
     \<lparr>skb2_bitfield_1 = unit_new (take 1 mem), skb2_bitfield_2 = unit_new (take 4 (drop 1 mem)),
      skb2_tc_index = of_le (take 2 (drop 6 mem)),
      skb2_alloc_cpu = of_le (take 2 (drop 8 mem)),
      skb2_anon_1 = of_le (take 4 (drop 12 mem)),
      skb2_priority = of_le (take 4 (drop 16 mem)),
      skb2_skb_iif = of_le (take 4 (drop 20 mem)),
      skb2_hash = of_le (take 4 (drop 24 mem)),
      skb2_anon_2 = of_le (take 4 (drop 28 mem)),
      skb2_anon_3 = of_le (take 4 (drop 32 mem)),
      skb2_secmark = of_le (take 4 (drop 36 mem)),
      skb2_anon_4 = of_le (take 4 (drop 40 mem)),
      skb2_anon_5 = of_le (take 2 (drop 44 mem)),
      skb2_inner_transport_header = of_le (take 2 (drop 46 mem)),
      skb2_inner_network_header = of_le (take 2 (drop 48 mem)),
      skb2_inner_mac_header = of_le (take 2 (drop 50 mem)),
      skb2_protocol = of_le (take 2 (drop 52 mem)),
      skb2_transport_header = of_le (take 2 (drop 54 mem)),
      skb2_network_header = of_le (take 2 (drop 56 mem)),
      skb2_mac_header = of_le (take 2 (drop 58 mem))\<rparr>"

text \<open>The C layout of the two members, which have the same field types.\<close>

definition skb_group_layout :: ctype where
  "skb_group_layout = CStruct 1
     [CArray 1 (CPrim 1), CArray 4 (CPrim 1), CPrim 2, CPrim 2, CPrim 4, CPrim 4, CPrim 4, CPrim 4, CPrim 4, CPrim 4, CPrim 4, CPrim 4, CPrim 2, CPrim 2, CPrim 2, CPrim 2, CPrim 2, CPrim 2, CPrim 2, CPrim 2]"

section \<open>Bit-fields\<close>

text \<open>\<open>iphdr\<close>, lines 41434 to 41514.\<close>

definition iphdr_ihl :: "target \<Rightarrow> (iphdr, u8) accessor" where
  "iphdr_ihl tgt = bitfield tgt iphdr_bitfield_1 iphdr_bitfield_1_update 0 4"

definition iphdr_version :: "target \<Rightarrow> (iphdr, u8) accessor" where
  "iphdr_version tgt = bitfield tgt iphdr_bitfield_1 iphdr_bitfield_1_update 4 4"

definition iphdr_new_bitfield_1 ::
  "target \<Rightarrow> u8 \<Rightarrow> u8 \<Rightarrow> (unit, unit) outcome \<times> BindgenBitfieldUnit" where
  "iphdr_new_bitfield_1 tgt ihl version =
     new_bitfield tgt 1
     [(0, 4, ucast ihl), (4, 4, ucast version)]"

definition iphdr_fields :: "target \<Rightarrow> (iphdr, u8) accessor list" where
  "iphdr_fields tgt =
     [iphdr_ihl tgt, iphdr_version tgt]"

definition iphdr_ranges :: "(nat \<times> nat) list" where
  "iphdr_ranges =
     [(0, 4), (4, 4)]"

text \<open>\<open>bpf_insn\<close>, lines 15186 to 15266.\<close>

definition bpf_insn_dst_reg :: "target \<Rightarrow> (bpf_insn, u8) accessor" where
  "bpf_insn_dst_reg tgt = bitfield tgt bpf_insn_bitfield_1 bpf_insn_bitfield_1_update 0 4"

definition bpf_insn_src_reg :: "target \<Rightarrow> (bpf_insn, u8) accessor" where
  "bpf_insn_src_reg tgt = bitfield tgt bpf_insn_bitfield_1 bpf_insn_bitfield_1_update 4 4"

definition bpf_insn_new_bitfield_1 ::
  "target \<Rightarrow> u8 \<Rightarrow> u8 \<Rightarrow> (unit, unit) outcome \<times> BindgenBitfieldUnit" where
  "bpf_insn_new_bitfield_1 tgt dst_reg src_reg =
     new_bitfield tgt 1
     [(0, 4, ucast dst_reg), (4, 4, ucast src_reg)]"

definition bpf_insn_fields :: "target \<Rightarrow> (bpf_insn, u8) accessor list" where
  "bpf_insn_fields tgt =
     [bpf_insn_dst_reg tgt, bpf_insn_src_reg tgt]"

definition bpf_insn_ranges :: "(nat \<times> nat) list" where
  "bpf_insn_ranges =
     [(0, 4), (4, 4)]"

text \<open>\<open>sk_buff\<close>, lines 13481 to 13754.\<close>

definition sk_buff_cloned :: "target \<Rightarrow> (sk_buff, u8) accessor" where
  "sk_buff_cloned tgt = bitfield tgt sk_buff_bitfield_1 sk_buff_bitfield_1_update 0 1"

definition sk_buff_nohdr :: "target \<Rightarrow> (sk_buff, u8) accessor" where
  "sk_buff_nohdr tgt = bitfield tgt sk_buff_bitfield_1 sk_buff_bitfield_1_update 1 1"

definition sk_buff_fclone :: "target \<Rightarrow> (sk_buff, u8) accessor" where
  "sk_buff_fclone tgt = bitfield tgt sk_buff_bitfield_1 sk_buff_bitfield_1_update 2 2"

definition sk_buff_peeked :: "target \<Rightarrow> (sk_buff, u8) accessor" where
  "sk_buff_peeked tgt = bitfield tgt sk_buff_bitfield_1 sk_buff_bitfield_1_update 4 1"

definition sk_buff_head_frag :: "target \<Rightarrow> (sk_buff, u8) accessor" where
  "sk_buff_head_frag tgt = bitfield tgt sk_buff_bitfield_1 sk_buff_bitfield_1_update 5 1"

definition sk_buff_pfmemalloc :: "target \<Rightarrow> (sk_buff, u8) accessor" where
  "sk_buff_pfmemalloc tgt = bitfield tgt sk_buff_bitfield_1 sk_buff_bitfield_1_update 6 1"

definition sk_buff_pp_recycle :: "target \<Rightarrow> (sk_buff, u8) accessor" where
  "sk_buff_pp_recycle tgt = bitfield tgt sk_buff_bitfield_1 sk_buff_bitfield_1_update 7 1"

definition sk_buff_new_bitfield_1 ::
  "target \<Rightarrow> u8 \<Rightarrow> u8 \<Rightarrow> u8 \<Rightarrow> u8 \<Rightarrow> u8 \<Rightarrow> u8
    \<Rightarrow> u8 \<Rightarrow> (unit, unit) outcome \<times> BindgenBitfieldUnit" where
  "sk_buff_new_bitfield_1 tgt cloned nohdr fclone peeked head_frag pfmemalloc pp_recycle =
     new_bitfield tgt 1
     [(0, 1, ucast cloned), (1, 1, ucast nohdr), (2, 2, ucast fclone), (4, 1, ucast peeked), (5, 1, ucast
      head_frag), (6, 1, ucast pfmemalloc), (7, 1, ucast pp_recycle)]"

definition sk_buff_fields :: "target \<Rightarrow> (sk_buff, u8) accessor list" where
  "sk_buff_fields tgt =
     [sk_buff_cloned tgt, sk_buff_nohdr tgt, sk_buff_fclone tgt, sk_buff_peeked tgt, sk_buff_head_frag tgt,
     sk_buff_pfmemalloc tgt, sk_buff_pp_recycle tgt]"

definition sk_buff_ranges :: "(nat \<times> nat) list" where
  "sk_buff_ranges =
     [(0, 1), (1, 1), (2, 2), (4, 1), (5, 1), (6, 1), (7, 1)]"

text \<open>\<open>sk_buff__bindgen_ty_4__bindgen_ty_1\<close>, lines 10952 to 12181.\<close>

definition skb1_pkt_type :: "target \<Rightarrow> (sk_buff_ty_4_ty_1, u8) accessor" where
  "skb1_pkt_type tgt = bitfield tgt skb1_bitfield_1 skb1_bitfield_1_update 0 3"

definition skb1_ignore_df :: "target \<Rightarrow> (sk_buff_ty_4_ty_1, u8) accessor" where
  "skb1_ignore_df tgt = bitfield tgt skb1_bitfield_1 skb1_bitfield_1_update 3 1"

definition skb1_dst_pending_confirm :: "target \<Rightarrow> (sk_buff_ty_4_ty_1, u8) accessor" where
  "skb1_dst_pending_confirm tgt = bitfield tgt skb1_bitfield_1 skb1_bitfield_1_update 4 1"

definition skb1_ip_summed :: "target \<Rightarrow> (sk_buff_ty_4_ty_1, u8) accessor" where
  "skb1_ip_summed tgt = bitfield tgt skb1_bitfield_1 skb1_bitfield_1_update 5 2"

definition skb1_ooo_okay :: "target \<Rightarrow> (sk_buff_ty_4_ty_1, u8) accessor" where
  "skb1_ooo_okay tgt = bitfield tgt skb1_bitfield_1 skb1_bitfield_1_update 7 1"

definition skb1_tstamp_type :: "target \<Rightarrow> (sk_buff_ty_4_ty_1, u8) accessor" where
  "skb1_tstamp_type tgt = bitfield tgt skb1_bitfield_2 skb1_bitfield_2_update 0 2"

definition skb1_tc_at_ingress :: "target \<Rightarrow> (sk_buff_ty_4_ty_1, u8) accessor" where
  "skb1_tc_at_ingress tgt = bitfield tgt skb1_bitfield_2 skb1_bitfield_2_update 2 1"

definition skb1_tc_skip_classify :: "target \<Rightarrow> (sk_buff_ty_4_ty_1, u8) accessor" where
  "skb1_tc_skip_classify tgt = bitfield tgt skb1_bitfield_2 skb1_bitfield_2_update 3 1"

definition skb1_remcsum_offload :: "target \<Rightarrow> (sk_buff_ty_4_ty_1, u8) accessor" where
  "skb1_remcsum_offload tgt = bitfield tgt skb1_bitfield_2 skb1_bitfield_2_update 4 1"

definition skb1_csum_complete_sw :: "target \<Rightarrow> (sk_buff_ty_4_ty_1, u8) accessor" where
  "skb1_csum_complete_sw tgt = bitfield tgt skb1_bitfield_2 skb1_bitfield_2_update 5 1"

definition skb1_csum_level :: "target \<Rightarrow> (sk_buff_ty_4_ty_1, u8) accessor" where
  "skb1_csum_level tgt = bitfield tgt skb1_bitfield_2 skb1_bitfield_2_update 6 2"

definition skb1_inner_protocol_type :: "target \<Rightarrow> (sk_buff_ty_4_ty_1, u8) accessor" where
  "skb1_inner_protocol_type tgt = bitfield tgt skb1_bitfield_2 skb1_bitfield_2_update 8 1"

definition skb1_l4_hash :: "target \<Rightarrow> (sk_buff_ty_4_ty_1, u8) accessor" where
  "skb1_l4_hash tgt = bitfield tgt skb1_bitfield_2 skb1_bitfield_2_update 9 1"

definition skb1_sw_hash :: "target \<Rightarrow> (sk_buff_ty_4_ty_1, u8) accessor" where
  "skb1_sw_hash tgt = bitfield tgt skb1_bitfield_2 skb1_bitfield_2_update 10 1"

definition skb1_wifi_acked_valid :: "target \<Rightarrow> (sk_buff_ty_4_ty_1, u8) accessor" where
  "skb1_wifi_acked_valid tgt = bitfield tgt skb1_bitfield_2 skb1_bitfield_2_update 11 1"

definition skb1_wifi_acked :: "target \<Rightarrow> (sk_buff_ty_4_ty_1, u8) accessor" where
  "skb1_wifi_acked tgt = bitfield tgt skb1_bitfield_2 skb1_bitfield_2_update 12 1"

definition skb1_no_fcs :: "target \<Rightarrow> (sk_buff_ty_4_ty_1, u8) accessor" where
  "skb1_no_fcs tgt = bitfield tgt skb1_bitfield_2 skb1_bitfield_2_update 13 1"

definition skb1_encapsulation :: "target \<Rightarrow> (sk_buff_ty_4_ty_1, u8) accessor" where
  "skb1_encapsulation tgt = bitfield tgt skb1_bitfield_2 skb1_bitfield_2_update 14 1"

definition skb1_encap_hdr_csum :: "target \<Rightarrow> (sk_buff_ty_4_ty_1, u8) accessor" where
  "skb1_encap_hdr_csum tgt = bitfield tgt skb1_bitfield_2 skb1_bitfield_2_update 15 1"

definition skb1_csum_valid :: "target \<Rightarrow> (sk_buff_ty_4_ty_1, u8) accessor" where
  "skb1_csum_valid tgt = bitfield tgt skb1_bitfield_2 skb1_bitfield_2_update 16 1"

definition skb1_ndisc_nodetype :: "target \<Rightarrow> (sk_buff_ty_4_ty_1, u8) accessor" where
  "skb1_ndisc_nodetype tgt = bitfield tgt skb1_bitfield_2 skb1_bitfield_2_update 17 2"

definition skb1_ipvs_property :: "target \<Rightarrow> (sk_buff_ty_4_ty_1, u8) accessor" where
  "skb1_ipvs_property tgt = bitfield tgt skb1_bitfield_2 skb1_bitfield_2_update 19 1"

definition skb1_nf_trace :: "target \<Rightarrow> (sk_buff_ty_4_ty_1, u8) accessor" where
  "skb1_nf_trace tgt = bitfield tgt skb1_bitfield_2 skb1_bitfield_2_update 20 1"

definition skb1_offload_fwd_mark :: "target \<Rightarrow> (sk_buff_ty_4_ty_1, u8) accessor" where
  "skb1_offload_fwd_mark tgt = bitfield tgt skb1_bitfield_2 skb1_bitfield_2_update 21 1"

definition skb1_offload_l3_fwd_mark :: "target \<Rightarrow> (sk_buff_ty_4_ty_1, u8) accessor" where
  "skb1_offload_l3_fwd_mark tgt = bitfield tgt skb1_bitfield_2 skb1_bitfield_2_update 22 1"

definition skb1_redirected :: "target \<Rightarrow> (sk_buff_ty_4_ty_1, u8) accessor" where
  "skb1_redirected tgt = bitfield tgt skb1_bitfield_2 skb1_bitfield_2_update 23 1"

definition skb1_from_ingress :: "target \<Rightarrow> (sk_buff_ty_4_ty_1, u8) accessor" where
  "skb1_from_ingress tgt = bitfield tgt skb1_bitfield_2 skb1_bitfield_2_update 24 1"

definition skb1_nf_skip_egress :: "target \<Rightarrow> (sk_buff_ty_4_ty_1, u8) accessor" where
  "skb1_nf_skip_egress tgt = bitfield tgt skb1_bitfield_2 skb1_bitfield_2_update 25 1"

definition skb1_decrypted :: "target \<Rightarrow> (sk_buff_ty_4_ty_1, u8) accessor" where
  "skb1_decrypted tgt = bitfield tgt skb1_bitfield_2 skb1_bitfield_2_update 26 1"

definition skb1_slow_gro :: "target \<Rightarrow> (sk_buff_ty_4_ty_1, u8) accessor" where
  "skb1_slow_gro tgt = bitfield tgt skb1_bitfield_2 skb1_bitfield_2_update 27 1"

definition skb1_csum_not_inet :: "target \<Rightarrow> (sk_buff_ty_4_ty_1, u8) accessor" where
  "skb1_csum_not_inet tgt = bitfield tgt skb1_bitfield_2 skb1_bitfield_2_update 28 1"

definition skb1_unreadable :: "target \<Rightarrow> (sk_buff_ty_4_ty_1, u8) accessor" where
  "skb1_unreadable tgt = bitfield tgt skb1_bitfield_2 skb1_bitfield_2_update 29 1"

definition skb1_new_bitfield_1 ::
  "target \<Rightarrow> u8 \<Rightarrow> u8 \<Rightarrow> u8 \<Rightarrow> u8 \<Rightarrow> u8 \<Rightarrow>
    (unit, unit) outcome \<times> BindgenBitfieldUnit" where
  "skb1_new_bitfield_1 tgt pkt_type ignore_df dst_pending_confirm ip_summed ooo_okay =
     new_bitfield tgt 1
     [(0, 3, ucast pkt_type), (3, 1, ucast ignore_df), (4, 1, ucast dst_pending_confirm), (5, 2, ucast
      ip_summed), (7, 1, ucast ooo_okay)]"

definition skb1_new_bitfield_2 ::
  "target \<Rightarrow> u8 \<Rightarrow> u8 \<Rightarrow> u8 \<Rightarrow> u8 \<Rightarrow> u8 \<Rightarrow> u8
    \<Rightarrow> u8 \<Rightarrow> u8 \<Rightarrow> u8 \<Rightarrow> u8 \<Rightarrow> u8 \<Rightarrow> u8
    \<Rightarrow> u8 \<Rightarrow> u8 \<Rightarrow> u8 \<Rightarrow> u8 \<Rightarrow> u8 \<Rightarrow> u8
    \<Rightarrow> u8 \<Rightarrow> u8 \<Rightarrow> u8 \<Rightarrow> u8 \<Rightarrow> u8 \<Rightarrow> u8
    \<Rightarrow> u8 \<Rightarrow> u8 \<Rightarrow> u8 \<Rightarrow> (unit, unit) outcome \<times>
    BindgenBitfieldUnit" where
  "skb1_new_bitfield_2 tgt tstamp_type tc_at_ingress tc_skip_classify remcsum_offload csum_complete_sw
    csum_level inner_protocol_type l4_hash sw_hash wifi_acked_valid wifi_acked no_fcs encapsulation
    encap_hdr_csum csum_valid ndisc_nodetype ipvs_property nf_trace offload_fwd_mark offload_l3_fwd_mark
    redirected from_ingress nf_skip_egress decrypted slow_gro csum_not_inet unreadable =
     new_bitfield tgt 4
     [(0, 2, ucast tstamp_type), (2, 1, ucast tc_at_ingress), (3, 1, ucast tc_skip_classify), (4, 1, ucast
      remcsum_offload), (5, 1, ucast csum_complete_sw), (6, 2, ucast csum_level), (8, 1, ucast
      inner_protocol_type), (9, 1, ucast l4_hash), (10, 1, ucast sw_hash), (11, 1, ucast wifi_acked_valid),
      (12, 1, ucast wifi_acked), (13, 1, ucast no_fcs), (14, 1, ucast encapsulation), (15, 1, ucast
      encap_hdr_csum), (16, 1, ucast csum_valid), (17, 2, ucast ndisc_nodetype), (19, 1, ucast ipvs_property),
      (20, 1, ucast nf_trace), (21, 1, ucast offload_fwd_mark), (22, 1, ucast offload_l3_fwd_mark), (23, 1,
      ucast redirected), (24, 1, ucast from_ingress), (25, 1, ucast nf_skip_egress), (26, 1, ucast decrypted),
      (27, 1, ucast slow_gro), (28, 1, ucast csum_not_inet), (29, 1, ucast unreadable)]"

definition skb1_fields1 :: "target \<Rightarrow> (sk_buff_ty_4_ty_1, u8) accessor list" where
  "skb1_fields1 tgt =
     [skb1_pkt_type tgt, skb1_ignore_df tgt, skb1_dst_pending_confirm tgt, skb1_ip_summed tgt, skb1_ooo_okay
     tgt]"

definition skb1_ranges1 :: "(nat \<times> nat) list" where
  "skb1_ranges1 =
     [(0, 3), (3, 1), (4, 1), (5, 2), (7, 1)]"

definition skb1_fields2 :: "target \<Rightarrow> (sk_buff_ty_4_ty_1, u8) accessor list" where
  "skb1_fields2 tgt =
     [skb1_tstamp_type tgt, skb1_tc_at_ingress tgt, skb1_tc_skip_classify tgt, skb1_remcsum_offload tgt,
     skb1_csum_complete_sw tgt, skb1_csum_level tgt, skb1_inner_protocol_type tgt, skb1_l4_hash tgt,
     skb1_sw_hash tgt, skb1_wifi_acked_valid tgt, skb1_wifi_acked tgt, skb1_no_fcs tgt, skb1_encapsulation
     tgt, skb1_encap_hdr_csum tgt, skb1_csum_valid tgt, skb1_ndisc_nodetype tgt, skb1_ipvs_property tgt,
     skb1_nf_trace tgt, skb1_offload_fwd_mark tgt, skb1_offload_l3_fwd_mark tgt, skb1_redirected tgt,
     skb1_from_ingress tgt, skb1_nf_skip_egress tgt, skb1_decrypted tgt, skb1_slow_gro tgt, skb1_csum_not_inet
     tgt, skb1_unreadable tgt]"

definition skb1_ranges2 :: "(nat \<times> nat) list" where
  "skb1_ranges2 =
     [(0, 2), (2, 1), (3, 1), (4, 1), (5, 1), (6, 2), (8, 1), (9, 1), (10, 1), (11, 1), (12, 1), (13, 1), (14,
     1), (15, 1), (16, 1), (17, 2), (19, 1), (20, 1), (21, 1), (22, 1), (23, 1), (24, 1), (25, 1), (26, 1),
     (27, 1), (28, 1), (29, 1)]"

text \<open>\<open>sk_buff__bindgen_ty_4__bindgen_ty_2\<close>, lines 12251 to 13480.\<close>

definition skb2_pkt_type :: "target \<Rightarrow> (sk_buff_ty_4_ty_2, u8) accessor" where
  "skb2_pkt_type tgt = bitfield tgt skb2_bitfield_1 skb2_bitfield_1_update 0 3"

definition skb2_ignore_df :: "target \<Rightarrow> (sk_buff_ty_4_ty_2, u8) accessor" where
  "skb2_ignore_df tgt = bitfield tgt skb2_bitfield_1 skb2_bitfield_1_update 3 1"

definition skb2_dst_pending_confirm :: "target \<Rightarrow> (sk_buff_ty_4_ty_2, u8) accessor" where
  "skb2_dst_pending_confirm tgt = bitfield tgt skb2_bitfield_1 skb2_bitfield_1_update 4 1"

definition skb2_ip_summed :: "target \<Rightarrow> (sk_buff_ty_4_ty_2, u8) accessor" where
  "skb2_ip_summed tgt = bitfield tgt skb2_bitfield_1 skb2_bitfield_1_update 5 2"

definition skb2_ooo_okay :: "target \<Rightarrow> (sk_buff_ty_4_ty_2, u8) accessor" where
  "skb2_ooo_okay tgt = bitfield tgt skb2_bitfield_1 skb2_bitfield_1_update 7 1"

definition skb2_tstamp_type :: "target \<Rightarrow> (sk_buff_ty_4_ty_2, u8) accessor" where
  "skb2_tstamp_type tgt = bitfield tgt skb2_bitfield_2 skb2_bitfield_2_update 0 2"

definition skb2_tc_at_ingress :: "target \<Rightarrow> (sk_buff_ty_4_ty_2, u8) accessor" where
  "skb2_tc_at_ingress tgt = bitfield tgt skb2_bitfield_2 skb2_bitfield_2_update 2 1"

definition skb2_tc_skip_classify :: "target \<Rightarrow> (sk_buff_ty_4_ty_2, u8) accessor" where
  "skb2_tc_skip_classify tgt = bitfield tgt skb2_bitfield_2 skb2_bitfield_2_update 3 1"

definition skb2_remcsum_offload :: "target \<Rightarrow> (sk_buff_ty_4_ty_2, u8) accessor" where
  "skb2_remcsum_offload tgt = bitfield tgt skb2_bitfield_2 skb2_bitfield_2_update 4 1"

definition skb2_csum_complete_sw :: "target \<Rightarrow> (sk_buff_ty_4_ty_2, u8) accessor" where
  "skb2_csum_complete_sw tgt = bitfield tgt skb2_bitfield_2 skb2_bitfield_2_update 5 1"

definition skb2_csum_level :: "target \<Rightarrow> (sk_buff_ty_4_ty_2, u8) accessor" where
  "skb2_csum_level tgt = bitfield tgt skb2_bitfield_2 skb2_bitfield_2_update 6 2"

definition skb2_inner_protocol_type :: "target \<Rightarrow> (sk_buff_ty_4_ty_2, u8) accessor" where
  "skb2_inner_protocol_type tgt = bitfield tgt skb2_bitfield_2 skb2_bitfield_2_update 8 1"

definition skb2_l4_hash :: "target \<Rightarrow> (sk_buff_ty_4_ty_2, u8) accessor" where
  "skb2_l4_hash tgt = bitfield tgt skb2_bitfield_2 skb2_bitfield_2_update 9 1"

definition skb2_sw_hash :: "target \<Rightarrow> (sk_buff_ty_4_ty_2, u8) accessor" where
  "skb2_sw_hash tgt = bitfield tgt skb2_bitfield_2 skb2_bitfield_2_update 10 1"

definition skb2_wifi_acked_valid :: "target \<Rightarrow> (sk_buff_ty_4_ty_2, u8) accessor" where
  "skb2_wifi_acked_valid tgt = bitfield tgt skb2_bitfield_2 skb2_bitfield_2_update 11 1"

definition skb2_wifi_acked :: "target \<Rightarrow> (sk_buff_ty_4_ty_2, u8) accessor" where
  "skb2_wifi_acked tgt = bitfield tgt skb2_bitfield_2 skb2_bitfield_2_update 12 1"

definition skb2_no_fcs :: "target \<Rightarrow> (sk_buff_ty_4_ty_2, u8) accessor" where
  "skb2_no_fcs tgt = bitfield tgt skb2_bitfield_2 skb2_bitfield_2_update 13 1"

definition skb2_encapsulation :: "target \<Rightarrow> (sk_buff_ty_4_ty_2, u8) accessor" where
  "skb2_encapsulation tgt = bitfield tgt skb2_bitfield_2 skb2_bitfield_2_update 14 1"

definition skb2_encap_hdr_csum :: "target \<Rightarrow> (sk_buff_ty_4_ty_2, u8) accessor" where
  "skb2_encap_hdr_csum tgt = bitfield tgt skb2_bitfield_2 skb2_bitfield_2_update 15 1"

definition skb2_csum_valid :: "target \<Rightarrow> (sk_buff_ty_4_ty_2, u8) accessor" where
  "skb2_csum_valid tgt = bitfield tgt skb2_bitfield_2 skb2_bitfield_2_update 16 1"

definition skb2_ndisc_nodetype :: "target \<Rightarrow> (sk_buff_ty_4_ty_2, u8) accessor" where
  "skb2_ndisc_nodetype tgt = bitfield tgt skb2_bitfield_2 skb2_bitfield_2_update 17 2"

definition skb2_ipvs_property :: "target \<Rightarrow> (sk_buff_ty_4_ty_2, u8) accessor" where
  "skb2_ipvs_property tgt = bitfield tgt skb2_bitfield_2 skb2_bitfield_2_update 19 1"

definition skb2_nf_trace :: "target \<Rightarrow> (sk_buff_ty_4_ty_2, u8) accessor" where
  "skb2_nf_trace tgt = bitfield tgt skb2_bitfield_2 skb2_bitfield_2_update 20 1"

definition skb2_offload_fwd_mark :: "target \<Rightarrow> (sk_buff_ty_4_ty_2, u8) accessor" where
  "skb2_offload_fwd_mark tgt = bitfield tgt skb2_bitfield_2 skb2_bitfield_2_update 21 1"

definition skb2_offload_l3_fwd_mark :: "target \<Rightarrow> (sk_buff_ty_4_ty_2, u8) accessor" where
  "skb2_offload_l3_fwd_mark tgt = bitfield tgt skb2_bitfield_2 skb2_bitfield_2_update 22 1"

definition skb2_redirected :: "target \<Rightarrow> (sk_buff_ty_4_ty_2, u8) accessor" where
  "skb2_redirected tgt = bitfield tgt skb2_bitfield_2 skb2_bitfield_2_update 23 1"

definition skb2_from_ingress :: "target \<Rightarrow> (sk_buff_ty_4_ty_2, u8) accessor" where
  "skb2_from_ingress tgt = bitfield tgt skb2_bitfield_2 skb2_bitfield_2_update 24 1"

definition skb2_nf_skip_egress :: "target \<Rightarrow> (sk_buff_ty_4_ty_2, u8) accessor" where
  "skb2_nf_skip_egress tgt = bitfield tgt skb2_bitfield_2 skb2_bitfield_2_update 25 1"

definition skb2_decrypted :: "target \<Rightarrow> (sk_buff_ty_4_ty_2, u8) accessor" where
  "skb2_decrypted tgt = bitfield tgt skb2_bitfield_2 skb2_bitfield_2_update 26 1"

definition skb2_slow_gro :: "target \<Rightarrow> (sk_buff_ty_4_ty_2, u8) accessor" where
  "skb2_slow_gro tgt = bitfield tgt skb2_bitfield_2 skb2_bitfield_2_update 27 1"

definition skb2_csum_not_inet :: "target \<Rightarrow> (sk_buff_ty_4_ty_2, u8) accessor" where
  "skb2_csum_not_inet tgt = bitfield tgt skb2_bitfield_2 skb2_bitfield_2_update 28 1"

definition skb2_unreadable :: "target \<Rightarrow> (sk_buff_ty_4_ty_2, u8) accessor" where
  "skb2_unreadable tgt = bitfield tgt skb2_bitfield_2 skb2_bitfield_2_update 29 1"

definition skb2_new_bitfield_1 ::
  "target \<Rightarrow> u8 \<Rightarrow> u8 \<Rightarrow> u8 \<Rightarrow> u8 \<Rightarrow> u8 \<Rightarrow>
    (unit, unit) outcome \<times> BindgenBitfieldUnit" where
  "skb2_new_bitfield_1 tgt pkt_type ignore_df dst_pending_confirm ip_summed ooo_okay =
     new_bitfield tgt 1
     [(0, 3, ucast pkt_type), (3, 1, ucast ignore_df), (4, 1, ucast dst_pending_confirm), (5, 2, ucast
      ip_summed), (7, 1, ucast ooo_okay)]"

definition skb2_new_bitfield_2 ::
  "target \<Rightarrow> u8 \<Rightarrow> u8 \<Rightarrow> u8 \<Rightarrow> u8 \<Rightarrow> u8 \<Rightarrow> u8
    \<Rightarrow> u8 \<Rightarrow> u8 \<Rightarrow> u8 \<Rightarrow> u8 \<Rightarrow> u8 \<Rightarrow> u8
    \<Rightarrow> u8 \<Rightarrow> u8 \<Rightarrow> u8 \<Rightarrow> u8 \<Rightarrow> u8 \<Rightarrow> u8
    \<Rightarrow> u8 \<Rightarrow> u8 \<Rightarrow> u8 \<Rightarrow> u8 \<Rightarrow> u8 \<Rightarrow> u8
    \<Rightarrow> u8 \<Rightarrow> u8 \<Rightarrow> u8 \<Rightarrow> (unit, unit) outcome \<times>
    BindgenBitfieldUnit" where
  "skb2_new_bitfield_2 tgt tstamp_type tc_at_ingress tc_skip_classify remcsum_offload csum_complete_sw
    csum_level inner_protocol_type l4_hash sw_hash wifi_acked_valid wifi_acked no_fcs encapsulation
    encap_hdr_csum csum_valid ndisc_nodetype ipvs_property nf_trace offload_fwd_mark offload_l3_fwd_mark
    redirected from_ingress nf_skip_egress decrypted slow_gro csum_not_inet unreadable =
     new_bitfield tgt 4
     [(0, 2, ucast tstamp_type), (2, 1, ucast tc_at_ingress), (3, 1, ucast tc_skip_classify), (4, 1, ucast
      remcsum_offload), (5, 1, ucast csum_complete_sw), (6, 2, ucast csum_level), (8, 1, ucast
      inner_protocol_type), (9, 1, ucast l4_hash), (10, 1, ucast sw_hash), (11, 1, ucast wifi_acked_valid),
      (12, 1, ucast wifi_acked), (13, 1, ucast no_fcs), (14, 1, ucast encapsulation), (15, 1, ucast
      encap_hdr_csum), (16, 1, ucast csum_valid), (17, 2, ucast ndisc_nodetype), (19, 1, ucast ipvs_property),
      (20, 1, ucast nf_trace), (21, 1, ucast offload_fwd_mark), (22, 1, ucast offload_l3_fwd_mark), (23, 1,
      ucast redirected), (24, 1, ucast from_ingress), (25, 1, ucast nf_skip_egress), (26, 1, ucast decrypted),
      (27, 1, ucast slow_gro), (28, 1, ucast csum_not_inet), (29, 1, ucast unreadable)]"

definition skb2_fields1 :: "target \<Rightarrow> (sk_buff_ty_4_ty_2, u8) accessor list" where
  "skb2_fields1 tgt =
     [skb2_pkt_type tgt, skb2_ignore_df tgt, skb2_dst_pending_confirm tgt, skb2_ip_summed tgt, skb2_ooo_okay
     tgt]"

definition skb2_ranges1 :: "(nat \<times> nat) list" where
  "skb2_ranges1 =
     [(0, 3), (3, 1), (4, 1), (5, 2), (7, 1)]"

definition skb2_fields2 :: "target \<Rightarrow> (sk_buff_ty_4_ty_2, u8) accessor list" where
  "skb2_fields2 tgt =
     [skb2_tstamp_type tgt, skb2_tc_at_ingress tgt, skb2_tc_skip_classify tgt, skb2_remcsum_offload tgt,
     skb2_csum_complete_sw tgt, skb2_csum_level tgt, skb2_inner_protocol_type tgt, skb2_l4_hash tgt,
     skb2_sw_hash tgt, skb2_wifi_acked_valid tgt, skb2_wifi_acked tgt, skb2_no_fcs tgt, skb2_encapsulation
     tgt, skb2_encap_hdr_csum tgt, skb2_csum_valid tgt, skb2_ndisc_nodetype tgt, skb2_ipvs_property tgt,
     skb2_nf_trace tgt, skb2_offload_fwd_mark tgt, skb2_offload_l3_fwd_mark tgt, skb2_redirected tgt,
     skb2_from_ingress tgt, skb2_nf_skip_egress tgt, skb2_decrypted tgt, skb2_slow_gro tgt, skb2_csum_not_inet
     tgt, skb2_unreadable tgt]"

definition skb2_ranges2 :: "(nat \<times> nat) list" where
  "skb2_ranges2 =
     [(0, 2), (2, 1), (3, 1), (4, 1), (5, 1), (6, 2), (8, 1), (9, 1), (10, 1), (11, 1), (12, 1), (13, 1), (14,
     1), (15, 1), (16, 1), (17, 2), (19, 1), (20, 1), (21, 1), (22, 1), (23, 1), (24, 1), (25, 1), (26, 1),
     (27, 1), (28, 1), (29, 1)]"

section \<open>The tables match the methods\<close>

lemmas table_defs = fields_ok_def iphdr_fields_def iphdr_ranges_def bpf_insn_fields_def bpf_insn_ranges_def
  sk_buff_fields_def sk_buff_ranges_def skb1_fields1_def skb1_ranges1_def skb1_fields2_def skb1_ranges2_def
  skb2_fields1_def skb2_ranges1_def skb2_fields2_def skb2_ranges2_def

interpretation ip_bits: bitfield_struct iphdr_bitfield_1 iphdr_bitfield_1_update 1 iphdr_fields iphdr_ranges
  by unfold_locales (simp_all add: table_defs iphdr_ihl_def iphdr_version_def)

interpretation insn_bits: bitfield_struct bpf_insn_bitfield_1 bpf_insn_bitfield_1_update 1 bpf_insn_fields bpf_insn_ranges
  by unfold_locales (simp_all add: table_defs bpf_insn_dst_reg_def bpf_insn_src_reg_def)

interpretation skbuff_bits: bitfield_struct sk_buff_bitfield_1 sk_buff_bitfield_1_update 1 sk_buff_fields sk_buff_ranges
  by unfold_locales (simp_all add: table_defs sk_buff_cloned_def sk_buff_nohdr_def sk_buff_fclone_def sk_buff_peeked_def sk_buff_head_frag_def
      sk_buff_pfmemalloc_def sk_buff_pp_recycle_def)

interpretation skb1_bits: bitfield_pair skb1_bitfield_1 skb1_bitfield_1_update 1 skb1_fields1 skb1_ranges1
    skb1_bitfield_2 skb1_bitfield_2_update 4 skb1_fields2 skb1_ranges2
  by unfold_locales (simp_all add: table_defs skb1_pkt_type_def skb1_ignore_df_def skb1_dst_pending_confirm_def skb1_ip_summed_def skb1_ooo_okay_def
      skb1_tstamp_type_def skb1_tc_at_ingress_def skb1_tc_skip_classify_def skb1_remcsum_offload_def
      skb1_csum_complete_sw_def skb1_csum_level_def skb1_inner_protocol_type_def skb1_l4_hash_def
      skb1_sw_hash_def skb1_wifi_acked_valid_def skb1_wifi_acked_def skb1_no_fcs_def skb1_encapsulation_def
      skb1_encap_hdr_csum_def skb1_csum_valid_def skb1_ndisc_nodetype_def skb1_ipvs_property_def
      skb1_nf_trace_def skb1_offload_fwd_mark_def skb1_offload_l3_fwd_mark_def skb1_redirected_def
      skb1_from_ingress_def skb1_nf_skip_egress_def skb1_decrypted_def skb1_slow_gro_def skb1_csum_not_inet_def
      skb1_unreadable_def)

interpretation skb2_bits: bitfield_pair skb2_bitfield_1 skb2_bitfield_1_update 1 skb2_fields1 skb2_ranges1
    skb2_bitfield_2 skb2_bitfield_2_update 4 skb2_fields2 skb2_ranges2
  by unfold_locales (simp_all add: table_defs skb2_pkt_type_def skb2_ignore_df_def skb2_dst_pending_confirm_def skb2_ip_summed_def skb2_ooo_okay_def
      skb2_tstamp_type_def skb2_tc_at_ingress_def skb2_tc_skip_classify_def skb2_remcsum_offload_def
      skb2_csum_complete_sw_def skb2_csum_level_def skb2_inner_protocol_type_def skb2_l4_hash_def
      skb2_sw_hash_def skb2_wifi_acked_valid_def skb2_wifi_acked_def skb2_no_fcs_def skb2_encapsulation_def
      skb2_encap_hdr_csum_def skb2_csum_valid_def skb2_ndisc_nodetype_def skb2_ipvs_property_def
      skb2_nf_trace_def skb2_offload_fwd_mark_def skb2_offload_l3_fwd_mark_def skb2_redirected_def
      skb2_from_ingress_def skb2_nf_skip_egress_def skb2_decrypted_def skb2_slow_gro_def skb2_csum_not_inet_def
      skb2_unreadable_def)

text \<open>The constructors take their arguments in the order of the tables.\<close>

lemma iphdr_constructs:
  "constructs iphdr_bitfield_1 1 iphdr_fields iphdr_ranges tgt
       [ihl, version]
       (iphdr_new_bitfield_1 tgt ihl version)"
  by (rule ip_bits.new_constructs) (simp_all add: iphdr_new_bitfield_1_def iphdr_ranges_def)

lemma bpf_insn_constructs:
  "constructs bpf_insn_bitfield_1 1 bpf_insn_fields bpf_insn_ranges tgt
       [dst_reg, src_reg]
       (bpf_insn_new_bitfield_1 tgt dst_reg src_reg)"
  by (rule insn_bits.new_constructs) (simp_all add: bpf_insn_new_bitfield_1_def bpf_insn_ranges_def)

lemma sk_buff_constructs:
  "constructs sk_buff_bitfield_1 1 sk_buff_fields sk_buff_ranges tgt
       [cloned, nohdr, fclone, peeked, head_frag, pfmemalloc, pp_recycle]
       (sk_buff_new_bitfield_1 tgt cloned nohdr fclone peeked head_frag pfmemalloc pp_recycle)"
  by (rule skbuff_bits.new_constructs) (simp_all add: sk_buff_new_bitfield_1_def sk_buff_ranges_def)

lemma skb1_constructs1:
  "constructs skb1_bitfield_1 1 skb1_fields1 skb1_ranges1 tgt
       [pkt_type, ignore_df, dst_pending_confirm, ip_summed, ooo_okay]
       (skb1_new_bitfield_1 tgt pkt_type ignore_df dst_pending_confirm ip_summed ooo_okay)"
  by (rule skb1_bits.one.new_constructs) (simp_all add: skb1_new_bitfield_1_def skb1_ranges1_def)

lemma skb1_constructs2:
  "constructs skb1_bitfield_2 4 skb1_fields2 skb1_ranges2 tgt
       [tstamp_type, tc_at_ingress, tc_skip_classify, remcsum_offload, csum_complete_sw, csum_level,
        inner_protocol_type, l4_hash, sw_hash, wifi_acked_valid, wifi_acked, no_fcs, encapsulation,
        encap_hdr_csum, csum_valid, ndisc_nodetype, ipvs_property, nf_trace, offload_fwd_mark,
        offload_l3_fwd_mark, redirected, from_ingress, nf_skip_egress, decrypted, slow_gro, csum_not_inet,
        unreadable]
       (skb1_new_bitfield_2 tgt tstamp_type tc_at_ingress tc_skip_classify remcsum_offload csum_complete_sw csum_level
        inner_protocol_type l4_hash sw_hash wifi_acked_valid wifi_acked no_fcs encapsulation encap_hdr_csum
        csum_valid ndisc_nodetype ipvs_property nf_trace offload_fwd_mark offload_l3_fwd_mark redirected
        from_ingress nf_skip_egress decrypted slow_gro csum_not_inet unreadable)"
  by (rule skb1_bits.two.new_constructs) (simp_all add: skb1_new_bitfield_2_def skb1_ranges2_def)

lemma skb2_constructs1:
  "constructs skb2_bitfield_1 1 skb2_fields1 skb2_ranges1 tgt
       [pkt_type, ignore_df, dst_pending_confirm, ip_summed, ooo_okay]
       (skb2_new_bitfield_1 tgt pkt_type ignore_df dst_pending_confirm ip_summed ooo_okay)"
  by (rule skb2_bits.one.new_constructs) (simp_all add: skb2_new_bitfield_1_def skb2_ranges1_def)

lemma skb2_constructs2:
  "constructs skb2_bitfield_2 4 skb2_fields2 skb2_ranges2 tgt
       [tstamp_type, tc_at_ingress, tc_skip_classify, remcsum_offload, csum_complete_sw, csum_level,
        inner_protocol_type, l4_hash, sw_hash, wifi_acked_valid, wifi_acked, no_fcs, encapsulation,
        encap_hdr_csum, csum_valid, ndisc_nodetype, ipvs_property, nf_trace, offload_fwd_mark,
        offload_l3_fwd_mark, redirected, from_ingress, nf_skip_egress, decrypted, slow_gro, csum_not_inet,
        unreadable]
       (skb2_new_bitfield_2 tgt tstamp_type tc_at_ingress tc_skip_classify remcsum_offload csum_complete_sw csum_level
        inner_protocol_type l4_hash sw_hash wifi_acked_valid wifi_acked no_fcs encapsulation encap_hdr_csum
        csum_valid ndisc_nodetype ipvs_property nf_trace offload_fwd_mark offload_l3_fwd_mark redirected
        from_ingress nf_skip_egress decrypted slow_gro csum_not_inet unreadable)"
  by (rule skb2_bits.two.new_constructs) (simp_all add: skb2_new_bitfield_2_def skb2_ranges2_def)

section \<open>Properties\<close>

text \<open>The bit-field unit, for every target: writing a value of a field inside the storage
  succeeds and keeps the storage's size, reading the field back gives the value cut to the field's
  width, a field that does not overlap it keeps its value, and the raw methods do the same as the
  checked ones.\<close>

lemma unit_roundtrip:
  assumes "in_unit off w u" and "in_unit off2 w2 u" and "apart off w off2 w2"
  shows "\<exists>u'. unit_set tgt off w v u = (Ok (), u') \<and> unit_raw_set tgt off w v u = (Ok (), u')
    \<and> length (storage u') = length (storage u)
    \<and> unit_get tgt off w u' = (Ok (take_bit w v), u')
    \<and> unit_raw_get tgt off w u' = (Ok (take_bit w v), u')
    \<and> fst (unit_get tgt off2 w2 u') = fst (unit_get tgt off2 w2 u)"
proof -
  obtain u' where u': "unit_set tgt off w v u = (Ok (), u')" "length (storage u') = length (storage u)"
    by (rule unit_set_spec [OF assms(1), where tgt = tgt and v = v])
  have "off + w \<le> off2 \<or> off2 + w2 \<le> off" using assms(3) by (simp add: apart_def)
  from unit_get_set_other(1) [OF assms(1,2) u'(1) this] u' unit_get_set [OF assms(1) u'(1)]
  show ?thesis by (intro exI [of _ u']) (simp add: raw_eq)
qed

text \<open>On a little-endian target the bindings read the first byte of an IPv4 header as the wire has
  it: the header length is its low nibble and the version its high one.\<close>

lemma iphdr_nibbles:
  assumes "storage (iphdr_bitfield_1 h) = [b]" and "\<not> big_endian tgt"
  shows "field_get (iphdr_ihl tgt) h = (Ok (b AND 15), h)
    \<and> field_get (iphdr_version tgt) h = (Ok (drop_bit 4 b), h)"
proof -
  let ?u = "iphdr_bitfield_1 h"
  have ub: "unit_bit tgt ?u k \<longleftrightarrow> bit b k" if "k < 8" for k
    using that assms(1) assms(2) by (simp add: unit_bit_def bit_index_def)
  have "in_unit 0 4 ?u" "in_unit 4 4 ?u" using assms by (simp_all add: in_unit_def)
  then obtain x y where x: "unit_get tgt 0 4 ?u = (Ok x, ?u)" "\<forall>k. bit x k \<longleftrightarrow> k < 4 \<and> unit_bit tgt ?u (value_index tgt 4 k + 0)"
      and y: "unit_get tgt 4 4 ?u = (Ok y, ?u)" "\<forall>k. bit y k \<longleftrightarrow> k < 4 \<and> unit_bit tgt ?u (value_index tgt 4 k + 4)"
    by (metis unit_get_spec)
  have m: "b AND 15 = take_bit 4 b" by (simp add: take_bit_eq_mask mask_eq_exp_minus_1)
  have "ucast x = b AND 15"
    using x(2) ub by (intro bit_word_eqI) (auto simp: m bit_ucast_iff bit_take_bit_iff value_index_def assms(2))
  moreover have "bit y k \<longleftrightarrow> bit b (4 + k)" for k
  proof (cases "k < 4")
    case True
    then show ?thesis using y(2) ub by (simp add: value_index_def assms(2) add.commute)
  next
    case False
    then have "\<not> bit b (4 + k)" using bit_imp_le_length [of b "4 + k"] by auto
    with False show ?thesis using y(2) by simp
  qed
  then have "ucast y = drop_bit 4 b" by (intro bit_word_eqI) (simp add: bit_ucast_iff bit_drop_bit_eq)
  ultimately show ?thesis
    using ip_bits.get_eq [OF x(1)] ip_bits.get_eq [OF y(1)] by (simp add: iphdr_ihl_def iphdr_version_def)
qed

text \<open>The two members of the socket buffer's header union are the same memory: they have the size of
  the union's storage, and every flag reads the same through the anonymous struct and through
  \<open>headers\<close>.\<close>

lemma skb_union_views:
  assumes "i < 32" and "length mem = 60"
  shows "size_of skb_group_layout = length mem
    \<and> fst (field_get ((skb1_fields1 tgt @ skb1_fields2 tgt) ! i) (union_field_ref skb1_view mem))
      = fst (field_get ((skb2_fields1 tgt @ skb2_fields2 tgt) ! i) (union_field_ref skb2_view mem))"
proof -
  let ?s1 = "skb1_view mem" and ?s2 = "skb2_view mem"
  have r: "skb1_ranges1 = skb2_ranges1" "skb1_ranges2 = skb2_ranges2"
    by (simp_all add: skb1_ranges1_def skb2_ranges1_def skb1_ranges2_def skb2_ranges2_def)
  have units: "skb1_bitfield_1 ?s1 = skb2_bitfield_1 ?s2" "skb1_bitfield_2 ?s1 = skb2_bitfield_2 ?s2"
    by (simp_all add: skb1_view_def skb2_view_def)
  have eq: "fst (field_get (bitfield tgt sel upd off w :: ('s, u8) accessor) s)
      = fst (field_get (bitfield tgt sel' upd' off w :: ('t, u8) accessor) t)"
    if "sel s = sel' t" for sel :: "'s \<Rightarrow> _" and sel' :: "'t \<Rightarrow> _" and upd upd' s t off w
  proof (cases "unit_get tgt off w (sel s)")
    case (Pair a b)
    then show ?thesis using that by (cases a) (simp_all add: bitfield_def on_field_def bindM_def ret_def)
  qed
  have n: "length skb2_ranges1 + length skb2_ranges2 = 32" by (simp add: skb2_ranges1_def skb2_ranges2_def)
  have "fst (field_get ((skb1_fields1 tgt @ skb1_fields2 tgt) ! i) ?s1)
      = fst (field_get ((skb2_fields1 tgt @ skb2_fields2 tgt) ! i) ?s2)"
    using assms(1) n units
    by (auto simp: skb1_bits.one.generated skb1_bits.two.generated skb2_bits.one.generated skb2_bits.two.generated
        r nth_append split: prod.split intro!: eq)
  moreover have "size_of skb_group_layout = 60"
    by (simp add: skb_group_layout_def round_up_def)
  ultimately show ?thesis using assms(2) by (simp add: union_field_ref_def)
qed

end
