(* ===== verification/Vmlinux_Prog.thy ===== *)
theory Vmlinux_Prog
  imports Vmlinux
begin

text \<open>
  More structs of the kernel bindings (\<open>cilium-mini-ebpf/src/vmlinux.rs\<close>), in the style of
  \<open>Vmlinux\<close>: the loaded BPF program with its sixteen flags in one two-byte unit, and the common part of
  a socket. Zero-sized markers (\<open>__IncompleteArrayField\<close>) are byte lists of length 0.
\<close>

section \<open>Structs\<close>

record bpf_prog =
  prog_pages :: u16
  bpf_prog_bitfield_1 :: BindgenBitfieldUnit
  prog_type :: u32
  prog_expected_attach_type :: u32
  prog_len :: u32
  prog_jited_len :: u32
  prog_anon_1 :: bytes
  prog_stats :: u64
  prog_active :: u64
  prog_bpf_func :: "u64 option"
  prog_aux :: u64
  prog_orig_prog :: u64
  prog_anon_2 :: bytes

record sock_common =
  skc_anon_1 :: u64
  skc_anon_2 :: u32
  skc_anon_3 :: u32
  skc_family :: u16
  skc_state :: u8
  sock_common_bitfield_1 :: BindgenBitfieldUnit
  skc_bound_dev_if :: u32
  skc_anon_4 :: "u64 \<times> u64"
  skc_prot :: u64
  skc_net :: u64
  skc_v6_daddr :: bytes
  skc_v6_rcv_saddr :: bytes
  skc_cookie :: u64
  skc_anon_5 :: u64
  skc_dontcopy_begin :: bytes
  skc_anon_6 :: "u64 \<times> u64"
  skc_tx_queue_mapping :: u16
  skc_rx_queue_mapping :: u16
  skc_anon_7 :: u32
  skc_refcnt :: u32
  skc_dontcopy_end :: bytes
  skc_anon_8 :: u32

section \<open>Bit-fields\<close>

text \<open>\<open>bpf_prog\<close>, lines 16526 to 17142.\<close>

definition bpf_prog_jited :: "target \<Rightarrow> (bpf_prog, u16) accessor" where
  "bpf_prog_jited tgt = bitfield tgt bpf_prog_bitfield_1 bpf_prog_bitfield_1_update 0 1"

definition bpf_prog_jit_requested :: "target \<Rightarrow> (bpf_prog, u16) accessor" where
  "bpf_prog_jit_requested tgt = bitfield tgt bpf_prog_bitfield_1 bpf_prog_bitfield_1_update 1 1"

definition bpf_prog_gpl_compatible :: "target \<Rightarrow> (bpf_prog, u16) accessor" where
  "bpf_prog_gpl_compatible tgt = bitfield tgt bpf_prog_bitfield_1 bpf_prog_bitfield_1_update 2 1"

definition bpf_prog_cb_access :: "target \<Rightarrow> (bpf_prog, u16) accessor" where
  "bpf_prog_cb_access tgt = bitfield tgt bpf_prog_bitfield_1 bpf_prog_bitfield_1_update 3 1"

definition bpf_prog_dst_needed :: "target \<Rightarrow> (bpf_prog, u16) accessor" where
  "bpf_prog_dst_needed tgt = bitfield tgt bpf_prog_bitfield_1 bpf_prog_bitfield_1_update 4 1"

definition bpf_prog_blinding_requested :: "target \<Rightarrow> (bpf_prog, u16) accessor" where
  "bpf_prog_blinding_requested tgt = bitfield tgt bpf_prog_bitfield_1 bpf_prog_bitfield_1_update 5 1"

definition bpf_prog_blinded :: "target \<Rightarrow> (bpf_prog, u16) accessor" where
  "bpf_prog_blinded tgt = bitfield tgt bpf_prog_bitfield_1 bpf_prog_bitfield_1_update 6 1"

definition bpf_prog_is_func :: "target \<Rightarrow> (bpf_prog, u16) accessor" where
  "bpf_prog_is_func tgt = bitfield tgt bpf_prog_bitfield_1 bpf_prog_bitfield_1_update 7 1"

definition bpf_prog_kprobe_override :: "target \<Rightarrow> (bpf_prog, u16) accessor" where
  "bpf_prog_kprobe_override tgt = bitfield tgt bpf_prog_bitfield_1 bpf_prog_bitfield_1_update 8 1"

definition bpf_prog_has_callchain_buf :: "target \<Rightarrow> (bpf_prog, u16) accessor" where
  "bpf_prog_has_callchain_buf tgt = bitfield tgt bpf_prog_bitfield_1 bpf_prog_bitfield_1_update 9 1"

definition bpf_prog_enforce_expected_attach_type :: "target \<Rightarrow> (bpf_prog, u16) accessor" where
  "bpf_prog_enforce_expected_attach_type tgt = bitfield tgt bpf_prog_bitfield_1 bpf_prog_bitfield_1_update 10 1"

definition bpf_prog_call_get_stack :: "target \<Rightarrow> (bpf_prog, u16) accessor" where
  "bpf_prog_call_get_stack tgt = bitfield tgt bpf_prog_bitfield_1 bpf_prog_bitfield_1_update 11 1"

definition bpf_prog_call_get_func_ip :: "target \<Rightarrow> (bpf_prog, u16) accessor" where
  "bpf_prog_call_get_func_ip tgt = bitfield tgt bpf_prog_bitfield_1 bpf_prog_bitfield_1_update 12 1"

definition bpf_prog_call_session_cookie :: "target \<Rightarrow> (bpf_prog, u16) accessor" where
  "bpf_prog_call_session_cookie tgt = bitfield tgt bpf_prog_bitfield_1 bpf_prog_bitfield_1_update 13 1"

definition bpf_prog_tstamp_type_access :: "target \<Rightarrow> (bpf_prog, u16) accessor" where
  "bpf_prog_tstamp_type_access tgt = bitfield tgt bpf_prog_bitfield_1 bpf_prog_bitfield_1_update 14 1"

definition bpf_prog_sleepable :: "target \<Rightarrow> (bpf_prog, u16) accessor" where
  "bpf_prog_sleepable tgt = bitfield tgt bpf_prog_bitfield_1 bpf_prog_bitfield_1_update 15 1"

definition bpf_prog_new_bitfield_1 ::
  "target \<Rightarrow> u16 \<Rightarrow> u16 \<Rightarrow> u16 \<Rightarrow> u16 \<Rightarrow> u16 \<Rightarrow>
    u16 \<Rightarrow> u16 \<Rightarrow> u16 \<Rightarrow> u16 \<Rightarrow> u16 \<Rightarrow> u16 \<Rightarrow>
    u16 \<Rightarrow> u16 \<Rightarrow> u16 \<Rightarrow> u16 \<Rightarrow> u16 \<Rightarrow> (unit, unit) outcome
    \<times> BindgenBitfieldUnit" where
  "bpf_prog_new_bitfield_1 tgt jited jit_requested gpl_compatible cb_access dst_needed blinding_requested
    blinded is_func kprobe_override has_callchain_buf enforce_expected_attach_type call_get_stack
    call_get_func_ip call_session_cookie tstamp_type_access sleepable =
     new_bitfield tgt 2
     [(0, 1, ucast jited), (1, 1, ucast jit_requested), (2, 1, ucast gpl_compatible), (3, 1, ucast cb_access),
      (4, 1, ucast dst_needed), (5, 1, ucast blinding_requested), (6, 1, ucast blinded), (7, 1, ucast is_func),
      (8, 1, ucast kprobe_override), (9, 1, ucast has_callchain_buf), (10, 1, ucast
      enforce_expected_attach_type), (11, 1, ucast call_get_stack), (12, 1, ucast call_get_func_ip), (13, 1,
      ucast call_session_cookie), (14, 1, ucast tstamp_type_access), (15, 1, ucast sleepable)]"

definition bpf_prog_fields :: "target \<Rightarrow> (bpf_prog, u16) accessor list" where
  "bpf_prog_fields tgt =
     [bpf_prog_jited tgt, bpf_prog_jit_requested tgt, bpf_prog_gpl_compatible tgt, bpf_prog_cb_access tgt,
     bpf_prog_dst_needed tgt, bpf_prog_blinding_requested tgt, bpf_prog_blinded tgt, bpf_prog_is_func tgt,
     bpf_prog_kprobe_override tgt, bpf_prog_has_callchain_buf tgt, bpf_prog_enforce_expected_attach_type tgt,
     bpf_prog_call_get_stack tgt, bpf_prog_call_get_func_ip tgt, bpf_prog_call_session_cookie tgt,
     bpf_prog_tstamp_type_access tgt, bpf_prog_sleepable tgt]"

definition bpf_prog_ranges :: "(nat \<times> nat) list" where
  "bpf_prog_ranges =
     [(0, 1), (1, 1), (2, 1), (3, 1), (4, 1), (5, 1), (6, 1), (7, 1), (8, 1), (9, 1), (10, 1), (11, 1), (12,
     1), (13, 1), (14, 1), (15, 1)]"

text \<open>\<open>sock_common\<close>, lines 13883 to 14080.\<close>

definition sock_common_skc_reuse :: "target \<Rightarrow> (sock_common, u8) accessor" where
  "sock_common_skc_reuse tgt = bitfield tgt sock_common_bitfield_1 sock_common_bitfield_1_update 0 4"

definition sock_common_skc_reuseport :: "target \<Rightarrow> (sock_common, u8) accessor" where
  "sock_common_skc_reuseport tgt = bitfield tgt sock_common_bitfield_1 sock_common_bitfield_1_update 4 1"

definition sock_common_skc_ipv6only :: "target \<Rightarrow> (sock_common, u8) accessor" where
  "sock_common_skc_ipv6only tgt = bitfield tgt sock_common_bitfield_1 sock_common_bitfield_1_update 5 1"

definition sock_common_skc_net_refcnt :: "target \<Rightarrow> (sock_common, u8) accessor" where
  "sock_common_skc_net_refcnt tgt = bitfield tgt sock_common_bitfield_1 sock_common_bitfield_1_update 6 1"

definition sock_common_skc_bypass_prot_mem :: "target \<Rightarrow> (sock_common, u8) accessor" where
  "sock_common_skc_bypass_prot_mem tgt = bitfield tgt sock_common_bitfield_1 sock_common_bitfield_1_update 7 1"

definition sock_common_new_bitfield_1 ::
  "target \<Rightarrow> u8 \<Rightarrow> u8 \<Rightarrow> u8 \<Rightarrow> u8 \<Rightarrow> u8 \<Rightarrow>
    (unit, unit) outcome \<times> BindgenBitfieldUnit" where
  "sock_common_new_bitfield_1 tgt skc_reuse skc_reuseport skc_ipv6only skc_net_refcnt skc_bypass_prot_mem =
     new_bitfield tgt 1
     [(0, 4, ucast skc_reuse), (4, 1, ucast skc_reuseport), (5, 1, ucast skc_ipv6only), (6, 1, ucast
      skc_net_refcnt), (7, 1, ucast skc_bypass_prot_mem)]"

definition sock_common_fields :: "target \<Rightarrow> (sock_common, u8) accessor list" where
  "sock_common_fields tgt =
     [sock_common_skc_reuse tgt, sock_common_skc_reuseport tgt, sock_common_skc_ipv6only tgt,
     sock_common_skc_net_refcnt tgt, sock_common_skc_bypass_prot_mem tgt]"

definition sock_common_ranges :: "(nat \<times> nat) list" where
  "sock_common_ranges =
     [(0, 4), (4, 1), (5, 1), (6, 1), (7, 1)]"

section \<open>The tables match the methods\<close>

interpretation prog_bits: bitfield_struct bpf_prog_bitfield_1 bpf_prog_bitfield_1_update 2 bpf_prog_fields bpf_prog_ranges
  by unfold_locales (simp_all add: fields_ok_def bpf_prog_fields_def bpf_prog_ranges_def
      bpf_prog_jited_def bpf_prog_jit_requested_def bpf_prog_gpl_compatible_def bpf_prog_cb_access_def
      bpf_prog_dst_needed_def bpf_prog_blinding_requested_def bpf_prog_blinded_def bpf_prog_is_func_def
      bpf_prog_kprobe_override_def bpf_prog_has_callchain_buf_def bpf_prog_enforce_expected_attach_type_def
      bpf_prog_call_get_stack_def bpf_prog_call_get_func_ip_def bpf_prog_call_session_cookie_def
      bpf_prog_tstamp_type_access_def bpf_prog_sleepable_def)

interpretation sock_bits: bitfield_struct sock_common_bitfield_1 sock_common_bitfield_1_update 1
    sock_common_fields sock_common_ranges
  by unfold_locales (simp_all add: fields_ok_def sock_common_fields_def sock_common_ranges_def
      sock_common_skc_reuse_def sock_common_skc_reuseport_def sock_common_skc_ipv6only_def
      sock_common_skc_net_refcnt_def sock_common_skc_bypass_prot_mem_def)

text \<open>The constructors take the flags in the order of the tables.\<close>

lemma bpf_prog_constructs:
  "constructs bpf_prog_bitfield_1 2 bpf_prog_fields bpf_prog_ranges tgt
       [jited, jit_requested, gpl_compatible, cb_access, dst_needed, blinding_requested, blinded, is_func,
        kprobe_override, has_callchain_buf, enforce_expected_attach_type, call_get_stack, call_get_func_ip,
        call_session_cookie, tstamp_type_access, sleepable]
       (bpf_prog_new_bitfield_1 tgt jited jit_requested gpl_compatible cb_access dst_needed blinding_requested blinded is_func
        kprobe_override has_callchain_buf enforce_expected_attach_type call_get_stack call_get_func_ip
        call_session_cookie tstamp_type_access sleepable)"
  by (rule prog_bits.new_constructs) (simp_all add: bpf_prog_new_bitfield_1_def bpf_prog_ranges_def)

lemma sock_common_constructs:
  "constructs sock_common_bitfield_1 1 sock_common_fields sock_common_ranges tgt
       [skc_reuse, skc_reuseport, skc_ipv6only, skc_net_refcnt, skc_bypass_prot_mem]
       (sock_common_new_bitfield_1 tgt skc_reuse skc_reuseport skc_ipv6only skc_net_refcnt skc_bypass_prot_mem)"
  by (rule sock_bits.new_constructs) (simp_all add: sock_common_new_bitfield_1_def sock_common_ranges_def)

end
