(* ===== verification/Bitfield_Word.thy ===== *)
theory Bitfield_Word
  imports Bitfield
begin

text \<open>
  What the bit loops of \<open>__BindgenBitfieldUnit\<close> (\<open>cilium-mini-ebpf/src/vmlinux.rs\<close>) compute, in one
  expression: a unit of up to eight bytes is an integer in the target's byte order, and a field of it is
  a shift and a mask of that integer. Reading and writing bit by bit is the same. A union of a bit-field
  struct with an integer can therefore be read either way.
\<close>

section \<open>A unit as an integer\<close>

definition unit_word :: "target \<Rightarrow> BindgenBitfieldUnit \<Rightarrow> u64" where
  "unit_word tgt u = (if big_endian tgt then of_be (storage u) else of_le (storage u))"

text \<open>Where a field's lowest bit is: a big-endian target counts the fields from the other end.\<close>

definition field_pos :: "target \<Rightarrow> nat \<Rightarrow> nat \<Rightarrow> BindgenBitfieldUnit \<Rightarrow> nat" where
  "field_pos tgt off w u = (if big_endian tgt then 8 * length (storage u) - (off + w) else off)"

definition word_get :: "nat \<Rightarrow> nat \<Rightarrow> u64 \<Rightarrow> u64" where
  "word_get pos w x = take_bit w (drop_bit pos x)"

definition word_set :: "nat \<Rightarrow> nat \<Rightarrow> u64 \<Rightarrow> u64 \<Rightarrow> u64" where
  "word_set pos w v x = (x AND NOT (push_bit pos (mask w))) OR push_bit pos (take_bit w v)"

lemma mirror:
  fixes q n :: nat
  assumes "q < 8 * n"
  shows "(8 * n - 1 - q) div 8 = n - 1 - q div 8" and "7 - (8 * n - 1 - q) mod 8 = q mod 8"
proof -
  have q: "q = 8 * (q div 8) + q mod 8" and m: "q mod 8 < 8" by simp_all
  have d: "q div 8 < n" using assms by simp
  obtain r where r: "r = 7 - q mod 8" "r < 8" by simp
  have e: "8 * n - 1 - q = 8 * (n - 1 - q div 8) + r" using q m d r(1) by linarith
  show "(8 * n - 1 - q) div 8 = n - 1 - q div 8" unfolding e using r(2) by simp
  have "(8 * n - 1 - q) mod 8 = r" unfolding e using r(2) by simp
  with m r(1) show "7 - (8 * n - 1 - q) mod 8 = q mod 8" by simp
qed

lemma bit_unit_word:
  assumes "length (storage u) \<le> 8"
  shows "bit (unit_word tgt u) q \<longleftrightarrow>
    q < 8 * length (storage u) \<and> unit_bit tgt u (if big_endian tgt then 8 * length (storage u) - 1 - q else q)"
proof -
  let ?n = "length (storage u)"
  have lt: "q div 8 < ?n \<longleftrightarrow> q < 8 * ?n" by (simp add: div_less_iff_less_mult mult.commute)
  have q64: "q < 8 * ?n \<Longrightarrow> q < 64" using assms by simp
  show ?thesis
  proof (cases "big_endian tgt")
    case False
    then show ?thesis using q64 lt by (auto simp: unit_word_def bit_of_le unit_bit_def bit_index_def)
  next
    case True
    show ?thesis
    proof (cases "q < 8 * ?n")
      case q: True
      then have "rev (storage u) ! (q div 8) = storage u ! (?n - 1 - q div 8)" using lt by (simp add: rev_nth)
      then show ?thesis using True q q64 lt mirror [OF q]
        by (simp add: unit_word_def of_be_def bit_of_le unit_bit_def bit_index_def)
    next
      case False
      then show ?thesis using True lt by (simp add: unit_word_def of_be_def bit_of_le)
    qed
  qed
qed

lemma unit_get_word:
  assumes "in_unit off w u" and "length (storage u) \<le> 8"
  shows "unit_get tgt off w u = (Ok (word_get (field_pos tgt off w u) w (unit_word tgt u)), u)"
proof -
  obtain x where x: "unit_get tgt off w u = (Ok x, u)"
    and bits: "\<forall>k. bit x k \<longleftrightarrow> k < w \<and> unit_bit tgt u (value_index tgt w k + off)"
    by (rule unit_get_spec [OF assms(1), where tgt = tgt])
  have "bit x k \<longleftrightarrow> bit (word_get (field_pos tgt off w u) w (unit_word tgt u)) k" for k
  proof (cases "k < w")
    case True
    have r: "off + w \<le> 8 * length (storage u)" using assms(1) by (simp add: in_unit_def)
    with True have "(if big_endian tgt then 8 * length (storage u) - 1 - (field_pos tgt off w u + k) else field_pos tgt off w u + k)
        = value_index tgt w k + off" "field_pos tgt off w u + k < 8 * length (storage u)"
      by (auto simp: field_pos_def value_index_def)
    with True show ?thesis
      by (simp add: bits word_get_def bit_take_bit_iff bit_drop_bit_eq bit_unit_word [OF assms(2)])
  qed (simp add: bits word_get_def bit_take_bit_iff)
  then have "x = word_get (field_pos tgt off w u) w (unit_word tgt u)" by (intro bit_word_eqI) simp
  with x show ?thesis by simp
qed

lemma bit_word_set:
  "k < 64 \<Longrightarrow> bit (word_set pos w v x) k \<longleftrightarrow> (if pos \<le> k \<and> k < pos + w then bit v (k - pos) else bit x k)"
  by (auto simp: word_set_def bit_or_iff bit_and_iff bit_not_iff bit_push_bit_iff bit_take_bit_iff bit_mask_iff)

lemma unit_set_word:
  assumes "in_unit off w u" and "length (storage u) \<le> 8"
  obtains u' where "unit_set tgt off w v u = (Ok (), u')" and "length (storage u') = length (storage u)"
    and "unit_word tgt u' = word_set (field_pos tgt off w u) w v (unit_word tgt u)"
proof -
  let ?n = "8 * length (storage u)"
  obtain u' where u': "unit_set tgt off w v u = (Ok (), u')" "length (storage u') = length (storage u)"
    and bits: "\<forall>p < ?n. unit_bit tgt u' p \<longleftrightarrow>
      (if off \<le> p \<and> p < off + w then bit v (value_index tgt w (p - off)) else unit_bit tgt u p)"
    by (rule unit_set_spec [OF assms(1), where tgt = tgt and v = v])
  have r: "off + w \<le> ?n" using assms(1) by (simp add: in_unit_def)
  let ?pos = "field_pos tgt off w u"
  have "bit (unit_word tgt u') k \<longleftrightarrow> bit (word_set ?pos w v (unit_word tgt u)) k" if "k < 64" for k
  proof (cases "k < ?n")
    case True
    let ?p = "if big_endian tgt then ?n - 1 - k else k"
    have "?p < ?n" using True by auto
    moreover have "off \<le> ?p \<and> ?p < off + w \<longleftrightarrow> ?pos \<le> k \<and> k < ?pos + w"
      using True r by (auto simp: field_pos_def)
    moreover have "value_index tgt w (?p - off) = k - ?pos" if "?pos \<le> k \<and> k < ?pos + w"
      using True r that by (auto simp: field_pos_def value_index_def)
    ultimately show ?thesis
      using True bits by (auto simp: bit_word_set [OF that] bit_unit_word [of u'] bit_unit_word [OF assms(2)] u'(2) assms(2))
  next
    case False
    then have "\<not> k < ?pos + w" using r by (auto simp: field_pos_def)
    with False show ?thesis
      by (simp add: bit_word_set [OF that] bit_unit_word [of u'] bit_unit_word [OF assms(2)] u'(2) assms(2))
  qed
  then have "unit_word tgt u' = word_set ?pos w v (unit_word tgt u)" by (intro bit_word_eqI) simp
  with u' show ?thesis by (rule that)
qed

text \<open>Storages of the same length with the same integer are equal.\<close>

lemma unit_word_storage:
  assumes "length (storage u) \<le> 8"
  shows "storage u = (if big_endian tgt then be_bytes (length (storage u)) (unit_word tgt u)
                      else le_bytes (length (storage u)) (unit_word tgt u))"
  using assms by (simp add: unit_word_def)

section \<open>Properties\<close>

text \<open>C39. The bit-by-bit loops of the accessors compute a shift and a mask. On a unit of up to eight bytes,
  in either byte order and with or without debug assertions, for a field of at most 64 bits that starts
  at a byte of the unit and ends inside it: \<open>get\<close> returns the field's bits of the unit read as an integer
  and \<open>set\<close> stores the integer with exactly those bits replaced. On units of any size and for any offset
  and width the raw methods do the same as the checked ones; and where one of the three
  assertions fails on a target with debug assertions, all four panic and leave the unit as it is.\<close>

theorem unit_shift_mask:
  fixes tgt :: target and val :: u64 and u :: BindgenBitfieldUnit and bit_offset bit_width :: nat
  defines "pos \<equiv> field_pos tgt bit_offset bit_width u"
  shows "(bit_width \<le> 64 \<and> bit_offset div 8 < length (storage u)
      \<and> bit_offset + bit_width \<le> 8 * length (storage u) \<and> length (storage u) \<le> 8 \<longrightarrow>
      unit_get tgt bit_offset bit_width u = (Ok (take_bit bit_width (drop_bit pos (unit_word tgt u))), u)
      \<and> unit_set tgt bit_offset bit_width val u = (Ok (), \<lparr>storage =
          (if big_endian tgt then be_bytes (length (storage u)) else le_bytes (length (storage u)))
            ((unit_word tgt u AND NOT (push_bit pos (mask bit_width))) OR push_bit pos (take_bit bit_width val))\<rparr>))
    \<and> unit_raw_get tgt bit_offset bit_width u = unit_get tgt bit_offset bit_width u
    \<and> unit_raw_set tgt bit_offset bit_width val u = unit_set tgt bit_offset bit_width val u
    \<and> (debug_assertions tgt \<and> \<not> (bit_width \<le> 64 \<and> bit_offset div 8 < length (storage u)
        \<and> (bit_offset + bit_width) div 8 \<le> length (storage u)) \<longrightarrow>
        unit_get tgt bit_offset bit_width u = (Panic, u) \<and> unit_set tgt bit_offset bit_width val u = (Panic, u))"
proof (intro conjI impI)
  assume a: "bit_width \<le> 64 \<and> bit_offset div 8 < length (storage u)
    \<and> bit_offset + bit_width \<le> 8 * length (storage u) \<and> length (storage u) \<le> 8"
  then have i: "in_unit bit_offset bit_width u" and len: "length (storage u) \<le> 8" by (simp_all add: in_unit_def)
  show "unit_get tgt bit_offset bit_width u = (Ok (take_bit bit_width (drop_bit pos (unit_word tgt u))), u)"
    using unit_get_word [OF i len, of tgt] by (simp add: pos_def word_get_def)
  obtain u' where u': "unit_set tgt bit_offset bit_width val u = (Ok (), u')" "length (storage u') = length (storage u)"
      "unit_word tgt u' = word_set (field_pos tgt bit_offset bit_width u) bit_width val (unit_word tgt u)"
    by (rule unit_set_word [OF i len, where tgt = tgt and v = val])
  have "storage u' = (if big_endian tgt then be_bytes (length (storage u)) else le_bytes (length (storage u))) (unit_word tgt u')"
    using unit_word_storage [of u' tgt] u'(2) len by (cases "big_endian tgt") simp_all
  then have "u' = \<lparr>storage = (if big_endian tgt then be_bytes (length (storage u)) else le_bytes (length (storage u)))
      (word_set pos bit_width val (unit_word tgt u))\<rparr>"
    using u'(3) by (cases u') (simp add: pos_def)
  then show "unit_set tgt bit_offset bit_width val u = (Ok (), \<lparr>storage =
      (if big_endian tgt then be_bytes (length (storage u)) else le_bytes (length (storage u)))
        ((unit_word tgt u AND NOT (push_bit pos (mask bit_width))) OR push_bit pos (take_bit bit_width val))\<rparr>)"
    using u'(1) by (simp add: word_set_def)
next
  assume "debug_assertions tgt \<and> \<not> (bit_width \<le> 64 \<and> bit_offset div 8 < length (storage u)
    \<and> (bit_offset + bit_width) div 8 \<le> length (storage u))"
  then have "assert_field tgt bit_offset bit_width u = (Panic, u)" using assert_field_panics by blast
  then show "unit_get tgt bit_offset bit_width u = (Panic, u)" "unit_set tgt bit_offset bit_width val u = (Panic, u)"
    by (simp_all add: unit_get_def unit_set_def bindM_def)
qed (simp_all add: raw_eq)

theorem unit_shift_mask_witness:
  "unit_get \<lparr>big_endian = False, debug_assertions = True\<rparr> 4 4 \<lparr>storage = [0x45]\<rparr> = (Ok 4, \<lparr>storage = [0x45]\<rparr>)
   \<and> unit_get \<lparr>big_endian = True, debug_assertions = False\<rparr> 4 4 \<lparr>storage = [0x45]\<rparr> = (Ok 5, \<lparr>storage = [0x45]\<rparr>)
   \<and> unit_get \<lparr>big_endian = False, debug_assertions = True\<rparr> 8 0 \<lparr>storage = [0x45]\<rparr> = (Panic, \<lparr>storage = [0x45]\<rparr>)"
  using unit_shift_mask [of 4 4 "\<lparr>storage = [0x45]\<rparr>" "\<lparr>big_endian = False, debug_assertions = True\<rparr>" 0]
    unit_shift_mask [of 4 4 "\<lparr>storage = [0x45]\<rparr>" "\<lparr>big_endian = True, debug_assertions = False\<rparr>" 0]
    unit_shift_mask [of 0 8 "\<lparr>storage = [0x45]\<rparr>" "\<lparr>big_endian = False, debug_assertions = True\<rparr>" 0]
  by (simp add: field_pos_def unit_word_def of_be_def drop_bit_eq_div take_bit_eq_mod)

end
