(* ===== verification/Vmlinux_Net.thy ===== *)
theory Vmlinux_Net
  imports Vmlinux_Prog Bitfield_Word
begin

text \<open>
  Structs of the kernel bindings (\<open>cilium-mini-ebpf/src/vmlinux.rs\<close>) for sockets and for profiling, in
  the style of \<open>Vmlinux\<close>: IPv4 options, a connection request, the receive options of an IPv6 socket, the
  attributes of a perf event and the source of a sampled memory access. Members whose type is another
  struct are their bytes; pointers and one-word unions are words. Two of the bit-field structs are in a
  union with an integer. The unions at the end are those of all three theories.
\<close>

section \<open>Structs\<close>

record ip_options =
  ipo_faddr :: u32
  ipo_nexthop :: u32
  ipo_optlen :: u8
  ipo_srr :: u8
  ipo_rr :: u8
  ipo_ts :: u8
  ip_options_bitfield_1 :: BindgenBitfieldUnit
  ipo_router_alert :: u8
  ipo_cipso :: u8
  ipo_pad2 :: u8
  ipo_data :: bytes

record inet_request_sock =
  ireq_req :: bytes
  inet_request_sock_bitfield_1 :: BindgenBitfieldUnit
  ireq_mark :: u32
  ireq_anon_1 :: "u64 \<times> u64"

record ipv6_rxopt_bits =
  ipv6_rxopt_bitfield_1 :: BindgenBitfieldUnit

record perf_event_attr =
  attr_type :: u32
  attr_size :: u32
  attr_config :: u64
  attr_anon_1 :: u64
  attr_sample_type :: u64
  attr_read_format :: u64
  perf_event_attr_bitfield_1 :: BindgenBitfieldUnit
  attr_anon_2 :: u32
  attr_bp_type :: u32
  attr_anon_3 :: u64
  attr_anon_4 :: u64
  attr_branch_sample_type :: u64
  attr_sample_regs_user :: u64
  attr_sample_stack_user :: u32
  attr_clockid :: u32
  attr_sample_regs_intr :: u64
  attr_aux_watermark :: u32
  attr_sample_max_stack :: u16
  attr_reserved_2 :: u16
  attr_aux_sample_size :: u32
  attr_anon_5 :: u32
  attr_sig_data :: u64
  attr_config3 :: u64
  attr_config4 :: u64

record perf_mem_bits =
  perf_mem_bitfield_1 :: BindgenBitfieldUnit

text \<open>The unions: the integer in the target's byte order, and the bit-field struct, over the same bytes.\<close>

definition native :: "target \<Rightarrow> bytes \<Rightarrow> 'a::len word" where
  "native tgt mem = (if big_endian tgt then of_be mem else of_le mem)"

definition ipv6_rxopt_all :: "target \<Rightarrow> bytes \<Rightarrow> u16" where
  "ipv6_rxopt_all tgt mem = union_field_ref (native tgt) mem"

definition ipv6_rxopt_view :: "bytes \<Rightarrow> ipv6_rxopt_bits" where
  "ipv6_rxopt_view mem = union_field_ref (\<lambda>m. \<lparr>ipv6_rxopt_bitfield_1 = \<lparr>storage = m\<rparr>\<rparr>) mem"

definition perf_mem_val :: "target \<Rightarrow> bytes \<Rightarrow> u64" where
  "perf_mem_val tgt mem = union_field_ref (native tgt) mem"

definition perf_mem_view :: "bytes \<Rightarrow> perf_mem_bits" where
  "perf_mem_view mem = union_field_ref (\<lambda>m. \<lparr>perf_mem_bitfield_1 = \<lparr>storage = m\<rparr>\<rparr>) mem"

section \<open>Bit-fields\<close>

text \<open>\<open>ip_options\<close>, lines 36596 to 36831.\<close>

definition ip_options_is_strictroute :: "target \<Rightarrow> (ip_options, u8) accessor" where
  "ip_options_is_strictroute tgt = bitfield tgt ip_options_bitfield_1 ip_options_bitfield_1_update 0 1"

definition ip_options_srr_is_hit :: "target \<Rightarrow> (ip_options, u8) accessor" where
  "ip_options_srr_is_hit tgt = bitfield tgt ip_options_bitfield_1 ip_options_bitfield_1_update 1 1"

definition ip_options_is_changed :: "target \<Rightarrow> (ip_options, u8) accessor" where
  "ip_options_is_changed tgt = bitfield tgt ip_options_bitfield_1 ip_options_bitfield_1_update 2 1"

definition ip_options_rr_needaddr :: "target \<Rightarrow> (ip_options, u8) accessor" where
  "ip_options_rr_needaddr tgt = bitfield tgt ip_options_bitfield_1 ip_options_bitfield_1_update 3 1"

definition ip_options_ts_needtime :: "target \<Rightarrow> (ip_options, u8) accessor" where
  "ip_options_ts_needtime tgt = bitfield tgt ip_options_bitfield_1 ip_options_bitfield_1_update 4 1"

definition ip_options_ts_needaddr :: "target \<Rightarrow> (ip_options, u8) accessor" where
  "ip_options_ts_needaddr tgt = bitfield tgt ip_options_bitfield_1 ip_options_bitfield_1_update 5 1"

definition ip_options_new_bitfield_1 ::
  "target \<Rightarrow> u8 \<Rightarrow> u8 \<Rightarrow> u8 \<Rightarrow> u8 \<Rightarrow> u8 \<Rightarrow> u8
    \<Rightarrow> (unit, unit) outcome \<times> BindgenBitfieldUnit" where
  "ip_options_new_bitfield_1 tgt is_strictroute srr_is_hit is_changed rr_needaddr ts_needtime ts_needaddr =
     new_bitfield tgt 1
     [(0, 1, ucast is_strictroute), (1, 1, ucast srr_is_hit), (2, 1, ucast is_changed), (3, 1, ucast
      rr_needaddr), (4, 1, ucast ts_needtime), (5, 1, ucast ts_needaddr)]"

definition ip_options_fields :: "target \<Rightarrow> (ip_options, u8) accessor list" where
  "ip_options_fields tgt =
     [ip_options_is_strictroute tgt, ip_options_srr_is_hit tgt, ip_options_is_changed tgt,
     ip_options_rr_needaddr tgt, ip_options_ts_needtime tgt, ip_options_ts_needaddr tgt]"

definition ip_options_ranges :: "(nat \<times> nat) list" where
  "ip_options_ranges =
     [(0, 1), (1, 1), (2, 1), (3, 1), (4, 1), (5, 1)]"

text \<open>\<open>inet_request_sock\<close>, lines 38349 to 38698.\<close>

definition inet_request_sock_snd_wscale :: "target \<Rightarrow> (inet_request_sock, u16) accessor" where
  "inet_request_sock_snd_wscale tgt = bitfield tgt inet_request_sock_bitfield_1 inet_request_sock_bitfield_1_update 0 4"

definition inet_request_sock_rcv_wscale :: "target \<Rightarrow> (inet_request_sock, u16) accessor" where
  "inet_request_sock_rcv_wscale tgt = bitfield tgt inet_request_sock_bitfield_1 inet_request_sock_bitfield_1_update 4 4"

definition inet_request_sock_tstamp_ok :: "target \<Rightarrow> (inet_request_sock, u16) accessor" where
  "inet_request_sock_tstamp_ok tgt = bitfield tgt inet_request_sock_bitfield_1 inet_request_sock_bitfield_1_update 8 1"

definition inet_request_sock_sack_ok :: "target \<Rightarrow> (inet_request_sock, u16) accessor" where
  "inet_request_sock_sack_ok tgt = bitfield tgt inet_request_sock_bitfield_1 inet_request_sock_bitfield_1_update 9 1"

definition inet_request_sock_wscale_ok :: "target \<Rightarrow> (inet_request_sock, u16) accessor" where
  "inet_request_sock_wscale_ok tgt = bitfield tgt inet_request_sock_bitfield_1 inet_request_sock_bitfield_1_update 10 1"

definition inet_request_sock_ecn_ok :: "target \<Rightarrow> (inet_request_sock, u16) accessor" where
  "inet_request_sock_ecn_ok tgt = bitfield tgt inet_request_sock_bitfield_1 inet_request_sock_bitfield_1_update 11 1"

definition inet_request_sock_acked :: "target \<Rightarrow> (inet_request_sock, u16) accessor" where
  "inet_request_sock_acked tgt = bitfield tgt inet_request_sock_bitfield_1 inet_request_sock_bitfield_1_update 12 1"

definition inet_request_sock_no_srccheck :: "target \<Rightarrow> (inet_request_sock, u16) accessor" where
  "inet_request_sock_no_srccheck tgt = bitfield tgt inet_request_sock_bitfield_1 inet_request_sock_bitfield_1_update 13 1"

definition inet_request_sock_smc_ok :: "target \<Rightarrow> (inet_request_sock, u16) accessor" where
  "inet_request_sock_smc_ok tgt = bitfield tgt inet_request_sock_bitfield_1 inet_request_sock_bitfield_1_update 14 1"

definition inet_request_sock_new_bitfield_1 ::
  "target \<Rightarrow> u16 \<Rightarrow> u16 \<Rightarrow> u16 \<Rightarrow> u16 \<Rightarrow> u16 \<Rightarrow>
    u16 \<Rightarrow> u16 \<Rightarrow> u16 \<Rightarrow> u16 \<Rightarrow> (unit, unit) outcome \<times>
    BindgenBitfieldUnit" where
  "inet_request_sock_new_bitfield_1 tgt snd_wscale rcv_wscale tstamp_ok sack_ok wscale_ok ecn_ok acked
    no_srccheck smc_ok =
     new_bitfield tgt 2
     [(0, 4, ucast snd_wscale), (4, 4, ucast rcv_wscale), (8, 1, ucast tstamp_ok), (9, 1, ucast sack_ok), (10,
      1, ucast wscale_ok), (11, 1, ucast ecn_ok), (12, 1, ucast acked), (13, 1, ucast no_srccheck), (14, 1,
      ucast smc_ok)]"

definition inet_request_sock_fields :: "target \<Rightarrow> (inet_request_sock, u16) accessor list" where
  "inet_request_sock_fields tgt =
     [inet_request_sock_snd_wscale tgt, inet_request_sock_rcv_wscale tgt, inet_request_sock_tstamp_ok tgt,
     inet_request_sock_sack_ok tgt, inet_request_sock_wscale_ok tgt, inet_request_sock_ecn_ok tgt,
     inet_request_sock_acked tgt, inet_request_sock_no_srccheck tgt, inet_request_sock_smc_ok tgt]"

definition inet_request_sock_ranges :: "(nat \<times> nat) list" where
  "inet_request_sock_ranges =
     [(0, 4), (4, 4), (8, 1), (9, 1), (10, 1), (11, 1), (12, 1), (13, 1), (14, 1)]"

text \<open>\<open>ipv6_pinfo__bindgen_ty_2__bindgen_ty_1\<close>, lines 41698 to 42275.\<close>

definition ipv6_rxopt_srcrt :: "target \<Rightarrow> (ipv6_rxopt_bits, u16) accessor" where
  "ipv6_rxopt_srcrt tgt = bitfield tgt ipv6_rxopt_bitfield_1 ipv6_rxopt_bitfield_1_update 0 1"

definition ipv6_rxopt_osrcrt :: "target \<Rightarrow> (ipv6_rxopt_bits, u16) accessor" where
  "ipv6_rxopt_osrcrt tgt = bitfield tgt ipv6_rxopt_bitfield_1 ipv6_rxopt_bitfield_1_update 1 1"

definition ipv6_rxopt_rxinfo :: "target \<Rightarrow> (ipv6_rxopt_bits, u16) accessor" where
  "ipv6_rxopt_rxinfo tgt = bitfield tgt ipv6_rxopt_bitfield_1 ipv6_rxopt_bitfield_1_update 2 1"

definition ipv6_rxopt_rxoinfo :: "target \<Rightarrow> (ipv6_rxopt_bits, u16) accessor" where
  "ipv6_rxopt_rxoinfo tgt = bitfield tgt ipv6_rxopt_bitfield_1 ipv6_rxopt_bitfield_1_update 3 1"

definition ipv6_rxopt_rxhlim :: "target \<Rightarrow> (ipv6_rxopt_bits, u16) accessor" where
  "ipv6_rxopt_rxhlim tgt = bitfield tgt ipv6_rxopt_bitfield_1 ipv6_rxopt_bitfield_1_update 4 1"

definition ipv6_rxopt_rxohlim :: "target \<Rightarrow> (ipv6_rxopt_bits, u16) accessor" where
  "ipv6_rxopt_rxohlim tgt = bitfield tgt ipv6_rxopt_bitfield_1 ipv6_rxopt_bitfield_1_update 5 1"

definition ipv6_rxopt_hopopts :: "target \<Rightarrow> (ipv6_rxopt_bits, u16) accessor" where
  "ipv6_rxopt_hopopts tgt = bitfield tgt ipv6_rxopt_bitfield_1 ipv6_rxopt_bitfield_1_update 6 1"

definition ipv6_rxopt_ohopopts :: "target \<Rightarrow> (ipv6_rxopt_bits, u16) accessor" where
  "ipv6_rxopt_ohopopts tgt = bitfield tgt ipv6_rxopt_bitfield_1 ipv6_rxopt_bitfield_1_update 7 1"

definition ipv6_rxopt_dstopts :: "target \<Rightarrow> (ipv6_rxopt_bits, u16) accessor" where
  "ipv6_rxopt_dstopts tgt = bitfield tgt ipv6_rxopt_bitfield_1 ipv6_rxopt_bitfield_1_update 8 1"

definition ipv6_rxopt_odstopts :: "target \<Rightarrow> (ipv6_rxopt_bits, u16) accessor" where
  "ipv6_rxopt_odstopts tgt = bitfield tgt ipv6_rxopt_bitfield_1 ipv6_rxopt_bitfield_1_update 9 1"

definition ipv6_rxopt_rxflow :: "target \<Rightarrow> (ipv6_rxopt_bits, u16) accessor" where
  "ipv6_rxopt_rxflow tgt = bitfield tgt ipv6_rxopt_bitfield_1 ipv6_rxopt_bitfield_1_update 10 1"

definition ipv6_rxopt_rxtclass :: "target \<Rightarrow> (ipv6_rxopt_bits, u16) accessor" where
  "ipv6_rxopt_rxtclass tgt = bitfield tgt ipv6_rxopt_bitfield_1 ipv6_rxopt_bitfield_1_update 11 1"

definition ipv6_rxopt_rxpmtu :: "target \<Rightarrow> (ipv6_rxopt_bits, u16) accessor" where
  "ipv6_rxopt_rxpmtu tgt = bitfield tgt ipv6_rxopt_bitfield_1 ipv6_rxopt_bitfield_1_update 12 1"

definition ipv6_rxopt_rxorigdstaddr :: "target \<Rightarrow> (ipv6_rxopt_bits, u16) accessor" where
  "ipv6_rxopt_rxorigdstaddr tgt = bitfield tgt ipv6_rxopt_bitfield_1 ipv6_rxopt_bitfield_1_update 13 1"

definition ipv6_rxopt_recvfragsize :: "target \<Rightarrow> (ipv6_rxopt_bits, u16) accessor" where
  "ipv6_rxopt_recvfragsize tgt = bitfield tgt ipv6_rxopt_bitfield_1 ipv6_rxopt_bitfield_1_update 14 1"

definition ipv6_rxopt_new_bitfield_1 ::
  "target \<Rightarrow> u16 \<Rightarrow> u16 \<Rightarrow> u16 \<Rightarrow> u16 \<Rightarrow> u16 \<Rightarrow>
    u16 \<Rightarrow> u16 \<Rightarrow> u16 \<Rightarrow> u16 \<Rightarrow> u16 \<Rightarrow> u16 \<Rightarrow>
    u16 \<Rightarrow> u16 \<Rightarrow> u16 \<Rightarrow> u16 \<Rightarrow> (unit, unit) outcome \<times>
    BindgenBitfieldUnit" where
  "ipv6_rxopt_new_bitfield_1 tgt srcrt osrcrt rxinfo rxoinfo rxhlim rxohlim hopopts ohopopts dstopts
    odstopts rxflow rxtclass rxpmtu rxorigdstaddr recvfragsize =
     new_bitfield tgt 2
     [(0, 1, ucast srcrt), (1, 1, ucast osrcrt), (2, 1, ucast rxinfo), (3, 1, ucast rxoinfo), (4, 1, ucast
      rxhlim), (5, 1, ucast rxohlim), (6, 1, ucast hopopts), (7, 1, ucast ohopopts), (8, 1, ucast dstopts), (9,
      1, ucast odstopts), (10, 1, ucast rxflow), (11, 1, ucast rxtclass), (12, 1, ucast rxpmtu), (13, 1, ucast
      rxorigdstaddr), (14, 1, ucast recvfragsize)]"

definition ipv6_rxopt_fields :: "target \<Rightarrow> (ipv6_rxopt_bits, u16) accessor list" where
  "ipv6_rxopt_fields tgt =
     [ipv6_rxopt_srcrt tgt, ipv6_rxopt_osrcrt tgt, ipv6_rxopt_rxinfo tgt, ipv6_rxopt_rxoinfo tgt,
     ipv6_rxopt_rxhlim tgt, ipv6_rxopt_rxohlim tgt, ipv6_rxopt_hopopts tgt, ipv6_rxopt_ohopopts tgt,
     ipv6_rxopt_dstopts tgt, ipv6_rxopt_odstopts tgt, ipv6_rxopt_rxflow tgt, ipv6_rxopt_rxtclass tgt,
     ipv6_rxopt_rxpmtu tgt, ipv6_rxopt_rxorigdstaddr tgt, ipv6_rxopt_recvfragsize tgt]"

definition ipv6_rxopt_ranges :: "(nat \<times> nat) list" where
  "ipv6_rxopt_ranges =
     [(0, 1), (1, 1), (2, 1), (3, 1), (4, 1), (5, 1), (6, 1), (7, 1), (8, 1), (9, 1), (10, 1), (11, 1), (12,
     1), (13, 1), (14, 1)]"

text \<open>\<open>perf_event_attr\<close>, lines 52532 to 54061.\<close>

definition perf_event_attr_disabled :: "target \<Rightarrow> (perf_event_attr, u64) accessor" where
  "perf_event_attr_disabled tgt = bitfield tgt perf_event_attr_bitfield_1 perf_event_attr_bitfield_1_update 0 1"

definition perf_event_attr_inherit :: "target \<Rightarrow> (perf_event_attr, u64) accessor" where
  "perf_event_attr_inherit tgt = bitfield tgt perf_event_attr_bitfield_1 perf_event_attr_bitfield_1_update 1 1"

definition perf_event_attr_pinned :: "target \<Rightarrow> (perf_event_attr, u64) accessor" where
  "perf_event_attr_pinned tgt = bitfield tgt perf_event_attr_bitfield_1 perf_event_attr_bitfield_1_update 2 1"

definition perf_event_attr_exclusive :: "target \<Rightarrow> (perf_event_attr, u64) accessor" where
  "perf_event_attr_exclusive tgt = bitfield tgt perf_event_attr_bitfield_1 perf_event_attr_bitfield_1_update 3 1"

definition perf_event_attr_exclude_user :: "target \<Rightarrow> (perf_event_attr, u64) accessor" where
  "perf_event_attr_exclude_user tgt = bitfield tgt perf_event_attr_bitfield_1 perf_event_attr_bitfield_1_update 4 1"

definition perf_event_attr_exclude_kernel :: "target \<Rightarrow> (perf_event_attr, u64) accessor" where
  "perf_event_attr_exclude_kernel tgt = bitfield tgt perf_event_attr_bitfield_1 perf_event_attr_bitfield_1_update 5 1"

definition perf_event_attr_exclude_hv :: "target \<Rightarrow> (perf_event_attr, u64) accessor" where
  "perf_event_attr_exclude_hv tgt = bitfield tgt perf_event_attr_bitfield_1 perf_event_attr_bitfield_1_update 6 1"

definition perf_event_attr_exclude_idle :: "target \<Rightarrow> (perf_event_attr, u64) accessor" where
  "perf_event_attr_exclude_idle tgt = bitfield tgt perf_event_attr_bitfield_1 perf_event_attr_bitfield_1_update 7 1"

definition perf_event_attr_mmap :: "target \<Rightarrow> (perf_event_attr, u64) accessor" where
  "perf_event_attr_mmap tgt = bitfield tgt perf_event_attr_bitfield_1 perf_event_attr_bitfield_1_update 8 1"

definition perf_event_attr_comm :: "target \<Rightarrow> (perf_event_attr, u64) accessor" where
  "perf_event_attr_comm tgt = bitfield tgt perf_event_attr_bitfield_1 perf_event_attr_bitfield_1_update 9 1"

definition perf_event_attr_freq :: "target \<Rightarrow> (perf_event_attr, u64) accessor" where
  "perf_event_attr_freq tgt = bitfield tgt perf_event_attr_bitfield_1 perf_event_attr_bitfield_1_update 10 1"

definition perf_event_attr_inherit_stat :: "target \<Rightarrow> (perf_event_attr, u64) accessor" where
  "perf_event_attr_inherit_stat tgt = bitfield tgt perf_event_attr_bitfield_1 perf_event_attr_bitfield_1_update 11 1"

definition perf_event_attr_enable_on_exec :: "target \<Rightarrow> (perf_event_attr, u64) accessor" where
  "perf_event_attr_enable_on_exec tgt = bitfield tgt perf_event_attr_bitfield_1 perf_event_attr_bitfield_1_update 12 1"

definition perf_event_attr_task :: "target \<Rightarrow> (perf_event_attr, u64) accessor" where
  "perf_event_attr_task tgt = bitfield tgt perf_event_attr_bitfield_1 perf_event_attr_bitfield_1_update 13 1"

definition perf_event_attr_watermark :: "target \<Rightarrow> (perf_event_attr, u64) accessor" where
  "perf_event_attr_watermark tgt = bitfield tgt perf_event_attr_bitfield_1 perf_event_attr_bitfield_1_update 14 1"

definition perf_event_attr_precise_ip :: "target \<Rightarrow> (perf_event_attr, u64) accessor" where
  "perf_event_attr_precise_ip tgt = bitfield tgt perf_event_attr_bitfield_1 perf_event_attr_bitfield_1_update 15 2"

definition perf_event_attr_mmap_data :: "target \<Rightarrow> (perf_event_attr, u64) accessor" where
  "perf_event_attr_mmap_data tgt = bitfield tgt perf_event_attr_bitfield_1 perf_event_attr_bitfield_1_update 17 1"

definition perf_event_attr_sample_id_all :: "target \<Rightarrow> (perf_event_attr, u64) accessor" where
  "perf_event_attr_sample_id_all tgt = bitfield tgt perf_event_attr_bitfield_1 perf_event_attr_bitfield_1_update 18 1"

definition perf_event_attr_exclude_host :: "target \<Rightarrow> (perf_event_attr, u64) accessor" where
  "perf_event_attr_exclude_host tgt = bitfield tgt perf_event_attr_bitfield_1 perf_event_attr_bitfield_1_update 19 1"

definition perf_event_attr_exclude_guest :: "target \<Rightarrow> (perf_event_attr, u64) accessor" where
  "perf_event_attr_exclude_guest tgt = bitfield tgt perf_event_attr_bitfield_1 perf_event_attr_bitfield_1_update 20 1"

definition perf_event_attr_exclude_callchain_kernel :: "target \<Rightarrow> (perf_event_attr, u64) accessor" where
  "perf_event_attr_exclude_callchain_kernel tgt = bitfield tgt perf_event_attr_bitfield_1 perf_event_attr_bitfield_1_update 21 1"

definition perf_event_attr_exclude_callchain_user :: "target \<Rightarrow> (perf_event_attr, u64) accessor" where
  "perf_event_attr_exclude_callchain_user tgt = bitfield tgt perf_event_attr_bitfield_1 perf_event_attr_bitfield_1_update 22 1"

definition perf_event_attr_mmap2 :: "target \<Rightarrow> (perf_event_attr, u64) accessor" where
  "perf_event_attr_mmap2 tgt = bitfield tgt perf_event_attr_bitfield_1 perf_event_attr_bitfield_1_update 23 1"

definition perf_event_attr_comm_exec :: "target \<Rightarrow> (perf_event_attr, u64) accessor" where
  "perf_event_attr_comm_exec tgt = bitfield tgt perf_event_attr_bitfield_1 perf_event_attr_bitfield_1_update 24 1"

definition perf_event_attr_use_clockid :: "target \<Rightarrow> (perf_event_attr, u64) accessor" where
  "perf_event_attr_use_clockid tgt = bitfield tgt perf_event_attr_bitfield_1 perf_event_attr_bitfield_1_update 25 1"

definition perf_event_attr_context_switch :: "target \<Rightarrow> (perf_event_attr, u64) accessor" where
  "perf_event_attr_context_switch tgt = bitfield tgt perf_event_attr_bitfield_1 perf_event_attr_bitfield_1_update 26 1"

definition perf_event_attr_write_backward :: "target \<Rightarrow> (perf_event_attr, u64) accessor" where
  "perf_event_attr_write_backward tgt = bitfield tgt perf_event_attr_bitfield_1 perf_event_attr_bitfield_1_update 27 1"

definition perf_event_attr_namespaces :: "target \<Rightarrow> (perf_event_attr, u64) accessor" where
  "perf_event_attr_namespaces tgt = bitfield tgt perf_event_attr_bitfield_1 perf_event_attr_bitfield_1_update 28 1"

definition perf_event_attr_ksymbol :: "target \<Rightarrow> (perf_event_attr, u64) accessor" where
  "perf_event_attr_ksymbol tgt = bitfield tgt perf_event_attr_bitfield_1 perf_event_attr_bitfield_1_update 29 1"

definition perf_event_attr_bpf_event :: "target \<Rightarrow> (perf_event_attr, u64) accessor" where
  "perf_event_attr_bpf_event tgt = bitfield tgt perf_event_attr_bitfield_1 perf_event_attr_bitfield_1_update 30 1"

definition perf_event_attr_aux_output :: "target \<Rightarrow> (perf_event_attr, u64) accessor" where
  "perf_event_attr_aux_output tgt = bitfield tgt perf_event_attr_bitfield_1 perf_event_attr_bitfield_1_update 31 1"

definition perf_event_attr_cgroup :: "target \<Rightarrow> (perf_event_attr, u64) accessor" where
  "perf_event_attr_cgroup tgt = bitfield tgt perf_event_attr_bitfield_1 perf_event_attr_bitfield_1_update 32 1"

definition perf_event_attr_text_poke :: "target \<Rightarrow> (perf_event_attr, u64) accessor" where
  "perf_event_attr_text_poke tgt = bitfield tgt perf_event_attr_bitfield_1 perf_event_attr_bitfield_1_update 33 1"

definition perf_event_attr_build_id :: "target \<Rightarrow> (perf_event_attr, u64) accessor" where
  "perf_event_attr_build_id tgt = bitfield tgt perf_event_attr_bitfield_1 perf_event_attr_bitfield_1_update 34 1"

definition perf_event_attr_inherit_thread :: "target \<Rightarrow> (perf_event_attr, u64) accessor" where
  "perf_event_attr_inherit_thread tgt = bitfield tgt perf_event_attr_bitfield_1 perf_event_attr_bitfield_1_update 35 1"

definition perf_event_attr_remove_on_exec :: "target \<Rightarrow> (perf_event_attr, u64) accessor" where
  "perf_event_attr_remove_on_exec tgt = bitfield tgt perf_event_attr_bitfield_1 perf_event_attr_bitfield_1_update 36 1"

definition perf_event_attr_sigtrap :: "target \<Rightarrow> (perf_event_attr, u64) accessor" where
  "perf_event_attr_sigtrap tgt = bitfield tgt perf_event_attr_bitfield_1 perf_event_attr_bitfield_1_update 37 1"

definition perf_event_attr_defer_callchain :: "target \<Rightarrow> (perf_event_attr, u64) accessor" where
  "perf_event_attr_defer_callchain tgt = bitfield tgt perf_event_attr_bitfield_1 perf_event_attr_bitfield_1_update 38 1"

definition perf_event_attr_defer_output :: "target \<Rightarrow> (perf_event_attr, u64) accessor" where
  "perf_event_attr_defer_output tgt = bitfield tgt perf_event_attr_bitfield_1 perf_event_attr_bitfield_1_update 39 1"

definition perf_event_attr_reserved_1 :: "target \<Rightarrow> (perf_event_attr, u64) accessor" where
  "perf_event_attr_reserved_1 tgt = bitfield tgt perf_event_attr_bitfield_1 perf_event_attr_bitfield_1_update 40 24"

definition perf_event_attr_new_bitfield_1 ::
  "target \<Rightarrow> u64 \<Rightarrow> u64 \<Rightarrow> u64 \<Rightarrow> u64 \<Rightarrow> u64 \<Rightarrow>
    u64 \<Rightarrow> u64 \<Rightarrow> u64 \<Rightarrow> u64 \<Rightarrow> u64 \<Rightarrow> u64 \<Rightarrow>
    u64 \<Rightarrow> u64 \<Rightarrow> u64 \<Rightarrow> u64 \<Rightarrow> u64 \<Rightarrow> u64 \<Rightarrow>
    u64 \<Rightarrow> u64 \<Rightarrow> u64 \<Rightarrow> u64 \<Rightarrow> u64 \<Rightarrow> u64 \<Rightarrow>
    u64 \<Rightarrow> u64 \<Rightarrow> u64 \<Rightarrow> u64 \<Rightarrow> u64 \<Rightarrow> u64 \<Rightarrow>
    u64 \<Rightarrow> u64 \<Rightarrow> u64 \<Rightarrow> u64 \<Rightarrow> u64 \<Rightarrow> u64 \<Rightarrow>
    u64 \<Rightarrow> u64 \<Rightarrow> u64 \<Rightarrow> u64 \<Rightarrow> u64 \<Rightarrow> (unit, unit) outcome
    \<times> BindgenBitfieldUnit" where
  "perf_event_attr_new_bitfield_1 tgt disabled inherit pinned exclusive exclude_user exclude_kernel
    exclude_hv exclude_idle mmap comm freq inherit_stat enable_on_exec task watermark precise_ip mmap_data
    sample_id_all exclude_host exclude_guest exclude_callchain_kernel exclude_callchain_user mmap2 comm_exec
    use_clockid context_switch write_backward namespaces ksymbol bpf_event aux_output cgroup text_poke
    build_id inherit_thread remove_on_exec sigtrap defer_callchain defer_output reserved_1 =
     new_bitfield tgt 8
     [(0, 1, ucast disabled), (1, 1, ucast inherit), (2, 1, ucast pinned), (3, 1, ucast exclusive), (4, 1,
      ucast exclude_user), (5, 1, ucast exclude_kernel), (6, 1, ucast exclude_hv), (7, 1, ucast exclude_idle),
      (8, 1, ucast mmap), (9, 1, ucast comm), (10, 1, ucast freq), (11, 1, ucast inherit_stat), (12, 1, ucast
      enable_on_exec), (13, 1, ucast task), (14, 1, ucast watermark), (15, 2, ucast precise_ip), (17, 1, ucast
      mmap_data), (18, 1, ucast sample_id_all), (19, 1, ucast exclude_host), (20, 1, ucast exclude_guest), (21,
      1, ucast exclude_callchain_kernel), (22, 1, ucast exclude_callchain_user), (23, 1, ucast mmap2), (24, 1,
      ucast comm_exec), (25, 1, ucast use_clockid), (26, 1, ucast context_switch), (27, 1, ucast
      write_backward), (28, 1, ucast namespaces), (29, 1, ucast ksymbol), (30, 1, ucast bpf_event), (31, 1,
      ucast aux_output), (32, 1, ucast cgroup), (33, 1, ucast text_poke), (34, 1, ucast build_id), (35, 1,
      ucast inherit_thread), (36, 1, ucast remove_on_exec), (37, 1, ucast sigtrap), (38, 1, ucast
      defer_callchain), (39, 1, ucast defer_output), (40, 24, ucast reserved_1)]"

definition perf_event_attr_fields :: "target \<Rightarrow> (perf_event_attr, u64) accessor list" where
  "perf_event_attr_fields tgt =
     [perf_event_attr_disabled tgt, perf_event_attr_inherit tgt, perf_event_attr_pinned tgt,
     perf_event_attr_exclusive tgt, perf_event_attr_exclude_user tgt, perf_event_attr_exclude_kernel tgt,
     perf_event_attr_exclude_hv tgt, perf_event_attr_exclude_idle tgt, perf_event_attr_mmap tgt,
     perf_event_attr_comm tgt, perf_event_attr_freq tgt, perf_event_attr_inherit_stat tgt,
     perf_event_attr_enable_on_exec tgt, perf_event_attr_task tgt, perf_event_attr_watermark tgt,
     perf_event_attr_precise_ip tgt, perf_event_attr_mmap_data tgt, perf_event_attr_sample_id_all tgt,
     perf_event_attr_exclude_host tgt, perf_event_attr_exclude_guest tgt,
     perf_event_attr_exclude_callchain_kernel tgt, perf_event_attr_exclude_callchain_user tgt,
     perf_event_attr_mmap2 tgt, perf_event_attr_comm_exec tgt, perf_event_attr_use_clockid tgt,
     perf_event_attr_context_switch tgt, perf_event_attr_write_backward tgt, perf_event_attr_namespaces tgt,
     perf_event_attr_ksymbol tgt, perf_event_attr_bpf_event tgt, perf_event_attr_aux_output tgt,
     perf_event_attr_cgroup tgt, perf_event_attr_text_poke tgt, perf_event_attr_build_id tgt,
     perf_event_attr_inherit_thread tgt, perf_event_attr_remove_on_exec tgt, perf_event_attr_sigtrap tgt,
     perf_event_attr_defer_callchain tgt, perf_event_attr_defer_output tgt, perf_event_attr_reserved_1 tgt]"

definition perf_event_attr_ranges :: "(nat \<times> nat) list" where
  "perf_event_attr_ranges =
     [(0, 1), (1, 1), (2, 1), (3, 1), (4, 1), (5, 1), (6, 1), (7, 1), (8, 1), (9, 1), (10, 1), (11, 1), (12,
     1), (13, 1), (14, 1), (15, 2), (17, 1), (18, 1), (19, 1), (20, 1), (21, 1), (22, 1), (23, 1), (24, 1),
     (25, 1), (26, 1), (27, 1), (28, 1), (29, 1), (30, 1), (31, 1), (32, 1), (33, 1), (34, 1), (35, 1), (36,
     1), (37, 1), (38, 1), (39, 1), (40, 24)]"

text \<open>\<open>perf_mem_data_src__bindgen_ty_1\<close>, lines 18020 to 18483.\<close>

definition perf_mem_mem_op :: "target \<Rightarrow> (perf_mem_bits, u64) accessor" where
  "perf_mem_mem_op tgt = bitfield tgt perf_mem_bitfield_1 perf_mem_bitfield_1_update 0 5"

definition perf_mem_mem_lvl :: "target \<Rightarrow> (perf_mem_bits, u64) accessor" where
  "perf_mem_mem_lvl tgt = bitfield tgt perf_mem_bitfield_1 perf_mem_bitfield_1_update 5 14"

definition perf_mem_mem_snoop :: "target \<Rightarrow> (perf_mem_bits, u64) accessor" where
  "perf_mem_mem_snoop tgt = bitfield tgt perf_mem_bitfield_1 perf_mem_bitfield_1_update 19 5"

definition perf_mem_mem_lock :: "target \<Rightarrow> (perf_mem_bits, u64) accessor" where
  "perf_mem_mem_lock tgt = bitfield tgt perf_mem_bitfield_1 perf_mem_bitfield_1_update 24 2"

definition perf_mem_mem_dtlb :: "target \<Rightarrow> (perf_mem_bits, u64) accessor" where
  "perf_mem_mem_dtlb tgt = bitfield tgt perf_mem_bitfield_1 perf_mem_bitfield_1_update 26 7"

definition perf_mem_mem_lvl_num :: "target \<Rightarrow> (perf_mem_bits, u64) accessor" where
  "perf_mem_mem_lvl_num tgt = bitfield tgt perf_mem_bitfield_1 perf_mem_bitfield_1_update 33 4"

definition perf_mem_mem_remote :: "target \<Rightarrow> (perf_mem_bits, u64) accessor" where
  "perf_mem_mem_remote tgt = bitfield tgt perf_mem_bitfield_1 perf_mem_bitfield_1_update 37 1"

definition perf_mem_mem_snoopx :: "target \<Rightarrow> (perf_mem_bits, u64) accessor" where
  "perf_mem_mem_snoopx tgt = bitfield tgt perf_mem_bitfield_1 perf_mem_bitfield_1_update 38 2"

definition perf_mem_mem_blk :: "target \<Rightarrow> (perf_mem_bits, u64) accessor" where
  "perf_mem_mem_blk tgt = bitfield tgt perf_mem_bitfield_1 perf_mem_bitfield_1_update 40 3"

definition perf_mem_mem_hops :: "target \<Rightarrow> (perf_mem_bits, u64) accessor" where
  "perf_mem_mem_hops tgt = bitfield tgt perf_mem_bitfield_1 perf_mem_bitfield_1_update 43 3"

definition perf_mem_mem_region :: "target \<Rightarrow> (perf_mem_bits, u64) accessor" where
  "perf_mem_mem_region tgt = bitfield tgt perf_mem_bitfield_1 perf_mem_bitfield_1_update 46 5"

definition perf_mem_mem_rsvd :: "target \<Rightarrow> (perf_mem_bits, u64) accessor" where
  "perf_mem_mem_rsvd tgt = bitfield tgt perf_mem_bitfield_1 perf_mem_bitfield_1_update 51 13"

definition perf_mem_new_bitfield_1 ::
  "target \<Rightarrow> u64 \<Rightarrow> u64 \<Rightarrow> u64 \<Rightarrow> u64 \<Rightarrow> u64 \<Rightarrow>
    u64 \<Rightarrow> u64 \<Rightarrow> u64 \<Rightarrow> u64 \<Rightarrow> u64 \<Rightarrow> u64 \<Rightarrow>
    u64 \<Rightarrow> (unit, unit) outcome \<times> BindgenBitfieldUnit" where
  "perf_mem_new_bitfield_1 tgt mem_op mem_lvl mem_snoop mem_lock mem_dtlb mem_lvl_num mem_remote mem_snoopx
    mem_blk mem_hops mem_region mem_rsvd =
     new_bitfield tgt 8
     [(0, 5, ucast mem_op), (5, 14, ucast mem_lvl), (19, 5, ucast mem_snoop), (24, 2, ucast mem_lock), (26, 7,
      ucast mem_dtlb), (33, 4, ucast mem_lvl_num), (37, 1, ucast mem_remote), (38, 2, ucast mem_snoopx), (40,
      3, ucast mem_blk), (43, 3, ucast mem_hops), (46, 5, ucast mem_region), (51, 13, ucast mem_rsvd)]"

definition perf_mem_fields :: "target \<Rightarrow> (perf_mem_bits, u64) accessor list" where
  "perf_mem_fields tgt =
     [perf_mem_mem_op tgt, perf_mem_mem_lvl tgt, perf_mem_mem_snoop tgt, perf_mem_mem_lock tgt,
     perf_mem_mem_dtlb tgt, perf_mem_mem_lvl_num tgt, perf_mem_mem_remote tgt, perf_mem_mem_snoopx tgt,
     perf_mem_mem_blk tgt, perf_mem_mem_hops tgt, perf_mem_mem_region tgt, perf_mem_mem_rsvd tgt]"

definition perf_mem_ranges :: "(nat \<times> nat) list" where
  "perf_mem_ranges =
     [(0, 5), (5, 14), (19, 5), (24, 2), (26, 7), (33, 4), (37, 1), (38, 2), (40, 3), (43, 3), (46, 5), (51,
     13)]"

section \<open>The tables match the methods\<close>

interpretation ip_options_bits: bitfield_struct ip_options_bitfield_1 ip_options_bitfield_1_update 1
    ip_options_fields ip_options_ranges
  by unfold_locales (simp_all add: fields_ok_def ip_options_fields_def ip_options_ranges_def
      ip_options_is_strictroute_def ip_options_srr_is_hit_def ip_options_is_changed_def
      ip_options_rr_needaddr_def ip_options_ts_needtime_def ip_options_ts_needaddr_def)

lemma ip_options_constructs:
  "constructs ip_options_bitfield_1 1 ip_options_fields ip_options_ranges tgt
       [is_strictroute, srr_is_hit, is_changed, rr_needaddr, ts_needtime, ts_needaddr]
       (ip_options_new_bitfield_1 tgt is_strictroute srr_is_hit is_changed rr_needaddr ts_needtime ts_needaddr)"
  by (rule ip_options_bits.new_constructs) (simp_all add: ip_options_new_bitfield_1_def ip_options_ranges_def)

interpretation inet_request_sock_bits: bitfield_struct inet_request_sock_bitfield_1 inet_request_sock_bitfield_1_update 2
    inet_request_sock_fields inet_request_sock_ranges
  by unfold_locales (simp_all add: fields_ok_def inet_request_sock_fields_def inet_request_sock_ranges_def
      inet_request_sock_snd_wscale_def inet_request_sock_rcv_wscale_def inet_request_sock_tstamp_ok_def
      inet_request_sock_sack_ok_def inet_request_sock_wscale_ok_def inet_request_sock_ecn_ok_def
      inet_request_sock_acked_def inet_request_sock_no_srccheck_def inet_request_sock_smc_ok_def)

lemma inet_request_sock_constructs:
  "constructs inet_request_sock_bitfield_1 2 inet_request_sock_fields inet_request_sock_ranges tgt
       [snd_wscale, rcv_wscale, tstamp_ok, sack_ok, wscale_ok, ecn_ok, acked, no_srccheck, smc_ok]
       (inet_request_sock_new_bitfield_1 tgt snd_wscale rcv_wscale tstamp_ok sack_ok wscale_ok ecn_ok acked no_srccheck smc_ok)"
  by (rule inet_request_sock_bits.new_constructs) (simp_all add: inet_request_sock_new_bitfield_1_def inet_request_sock_ranges_def)

interpretation ipv6_rxopt_bits: bitfield_struct ipv6_rxopt_bitfield_1 ipv6_rxopt_bitfield_1_update 2
    ipv6_rxopt_fields ipv6_rxopt_ranges
  by unfold_locales (simp_all add: fields_ok_def ipv6_rxopt_fields_def ipv6_rxopt_ranges_def
      ipv6_rxopt_srcrt_def ipv6_rxopt_osrcrt_def ipv6_rxopt_rxinfo_def ipv6_rxopt_rxoinfo_def
      ipv6_rxopt_rxhlim_def ipv6_rxopt_rxohlim_def ipv6_rxopt_hopopts_def ipv6_rxopt_ohopopts_def
      ipv6_rxopt_dstopts_def ipv6_rxopt_odstopts_def ipv6_rxopt_rxflow_def ipv6_rxopt_rxtclass_def
      ipv6_rxopt_rxpmtu_def ipv6_rxopt_rxorigdstaddr_def ipv6_rxopt_recvfragsize_def)

lemma ipv6_rxopt_constructs:
  "constructs ipv6_rxopt_bitfield_1 2 ipv6_rxopt_fields ipv6_rxopt_ranges tgt
       [srcrt, osrcrt, rxinfo, rxoinfo, rxhlim, rxohlim, hopopts, ohopopts, dstopts, odstopts, rxflow, rxtclass,
        rxpmtu, rxorigdstaddr, recvfragsize]
       (ipv6_rxopt_new_bitfield_1 tgt srcrt osrcrt rxinfo rxoinfo rxhlim rxohlim hopopts ohopopts dstopts odstopts rxflow rxtclass rxpmtu
        rxorigdstaddr recvfragsize)"
  by (rule ipv6_rxopt_bits.new_constructs) (simp_all add: ipv6_rxopt_new_bitfield_1_def ipv6_rxopt_ranges_def)

interpretation perf_event_attr_bits: bitfield_struct perf_event_attr_bitfield_1 perf_event_attr_bitfield_1_update 8
    perf_event_attr_fields perf_event_attr_ranges
  by unfold_locales (simp_all add: fields_ok_def perf_event_attr_fields_def perf_event_attr_ranges_def
      perf_event_attr_disabled_def perf_event_attr_inherit_def perf_event_attr_pinned_def
      perf_event_attr_exclusive_def perf_event_attr_exclude_user_def perf_event_attr_exclude_kernel_def
      perf_event_attr_exclude_hv_def perf_event_attr_exclude_idle_def perf_event_attr_mmap_def
      perf_event_attr_comm_def perf_event_attr_freq_def perf_event_attr_inherit_stat_def
      perf_event_attr_enable_on_exec_def perf_event_attr_task_def perf_event_attr_watermark_def
      perf_event_attr_precise_ip_def perf_event_attr_mmap_data_def perf_event_attr_sample_id_all_def
      perf_event_attr_exclude_host_def perf_event_attr_exclude_guest_def
      perf_event_attr_exclude_callchain_kernel_def perf_event_attr_exclude_callchain_user_def
      perf_event_attr_mmap2_def perf_event_attr_comm_exec_def perf_event_attr_use_clockid_def
      perf_event_attr_context_switch_def perf_event_attr_write_backward_def perf_event_attr_namespaces_def
      perf_event_attr_ksymbol_def perf_event_attr_bpf_event_def perf_event_attr_aux_output_def
      perf_event_attr_cgroup_def perf_event_attr_text_poke_def perf_event_attr_build_id_def
      perf_event_attr_inherit_thread_def perf_event_attr_remove_on_exec_def perf_event_attr_sigtrap_def
      perf_event_attr_defer_callchain_def perf_event_attr_defer_output_def perf_event_attr_reserved_1_def)

lemma perf_event_attr_constructs:
  "constructs perf_event_attr_bitfield_1 8 perf_event_attr_fields perf_event_attr_ranges tgt
       [disabled, inherit, pinned, exclusive, exclude_user, exclude_kernel, exclude_hv, exclude_idle, mmap, comm,
        freq, inherit_stat, enable_on_exec, task, watermark, precise_ip, mmap_data, sample_id_all, exclude_host,
        exclude_guest, exclude_callchain_kernel, exclude_callchain_user, mmap2, comm_exec, use_clockid,
        context_switch, write_backward, namespaces, ksymbol, bpf_event, aux_output, cgroup, text_poke, build_id,
        inherit_thread, remove_on_exec, sigtrap, defer_callchain, defer_output, reserved_1]
       (perf_event_attr_new_bitfield_1 tgt disabled inherit pinned exclusive exclude_user exclude_kernel exclude_hv exclude_idle mmap comm freq
        inherit_stat enable_on_exec task watermark precise_ip mmap_data sample_id_all exclude_host exclude_guest
        exclude_callchain_kernel exclude_callchain_user mmap2 comm_exec use_clockid context_switch write_backward
        namespaces ksymbol bpf_event aux_output cgroup text_poke build_id inherit_thread remove_on_exec sigtrap
        defer_callchain defer_output reserved_1)"
  by (rule perf_event_attr_bits.new_constructs) (simp_all add: perf_event_attr_new_bitfield_1_def perf_event_attr_ranges_def)

interpretation perf_mem_bits: bitfield_struct perf_mem_bitfield_1 perf_mem_bitfield_1_update 8
    perf_mem_fields perf_mem_ranges
  by unfold_locales (simp_all add: fields_ok_def perf_mem_fields_def perf_mem_ranges_def
      perf_mem_mem_op_def perf_mem_mem_lvl_def perf_mem_mem_snoop_def perf_mem_mem_lock_def
      perf_mem_mem_dtlb_def perf_mem_mem_lvl_num_def perf_mem_mem_remote_def perf_mem_mem_snoopx_def
      perf_mem_mem_blk_def perf_mem_mem_hops_def perf_mem_mem_region_def perf_mem_mem_rsvd_def)

lemma perf_mem_constructs:
  "constructs perf_mem_bitfield_1 8 perf_mem_fields perf_mem_ranges tgt
       [mem_op, mem_lvl, mem_snoop, mem_lock, mem_dtlb, mem_lvl_num, mem_remote, mem_snoopx, mem_blk, mem_hops,
        mem_region, mem_rsvd]
       (perf_mem_new_bitfield_1 tgt mem_op mem_lvl mem_snoop mem_lock mem_dtlb mem_lvl_num mem_remote mem_snoopx mem_blk mem_hops mem_region
        mem_rsvd)"
  by (rule perf_mem_bits.new_constructs) (simp_all add: perf_mem_new_bitfield_1_def perf_mem_ranges_def)

text \<open>A field of a unit as a shift and a mask of the integer beside it.\<close>

lemma field_of_word:
  fixes val :: "'v::len word"
  assumes "list_all (\<lambda>(off, w). 0 < w \<and> w \<le> 64 \<and> off + w \<le> 8 * length mem) ranges" and "length mem \<le> 8"
    and "table = map (\<lambda>(off, w). bitfield tgt sel upd off w) ranges" and "sel s = \<lparr>storage = mem\<rparr>"
    and "i < length ranges" and "ranges ! i = (off, w)"
  shows "fst (field_get (table ! i :: ('s, 'v word) accessor) s)
    = Ok (ucast (take_bit w (drop_bit (if big_endian tgt then 8 * length mem - (off + w) else off) (native tgt mem :: u64))))"
proof -
  have "(off, w) \<in> set ranges" using assms(5,6) by (metis nth_mem)
  then have "in_unit off w \<lparr>storage = mem\<rparr>" using assms(1) by (intro in_unitI) (auto simp: list_all_iff)
  from unit_get_word [OF this, of tgt] assms(2)
  have "unit_get tgt off w (sel s) = (Ok (take_bit w (drop_bit (if big_endian tgt then 8 * length mem - (off + w) else off)
      (native tgt mem))), \<lparr>storage = mem\<rparr>)"
    by (simp add: assms(4) word_get_def field_pos_def unit_word_def native_def)
  then show ?thesis using assms(3,5,6) by (simp add: bitfield_def on_field_def bindM_def ret_def)
qed

lemma native_field_cast:
  assumes "length mem = 2"
  shows "ucast (take_bit w (drop_bit k (native tgt mem :: u64))) = (take_bit w (drop_bit k (native tgt mem)) :: u16)"
proof -
  have "bit (native tgt mem :: u64) n \<longleftrightarrow> bit (native tgt mem :: u16) n" for n
    using assms by (auto simp: native_def of_be_def bit_of_le)
  then show ?thesis by (intro bit_word_eqI) (simp add: bit_ucast_iff bit_take_bit_iff bit_drop_bit_eq)
qed

text \<open>The unions of the bindings: the two views of the socket buffer's headers have the size of the
  union's storage and read every flag alike; the receive options of an IPv6 socket and the source of a
  memory access, read as an integer, hold each bit-field at its offset, counted from the other end on a
  big-endian target.\<close>

lemma union_views:
  "(i < 32 \<and> length mem = 60 \<longrightarrow> size_of skb_group_layout = length mem
      \<and> fst (field_get ((skb1_fields1 tgt @ skb1_fields2 tgt) ! i) (union_field_ref skb1_view mem))
        = fst (field_get ((skb2_fields1 tgt @ skb2_fields2 tgt) ! i) (union_field_ref skb2_view mem)))
   \<and> (i < 15 \<and> length mem = 2 \<longrightarrow> fst (field_get (ipv6_rxopt_fields tgt ! i) (ipv6_rxopt_view mem))
        = Ok (take_bit 1 (drop_bit (if big_endian tgt then 15 - i else i) (ipv6_rxopt_all tgt mem))))
   \<and> (i < 12 \<and> length mem = 8 \<longrightarrow> fst (field_get (perf_mem_fields tgt ! i) (perf_mem_view mem))
        = Ok (case perf_mem_ranges ! i of (off, w) \<Rightarrow>
            take_bit w (drop_bit (if big_endian tgt then 64 - (off + w) else off) (perf_mem_val tgt mem))))"
proof (intro conjI impI)
  show "size_of skb_group_layout = length mem"
    "fst (field_get ((skb1_fields1 tgt @ skb1_fields2 tgt) ! i) (union_field_ref skb1_view mem))
      = fst (field_get ((skb2_fields1 tgt @ skb2_fields2 tgt) ! i) (union_field_ref skb2_view mem))"
    if "i < 32 \<and> length mem = 60" using skb_union_views [of i mem tgt] that by simp_all
next
  assume a: "i < 15 \<and> length mem = 2"
  have r: "ipv6_rxopt_ranges = map (\<lambda>k. (k, 1)) [0..<15]" by (simp add: ipv6_rxopt_ranges_def upt_rec)
  have "fst (field_get (ipv6_rxopt_fields tgt ! i) (ipv6_rxopt_view mem))
      = Ok (ucast (take_bit 1 (drop_bit (if big_endian tgt then 8 * length mem - (i + 1) else i) (native tgt mem :: u64))))"
    by (rule field_of_word [OF _ _ ipv6_rxopt_bits.generated])
      (use a in \<open>simp_all add: r list_all_iff ipv6_rxopt_view_def union_field_ref_def\<close>)
  also have "ucast (take_bit 1 (drop_bit (if big_endian tgt then 8 * length mem - (i + 1) else i) (native tgt mem :: u64)))
      = (take_bit 1 (drop_bit (if big_endian tgt then 8 * length mem - (i + 1) else i) (native tgt mem)) :: u16)"
    using a by (intro native_field_cast) simp
  finally show "fst (field_get (ipv6_rxopt_fields tgt ! i) (ipv6_rxopt_view mem))
      = Ok (take_bit 1 (drop_bit (if big_endian tgt then 15 - i else i) (ipv6_rxopt_all tgt mem)))"
    using a by (cases "big_endian tgt") (simp_all add: ipv6_rxopt_all_def union_field_ref_def)
next
  assume a: "i < 12 \<and> length mem = 8"
  obtain off w where r: "perf_mem_ranges ! i = (off, w)" by fastforce
  have "fst (field_get (perf_mem_fields tgt ! i) (perf_mem_view mem))
      = Ok (ucast (take_bit w (drop_bit (if big_endian tgt then 8 * length mem - (off + w) else off) (native tgt mem :: u64))))"
    by (rule field_of_word [OF _ _ perf_mem_bits.generated _ _ r])
      (use a in \<open>simp_all add: perf_mem_ranges_def perf_mem_view_def union_field_ref_def\<close>)
  then show "fst (field_get (perf_mem_fields tgt ! i) (perf_mem_view mem))
      = Ok (case perf_mem_ranges ! i of (off, w) \<Rightarrow>
            take_bit w (drop_bit (if big_endian tgt then 64 - (off + w) else off) (perf_mem_val tgt mem)))"
    using a by (simp add: r perf_mem_val_def union_field_ref_def)
qed

end
