(* ===== verification/Vmlinux_Tcp.thy ===== *)
theory Vmlinux_Tcp
  imports Vmlinux_Net
begin

text \<open>
  The sockets of the kernel bindings (\<open>cilium-mini-ebpf/src/vmlinux.rs\<close>), in the style of \<open>Vmlinux\<close>: the
  socket, a connection request, the connection socket with its acknowledgement and path-MTU state, and
  the TCP socket, whose flags lie in six units between other members. A member whose type is a modelled
  struct is its record, one of another struct or union type its bytes. The large structs are written as
  records that extend one another; the last of them is the struct. The property at the end is about the
  structs of all four theories.
\<close>

section \<open>Structs\<close>

record sock_part_1 =
  sk_common :: sock_common
  sk_cacheline_group_begin__sock_write_rx :: bytes
  sk_drops :: bytes
  sk_peek_off :: u32
  sk_error_queue :: bytes
  sk_receive_queue :: bytes
  sk_backlog :: bytes
  sk_cacheline_group_end__sock_write_rx :: bytes
  sk_cacheline_group_begin__sock_read_rx :: bytes
  sk_rx_dst :: u64
  sk_rx_dst_ifindex :: u32
  sk_rx_dst_cookie :: u32
  sk_ll_usec :: u32
  sk_napi_id :: u32
  sk_busy_poll_budget :: u16
  sk_prefer_busy_poll :: u8
  sk_userlocks :: u8
  sk_rcvbuf :: u32
  sk_filter :: u64
  sk_anon_1 :: bytes
  sk_data_ready :: "u64 option"
  sk_rcvtimeo :: u64
  sk_rcvlowat :: u32
  sk_cacheline_group_end__sock_read_rx :: bytes

record sock_part_2 =
  sock_part_1 +
  sk_cacheline_group_begin__sock_read_rxtx :: bytes
  sk_err :: u32
  sk_socket :: u64
  sk_memcg :: u64
  sk_policy :: "u64 list"
  sk_psp_assoc :: u64
  sk_cacheline_group_end__sock_read_rxtx :: bytes
  sk_cacheline_group_begin__sock_write_rxtx :: bytes
  sk_lock :: bytes
  sk_reserved_mem :: u32
  sk_forward_alloc :: u32
  sk_tsflags :: u32
  sk_cacheline_group_end__sock_write_rxtx :: bytes
  sk_cacheline_group_begin__sock_write_tx :: bytes
  sk_write_pending :: u32
  sk_omem_alloc :: bytes
  sk_err_soft :: u32
  sk_wmem_queued :: u32
  sk_wmem_alloc :: bytes
  sk_tsq_flags :: u64
  sk_anon_2 :: bytes
  sk_write_queue :: bytes
  sk_frag :: bytes
  sk_anon_3 :: bytes

record sock_part_3 =
  sock_part_2 +
  sk_pacing_rate :: u64
  sk_zckey :: bytes
  sk_tskey :: bytes
  sk_tx_queue_mapping_jiffies :: u64
  sk_cacheline_group_end__sock_write_tx :: bytes
  sk_cacheline_group_begin__sock_read_tx :: bytes
  sk_dst_pending_confirm :: u32
  sk_pacing_status :: u32
  sk_max_pacing_rate :: u64
  sk_sndtimeo :: u64
  sk_priority :: u32
  sk_mark :: u32
  sk_uid :: bytes
  sk_protocol :: u16
  sk_type :: u16
  sk_dst_cache :: u64
  sk_route_caps :: u64
  sk_validate_xmit_skb :: "u64 option"
  sk_gso_type :: u16
  sk_gso_max_segs :: u16
  sk_gso_max_size :: u32
  sk_allocation :: u32
  sk_txhash :: u32
  sk_sndbuf :: u32

record sock_part_4 =
  sock_part_3 +
  sk_pacing_shift :: u8
  sk_use_task_frag :: bool
  sk_cacheline_group_end__sock_read_tx :: bytes
  sock_bitfield_1 :: BindgenBitfieldUnit
  sk_shutdown :: u8
  sk_lingertime :: u64
  sk_prot_creator :: u64
  sk_callback_lock :: bytes
  sk_ack_backlog :: u32
  sk_max_ack_backlog :: u32
  sk_ino :: u64
  sk_peer_lock :: bytes
  sk_bind_phc :: u32
  sk_peer_pid :: u64
  sk_peer_cred :: u64
  sk_stamp :: u64
  sk_disconnects :: u32
  sk_anon_4 :: bytes
  sk_clockid :: u8
  sock_bitfield_2 :: BindgenBitfieldUnit
  sk_bpf_cb_flags :: u8
  sk_user_data :: u64
  sk_security :: u64
  sk_cgrp_data :: bytes

record sock =
  sock_part_4 +
  sk_state_change :: "u64 option"
  sk_write_space :: "u64 option"
  sk_error_report :: "u64 option"
  sk_backlog_rcv :: "u64 option"
  sk_destruct :: "u64 option"
  sk_reuseport_cb :: u64
  sk_bpf_storage :: u64
  sk_drop_counters :: u64
  sk_anon_5 :: bytes
  sk_ns_tracker :: bytes
  sk_user_frags :: bytes

record sock_scm_bits =
  sock_scm_bitfield_1 :: BindgenBitfieldUnit

record request_sock =
  rsk_req_common :: sock_common
  rsk_dl_next :: u64
  rsk_mss :: u16
  rsk_num_retrans :: u8
  request_sock_bitfield_1 :: BindgenBitfieldUnit
  rsk_ts_recent :: u32
  rsk_timer :: bytes
  rsk_ops :: u64
  rsk_sk :: u64
  rsk_saved_syn :: u64
  rsk_secid :: u32
  rsk_peer_secid :: u32
  rsk_timeout :: u32

record icsk_ack =
  icsk_ack_pending :: u8
  icsk_ack_quick :: u8
  icsk_ack_pingpong :: u8
  icsk_ack_retry :: u8
  icsk_ack_bitfield_1 :: BindgenBitfieldUnit
  icsk_ack_lrcvtime :: u32
  icsk_ack_last_seg_size :: u16
  icsk_ack_rcv_mss :: u16

record icsk_mtup =
  icsk_mtup_search_high :: u32
  icsk_mtup_search_low :: u32
  icsk_mtup_bitfield_1 :: BindgenBitfieldUnit
  icsk_mtup_probe_timestamp :: u32

record inet_connection_sock_part_1 =
  icsk_inet :: bytes
  icsk_accept_queue :: bytes
  icsk_bind_hash :: u64
  icsk_bind2_hash :: u64
  icsk_delack_timer :: bytes
  icsk_anon_1 :: bytes
  icsk_rto :: u32
  icsk_rto_min :: u32
  icsk_rto_max :: u32
  icsk_delack_max :: u32
  icsk_pmtu_cookie :: u32
  icsk_ca_ops :: u64
  icsk_af_ops :: u64
  icsk_ulp_ops :: u64
  icsk_ulp_data :: u64
  icsk_sync_mss :: "u64 option"
  inet_csk_bitfield_1 :: BindgenBitfieldUnit
  icsk_retransmits :: u8
  icsk_pending :: u8
  icsk_backoff :: u8
  icsk_syn_retries :: u8
  icsk_probes_out :: u8
  icsk_ext_hdr_len :: u16
  icsk_ack :: icsk_ack

record inet_connection_sock =
  inet_connection_sock_part_1 +
  icsk_mtup :: icsk_mtup
  icsk_probes_tstamp :: u32
  icsk_user_timeout :: u32
  icsk_ca_priv :: "u64 list"

record tcp_rack =
  rack_mstamp :: u64
  rack_rtt_us :: u32
  rack_end_seq :: u32
  rack_last_delivered :: u32
  rack_reo_wnd_steps :: u8
  tcp_rack_bitfield_1 :: BindgenBitfieldUnit
  rack_bindgen_padding_0 :: u16

record tcp_sock_part_1 =
  tp_inet_conn :: inet_connection_sock
  tp_cacheline_group_begin__tcp_sock_read_tx :: bytes
  tp_max_window :: u32
  tp_rcv_ssthresh :: u32
  tp_reordering :: u32
  tp_notsent_lowat :: u32
  tp_gso_segs :: u16
  tp_retransmit_skb_hint :: u64
  tp_tcp_clean_acked :: "u64 option"
  tp_cacheline_group_end__tcp_sock_read_tx :: bytes
  tp_cacheline_group_begin__tcp_sock_read_txrx :: bytes
  tp_tsoffset :: u32
  tp_snd_wnd :: u32
  tp_mss_cache :: u32
  tp_snd_cwnd :: u32
  tp_prr_out :: u32
  tp_lost_out :: u32
  tp_sacked_out :: u32
  tp_tcp_header_len :: u16
  tp_scaling_ratio :: u8
  tcp_sock_bitfield_1 :: BindgenBitfieldUnit
  tp_cacheline_group_end__tcp_sock_read_txrx :: bytes
  tp_cacheline_group_begin__tcp_sock_read_rx :: bytes
  tp_copied_seq :: u32

record tcp_sock_part_2 =
  tcp_sock_part_1 +
  tp_snd_wl1 :: u32
  tp_tlp_high_seq :: u32
  tp_rttvar_us :: u32
  tp_retrans_out :: u32
  tp_advmss :: u16
  tp_urg_data :: u16
  tp_lost :: u32
  tp_snd_ssthresh :: u32
  tp_rtt_min :: bytes
  tp_out_of_order_queue :: bytes
  tp_cacheline_group_end__tcp_sock_read_rx :: bytes
  tcp_sock_bitfield_2 :: BindgenBitfieldUnit
  tp_cacheline_group_begin__tcp_sock_write_tx :: bytes
  tp_segs_out :: u32
  tp_data_segs_out :: u32
  tp_bytes_sent :: u64
  tp_snd_sml :: u32
  tp_chrono_type :: u8
  tp_chrono_start :: u32
  tp_chrono_stat :: "u32 list"
  tp_write_seq :: u32
  tp_pushed_seq :: u32
  tp_lsndtime :: u32
  tp_mdev_us :: u32

record tcp_sock_part_3 =
  tcp_sock_part_2 +
  tp_rtt_seq :: u32
  tp_tcp_wstamp_ns :: u64
  tp_accecn_opt_tstamp :: u64
  tp_tsorted_sent_queue :: bytes
  tp_highest_sack :: u64
  tp_ecn_flags :: u8
  tp_cacheline_group_end__tcp_sock_write_tx :: bytes
  tp_cacheline_group_begin__tcp_sock_write_txrx :: bytes
  tcp_sock_bitfield_3 :: BindgenBitfieldUnit
  tp_pred_flags :: u32
  tp_tcp_clock_cache :: u64
  tp_tcp_mstamp :: u64
  tp_rcv_nxt :: u32
  tp_snd_nxt :: u32
  tp_snd_una :: u32
  tp_window_clamp :: u32
  tp_srtt_us :: u32
  tp_packets_out :: u32
  tp_snd_up :: u32
  tp_delivered :: u32
  tp_delivered_ce :: u32
  tp_received_ce :: u32
  tp_received_ecn_bytes :: "u32 list"
  tp_app_limited :: u32

record tcp_sock_part_4 =
  tcp_sock_part_3 +
  tp_rcv_wnd :: u32
  tp_rcv_tstamp :: u32
  tp_rx_opt :: bytes
  tp_cacheline_group_end__tcp_sock_write_txrx :: bytes
  tp_cacheline_group_begin__tcp_sock_write_rx :: bytes
  tp_bytes_received :: u64
  tp_segs_in :: u32
  tp_data_segs_in :: u32
  tp_rcv_wup :: u32
  tp_max_packets_out :: u32
  tp_cwnd_usage_seq :: u32
  tp_rate_delivered :: u32
  tp_rate_interval_us :: u32
  tp_rcv_rtt_last_tsecr :: u32
  tp_delivered_ecn_bytes :: "u32 list"
  tp_pkts_acked_ewma :: u16
  tp_first_tx_mstamp :: u64
  tp_delivered_mstamp :: u64
  tp_bytes_acked :: u64
  tp_rcv_rtt_est :: bytes
  tp_rcvq_space :: bytes
  tp_cacheline_group_end__tcp_sock_write_rx :: bytes
  tp_dsack_dups :: u32
  tp_compressed_ack_rcv_nxt :: u32

record tcp_sock_part_5 =
  tcp_sock_part_4 +
  tp_tsq_node :: bytes
  tp_rack :: tcp_rack
  tp_compressed_ack :: u8
  tcp_sock_bitfield_4 :: BindgenBitfieldUnit
  tp_repair_queue :: u8
  tcp_sock_bitfield_5 :: BindgenBitfieldUnit
  tp_keepalive_probes :: u8
  tcp_sock_bitfield_6 :: BindgenBitfieldUnit
  tp_tcp_tx_delay :: u32
  tp_mdev_max_us :: u32
  tp_reord_seen :: u32
  tp_snd_cwnd_cnt :: u32
  tp_snd_cwnd_clamp :: u32
  tp_snd_cwnd_used :: u32
  tp_snd_cwnd_stamp :: u32
  tp_prior_cwnd :: u32
  tp_prr_delivered :: u32
  tp_last_oow_ack_time :: u32
  tp_pacing_timer :: bytes
  tp_compressed_ack_timer :: bytes
  tp_ooo_last_skb :: u64
  tp_duplicate_sack :: bytes
  tp_selective_acks :: bytes
  tp_recv_sack_cache :: bytes

record tcp_sock_part_6 =
  tcp_sock_part_5 +
  tp_prior_ssthresh :: u32
  tp_high_seq :: u32
  tp_retrans_stamp :: u32
  tp_undo_marker :: u32
  tp_undo_retrans :: u32
  tp_mtu_info :: u32
  tp_bytes_retrans :: u64
  tp_total_retrans :: u32
  tp_rto_stamp :: u32
  tp_total_rto :: u16
  tp_total_rto_recoveries :: u16
  tp_total_rto_time :: u32
  tp_urg_seq :: u32
  tp_keepalive_time :: u32
  tp_keepalive_intvl :: u32
  tp_linger2 :: u32
  tp_bpf_sock_ops_cb_flags :: u8
  tcp_sock_bitfield_7 :: BindgenBitfieldUnit
  tp_timeout_rehash :: u16
  tp_rcv_ooopack :: u32
  tp_mtu_probe :: bytes
  tp_plb_rehash :: u32
  tp_is_mptcp :: bool
  tp_syn_smc :: bool

record tcp_sock =
  tcp_sock_part_6 +
  tp_smc_hs_congested :: "u64 option"
  tp_af_specific :: u64
  tp_md5sig_info :: u64
  tp_ao_info :: u64
  tp_fastopen_req :: u64
  tp_fastopen_rsk :: u64
  tp_saved_syn :: u64
  tcp_sock_bitfield_8 :: BindgenBitfieldUnit

section \<open>Bit-fields\<close>

text \<open>\<open>sock\<close>, lines 14459 to 14740.\<close>

definition sock_sk_gso_disabled :: "target \<Rightarrow> (sock, u8) accessor" where
  "sock_sk_gso_disabled tgt = bitfield tgt sock_bitfield_1 sock_bitfield_1_update 0 1"

definition sock_sk_kern_sock :: "target \<Rightarrow> (sock, u8) accessor" where
  "sock_sk_kern_sock tgt = bitfield tgt sock_bitfield_1 sock_bitfield_1_update 1 1"

definition sock_sk_no_check_tx :: "target \<Rightarrow> (sock, u8) accessor" where
  "sock_sk_no_check_tx tgt = bitfield tgt sock_bitfield_1 sock_bitfield_1_update 2 1"

definition sock_sk_no_check_rx :: "target \<Rightarrow> (sock, u8) accessor" where
  "sock_sk_no_check_rx tgt = bitfield tgt sock_bitfield_1 sock_bitfield_1_update 3 1"

definition sock_sk_txtime_deadline_mode :: "target \<Rightarrow> (sock, u8) accessor" where
  "sock_sk_txtime_deadline_mode tgt = bitfield tgt sock_bitfield_2 sock_bitfield_2_update 0 1"

definition sock_sk_txtime_report_errors :: "target \<Rightarrow> (sock, u8) accessor" where
  "sock_sk_txtime_report_errors tgt = bitfield tgt sock_bitfield_2 sock_bitfield_2_update 1 1"

definition sock_sk_txtime_unused :: "target \<Rightarrow> (sock, u8) accessor" where
  "sock_sk_txtime_unused tgt = bitfield tgt sock_bitfield_2 sock_bitfield_2_update 2 6"

definition sock_new_bitfield_1 ::
  "target \<Rightarrow> u8 \<Rightarrow> u8 \<Rightarrow> u8 \<Rightarrow> u8 \<Rightarrow> (unit, unit) outcome
    \<times> BindgenBitfieldUnit" where
  "sock_new_bitfield_1 tgt sk_gso_disabled sk_kern_sock sk_no_check_tx sk_no_check_rx =
     new_bitfield tgt 1
     [(0, 1, ucast sk_gso_disabled), (1, 1, ucast sk_kern_sock), (2, 1, ucast sk_no_check_tx), (3, 1, ucast
      sk_no_check_rx)]"

definition sock_new_bitfield_2 ::
  "target \<Rightarrow> u8 \<Rightarrow> u8 \<Rightarrow> u8 \<Rightarrow> (unit, unit) outcome \<times>
    BindgenBitfieldUnit" where
  "sock_new_bitfield_2 tgt sk_txtime_deadline_mode sk_txtime_report_errors sk_txtime_unused =
     new_bitfield tgt 1
     [(0, 1, ucast sk_txtime_deadline_mode), (1, 1, ucast sk_txtime_report_errors), (2, 6, ucast
      sk_txtime_unused)]"

definition sock_fields1 :: "target \<Rightarrow> (sock, u8) accessor list" where
  "sock_fields1 tgt =
     [sock_sk_gso_disabled tgt, sock_sk_kern_sock tgt, sock_sk_no_check_tx tgt, sock_sk_no_check_rx tgt]"

definition sock_ranges1 :: "(nat \<times> nat) list" where
  "sock_ranges1 =
     [(0, 1), (1, 1), (2, 1), (3, 1)]"

definition sock_fields2 :: "target \<Rightarrow> (sock, u8) accessor list" where
  "sock_fields2 tgt =
     [sock_sk_txtime_deadline_mode tgt, sock_sk_txtime_report_errors tgt, sock_sk_txtime_unused tgt]"

definition sock_ranges2 :: "(nat \<times> nat) list" where
  "sock_ranges2 =
     [(0, 1), (1, 1), (2, 6)]"

text \<open>\<open>sock__bindgen_ty_5__bindgen_ty_1\<close>, lines 14255 to 14452.\<close>

definition sock_scm_sk_scm_credentials :: "target \<Rightarrow> (sock_scm_bits, u8) accessor" where
  "sock_scm_sk_scm_credentials tgt = bitfield tgt sock_scm_bitfield_1 sock_scm_bitfield_1_update 0 1"

definition sock_scm_sk_scm_security :: "target \<Rightarrow> (sock_scm_bits, u8) accessor" where
  "sock_scm_sk_scm_security tgt = bitfield tgt sock_scm_bitfield_1 sock_scm_bitfield_1_update 1 1"

definition sock_scm_sk_scm_pidfd :: "target \<Rightarrow> (sock_scm_bits, u8) accessor" where
  "sock_scm_sk_scm_pidfd tgt = bitfield tgt sock_scm_bitfield_1 sock_scm_bitfield_1_update 2 1"

definition sock_scm_sk_scm_rights :: "target \<Rightarrow> (sock_scm_bits, u8) accessor" where
  "sock_scm_sk_scm_rights tgt = bitfield tgt sock_scm_bitfield_1 sock_scm_bitfield_1_update 3 1"

definition sock_scm_sk_scm_unused :: "target \<Rightarrow> (sock_scm_bits, u8) accessor" where
  "sock_scm_sk_scm_unused tgt = bitfield tgt sock_scm_bitfield_1 sock_scm_bitfield_1_update 4 4"

definition sock_scm_new_bitfield_1 ::
  "target \<Rightarrow> u8 \<Rightarrow> u8 \<Rightarrow> u8 \<Rightarrow> u8 \<Rightarrow> u8 \<Rightarrow>
    (unit, unit) outcome \<times> BindgenBitfieldUnit" where
  "sock_scm_new_bitfield_1 tgt sk_scm_credentials sk_scm_security sk_scm_pidfd sk_scm_rights sk_scm_unused =
     new_bitfield tgt 1
     [(0, 1, ucast sk_scm_credentials), (1, 1, ucast sk_scm_security), (2, 1, ucast sk_scm_pidfd), (3, 1, ucast
      sk_scm_rights), (4, 4, ucast sk_scm_unused)]"

definition sock_scm_fields :: "target \<Rightarrow> (sock_scm_bits, u8) accessor list" where
  "sock_scm_fields tgt =
     [sock_scm_sk_scm_credentials tgt, sock_scm_sk_scm_security tgt, sock_scm_sk_scm_pidfd tgt,
     sock_scm_sk_scm_rights tgt, sock_scm_sk_scm_unused tgt]"

definition sock_scm_ranges :: "(nat \<times> nat) list" where
  "sock_scm_ranges =
     [(0, 1), (1, 1), (2, 1), (3, 1), (4, 4)]"

text \<open>\<open>request_sock\<close>, lines 38248 to 38328.\<close>

definition request_sock_syncookie :: "target \<Rightarrow> (request_sock, u8) accessor" where
  "request_sock_syncookie tgt = bitfield tgt request_sock_bitfield_1 request_sock_bitfield_1_update 0 1"

definition request_sock_num_timeout :: "target \<Rightarrow> (request_sock, u8) accessor" where
  "request_sock_num_timeout tgt = bitfield tgt request_sock_bitfield_1 request_sock_bitfield_1_update 1 7"

definition request_sock_new_bitfield_1 ::
  "target \<Rightarrow> u8 \<Rightarrow> u8 \<Rightarrow> (unit, unit) outcome \<times> BindgenBitfieldUnit" where
  "request_sock_new_bitfield_1 tgt syncookie num_timeout =
     new_bitfield tgt 1
     [(0, 1, ucast syncookie), (1, 7, ucast num_timeout)]"

definition request_sock_fields :: "target \<Rightarrow> (request_sock, u8) accessor list" where
  "request_sock_fields tgt =
     [request_sock_syncookie tgt, request_sock_num_timeout tgt]"

definition request_sock_ranges :: "(nat \<times> nat) list" where
  "request_sock_ranges =
     [(0, 1), (1, 7)]"

text \<open>\<open>inet_connection_sock__bindgen_ty_2\<close>, lines 37725 to 37884.\<close>

definition icsk_ack_ato :: "target \<Rightarrow> (icsk_ack, u32) accessor" where
  "icsk_ack_ato tgt = bitfield tgt icsk_ack_bitfield_1 icsk_ack_bitfield_1_update 0 8"

definition icsk_ack_lrcv_flowlabel :: "target \<Rightarrow> (icsk_ack, u32) accessor" where
  "icsk_ack_lrcv_flowlabel tgt = bitfield tgt icsk_ack_bitfield_1 icsk_ack_bitfield_1_update 8 20"

definition icsk_ack_dst_quick_ack :: "target \<Rightarrow> (icsk_ack, u32) accessor" where
  "icsk_ack_dst_quick_ack tgt = bitfield tgt icsk_ack_bitfield_1 icsk_ack_bitfield_1_update 28 1"

definition icsk_ack_unused :: "target \<Rightarrow> (icsk_ack, u32) accessor" where
  "icsk_ack_unused tgt = bitfield tgt icsk_ack_bitfield_1 icsk_ack_bitfield_1_update 29 3"

definition icsk_ack_new_bitfield_1 ::
  "target \<Rightarrow> u32 \<Rightarrow> u32 \<Rightarrow> u32 \<Rightarrow> u32 \<Rightarrow> (unit, unit)
    outcome \<times> BindgenBitfieldUnit" where
  "icsk_ack_new_bitfield_1 tgt ato lrcv_flowlabel dst_quick_ack unused =
     new_bitfield tgt 4
     [(0, 8, ucast ato), (8, 20, ucast lrcv_flowlabel), (28, 1, ucast dst_quick_ack), (29, 3, ucast unused)]"

definition icsk_ack_fields :: "target \<Rightarrow> (icsk_ack, u32) accessor list" where
  "icsk_ack_fields tgt =
     [icsk_ack_ato tgt, icsk_ack_lrcv_flowlabel tgt, icsk_ack_dst_quick_ack tgt, icsk_ack_unused tgt]"

definition icsk_ack_ranges :: "(nat \<times> nat) list" where
  "icsk_ack_ranges =
     [(0, 8), (8, 20), (28, 1), (29, 3)]"

text \<open>\<open>inet_connection_sock__bindgen_ty_3\<close>, lines 37894 to 37974.\<close>

definition icsk_mtup_probe_size :: "target \<Rightarrow> (icsk_mtup, u32) accessor" where
  "icsk_mtup_probe_size tgt = bitfield tgt icsk_mtup_bitfield_1 icsk_mtup_bitfield_1_update 0 31"

definition icsk_mtup_enabled :: "target \<Rightarrow> (icsk_mtup, u32) accessor" where
  "icsk_mtup_enabled tgt = bitfield tgt icsk_mtup_bitfield_1 icsk_mtup_bitfield_1_update 31 1"

definition icsk_mtup_new_bitfield_1 ::
  "target \<Rightarrow> u32 \<Rightarrow> u32 \<Rightarrow> (unit, unit) outcome \<times> BindgenBitfieldUnit" where
  "icsk_mtup_new_bitfield_1 tgt probe_size enabled =
     new_bitfield tgt 4
     [(0, 31, ucast probe_size), (31, 1, ucast enabled)]"

definition icsk_mtup_fields :: "target \<Rightarrow> (icsk_mtup, u32) accessor list" where
  "icsk_mtup_fields tgt =
     [icsk_mtup_probe_size tgt, icsk_mtup_enabled tgt]"

definition icsk_mtup_ranges :: "(nat \<times> nat) list" where
  "icsk_mtup_ranges =
     [(0, 31), (31, 1)]"

text \<open>\<open>inet_connection_sock\<close>, lines 37975 to 38134.\<close>

definition inet_csk_icsk_ca_state :: "target \<Rightarrow> (inet_connection_sock, u8) accessor" where
  "inet_csk_icsk_ca_state tgt = bitfield tgt inet_csk_bitfield_1 inet_csk_bitfield_1_update 0 5"

definition inet_csk_icsk_ca_initialized :: "target \<Rightarrow> (inet_connection_sock, u8) accessor" where
  "inet_csk_icsk_ca_initialized tgt = bitfield tgt inet_csk_bitfield_1 inet_csk_bitfield_1_update 5 1"

definition inet_csk_icsk_ca_setsockopt :: "target \<Rightarrow> (inet_connection_sock, u8) accessor" where
  "inet_csk_icsk_ca_setsockopt tgt = bitfield tgt inet_csk_bitfield_1 inet_csk_bitfield_1_update 6 1"

definition inet_csk_icsk_ca_dst_locked :: "target \<Rightarrow> (inet_connection_sock, u8) accessor" where
  "inet_csk_icsk_ca_dst_locked tgt = bitfield tgt inet_csk_bitfield_1 inet_csk_bitfield_1_update 7 1"

definition inet_csk_new_bitfield_1 ::
  "target \<Rightarrow> u8 \<Rightarrow> u8 \<Rightarrow> u8 \<Rightarrow> u8 \<Rightarrow> (unit, unit) outcome
    \<times> BindgenBitfieldUnit" where
  "inet_csk_new_bitfield_1 tgt icsk_ca_state icsk_ca_initialized icsk_ca_setsockopt icsk_ca_dst_locked =
     new_bitfield tgt 1
     [(0, 5, ucast icsk_ca_state), (5, 1, ucast icsk_ca_initialized), (6, 1, ucast icsk_ca_setsockopt), (7, 1,
      ucast icsk_ca_dst_locked)]"

definition inet_csk_fields :: "target \<Rightarrow> (inet_connection_sock, u8) accessor list" where
  "inet_csk_fields tgt =
     [inet_csk_icsk_ca_state tgt, inet_csk_icsk_ca_initialized tgt, inet_csk_icsk_ca_setsockopt tgt,
     inet_csk_icsk_ca_dst_locked tgt]"

definition inet_csk_ranges :: "(nat \<times> nat) list" where
  "inet_csk_ranges =
     [(0, 5), (5, 1), (6, 1), (7, 1)]"

text \<open>\<open>tcp_rack\<close>, lines 68883 to 69004.\<close>

definition tcp_rack_reo_wnd_persist :: "target \<Rightarrow> (tcp_rack, u8) accessor" where
  "tcp_rack_reo_wnd_persist tgt = bitfield tgt tcp_rack_bitfield_1 tcp_rack_bitfield_1_update 0 5"

definition tcp_rack_dsack_seen :: "target \<Rightarrow> (tcp_rack, u8) accessor" where
  "tcp_rack_dsack_seen tgt = bitfield tgt tcp_rack_bitfield_1 tcp_rack_bitfield_1_update 5 1"

definition tcp_rack_advanced :: "target \<Rightarrow> (tcp_rack, u8) accessor" where
  "tcp_rack_advanced tgt = bitfield tgt tcp_rack_bitfield_1 tcp_rack_bitfield_1_update 6 1"

definition tcp_rack_new_bitfield_1 ::
  "target \<Rightarrow> u8 \<Rightarrow> u8 \<Rightarrow> u8 \<Rightarrow> (unit, unit) outcome \<times>
    BindgenBitfieldUnit" where
  "tcp_rack_new_bitfield_1 tgt reo_wnd_persist dsack_seen advanced =
     new_bitfield tgt 1
     [(0, 5, ucast reo_wnd_persist), (5, 1, ucast dsack_seen), (6, 1, ucast advanced)]"

definition tcp_rack_fields :: "target \<Rightarrow> (tcp_rack, u8) accessor list" where
  "tcp_rack_fields tgt =
     [tcp_rack_reo_wnd_persist tgt, tcp_rack_dsack_seen tgt, tcp_rack_advanced tgt]"

definition tcp_rack_ranges :: "(nat \<times> nat) list" where
  "tcp_rack_ranges =
     [(0, 5), (5, 1), (6, 1)]"

text \<open>\<open>tcp_sock\<close>, lines 69194 to 70490.\<close>

definition tcp_sock_repair :: "target \<Rightarrow> (tcp_sock, u8) accessor" where
  "tcp_sock_repair tgt = bitfield tgt tcp_sock_bitfield_1 tcp_sock_bitfield_1_update 0 1"

definition tcp_sock_tcp_usec_ts :: "target \<Rightarrow> (tcp_sock, u8) accessor" where
  "tcp_sock_tcp_usec_ts tgt = bitfield tgt tcp_sock_bitfield_1 tcp_sock_bitfield_1_update 1 1"

definition tcp_sock_is_sack_reneg :: "target \<Rightarrow> (tcp_sock, u8) accessor" where
  "tcp_sock_is_sack_reneg tgt = bitfield tgt tcp_sock_bitfield_1 tcp_sock_bitfield_1_update 2 1"

definition tcp_sock_is_cwnd_limited :: "target \<Rightarrow> (tcp_sock, u8) accessor" where
  "tcp_sock_is_cwnd_limited tgt = bitfield tgt tcp_sock_bitfield_1 tcp_sock_bitfield_1_update 3 1"

definition tcp_sock_recvmsg_inq :: "target \<Rightarrow> (tcp_sock, u8) accessor" where
  "tcp_sock_recvmsg_inq tgt = bitfield tgt tcp_sock_bitfield_1 tcp_sock_bitfield_1_update 4 1"

definition tcp_sock_nonagle :: "target \<Rightarrow> (tcp_sock, u8) accessor" where
  "tcp_sock_nonagle tgt = bitfield tgt tcp_sock_bitfield_3 tcp_sock_bitfield_3_update 0 4"

definition tcp_sock_rate_app_limited :: "target \<Rightarrow> (tcp_sock, u8) accessor" where
  "tcp_sock_rate_app_limited tgt = bitfield tgt tcp_sock_bitfield_3 tcp_sock_bitfield_3_update 4 1"

definition tcp_sock_received_ce_pending :: "target \<Rightarrow> (tcp_sock, u8) accessor" where
  "tcp_sock_received_ce_pending tgt = bitfield tgt tcp_sock_bitfield_3 tcp_sock_bitfield_3_update 8 4"

definition tcp_sock_accecn_opt_sent_w_dsack :: "target \<Rightarrow> (tcp_sock, u8) accessor" where
  "tcp_sock_accecn_opt_sent_w_dsack tgt = bitfield tgt tcp_sock_bitfield_3 tcp_sock_bitfield_3_update 12 1"

definition tcp_sock_unused2 :: "target \<Rightarrow> (tcp_sock, u8) accessor" where
  "tcp_sock_unused2 tgt = bitfield tgt tcp_sock_bitfield_3 tcp_sock_bitfield_3_update 13 3"

definition tcp_sock_accecn_minlen :: "target \<Rightarrow> (tcp_sock, u8) accessor" where
  "tcp_sock_accecn_minlen tgt = bitfield tgt tcp_sock_bitfield_3 tcp_sock_bitfield_3_update 16 2"

definition tcp_sock_est_ecnfield :: "target \<Rightarrow> (tcp_sock, u8) accessor" where
  "tcp_sock_est_ecnfield tgt = bitfield tgt tcp_sock_bitfield_3 tcp_sock_bitfield_3_update 18 2"

definition tcp_sock_accecn_opt_demand :: "target \<Rightarrow> (tcp_sock, u8) accessor" where
  "tcp_sock_accecn_opt_demand tgt = bitfield tgt tcp_sock_bitfield_3 tcp_sock_bitfield_3_update 20 2"

definition tcp_sock_prev_ecnfield :: "target \<Rightarrow> (tcp_sock, u8) accessor" where
  "tcp_sock_prev_ecnfield tgt = bitfield tgt tcp_sock_bitfield_3 tcp_sock_bitfield_3_update 22 2"

definition tcp_sock_dup_ack_counter :: "target \<Rightarrow> (tcp_sock, u8) accessor" where
  "tcp_sock_dup_ack_counter tgt = bitfield tgt tcp_sock_bitfield_4 tcp_sock_bitfield_4_update 0 2"

definition tcp_sock_tlp_retrans :: "target \<Rightarrow> (tcp_sock, u8) accessor" where
  "tcp_sock_tlp_retrans tgt = bitfield tgt tcp_sock_bitfield_4 tcp_sock_bitfield_4_update 2 1"

definition tcp_sock_syn_ect_snt :: "target \<Rightarrow> (tcp_sock, u8) accessor" where
  "tcp_sock_syn_ect_snt tgt = bitfield tgt tcp_sock_bitfield_4 tcp_sock_bitfield_4_update 3 2"

definition tcp_sock_syn_ect_rcv :: "target \<Rightarrow> (tcp_sock, u8) accessor" where
  "tcp_sock_syn_ect_rcv tgt = bitfield tgt tcp_sock_bitfield_4 tcp_sock_bitfield_4_update 5 2"

definition tcp_sock_thin_lto :: "target \<Rightarrow> (tcp_sock, u8) accessor" where
  "tcp_sock_thin_lto tgt = bitfield tgt tcp_sock_bitfield_4 tcp_sock_bitfield_4_update 7 1"

definition tcp_sock_fastopen_connect :: "target \<Rightarrow> (tcp_sock, u8) accessor" where
  "tcp_sock_fastopen_connect tgt = bitfield tgt tcp_sock_bitfield_4 tcp_sock_bitfield_4_update 8 1"

definition tcp_sock_fastopen_no_cookie :: "target \<Rightarrow> (tcp_sock, u8) accessor" where
  "tcp_sock_fastopen_no_cookie tgt = bitfield tgt tcp_sock_bitfield_4 tcp_sock_bitfield_4_update 9 1"

definition tcp_sock_fastopen_client_fail :: "target \<Rightarrow> (tcp_sock, u8) accessor" where
  "tcp_sock_fastopen_client_fail tgt = bitfield tgt tcp_sock_bitfield_4 tcp_sock_bitfield_4_update 10 2"

definition tcp_sock_frto :: "target \<Rightarrow> (tcp_sock, u8) accessor" where
  "tcp_sock_frto tgt = bitfield tgt tcp_sock_bitfield_4 tcp_sock_bitfield_4_update 12 1"

definition tcp_sock_save_syn :: "target \<Rightarrow> (tcp_sock, u8) accessor" where
  "tcp_sock_save_syn tgt = bitfield tgt tcp_sock_bitfield_5 tcp_sock_bitfield_5_update 0 2"

definition tcp_sock_syn_data :: "target \<Rightarrow> (tcp_sock, u8) accessor" where
  "tcp_sock_syn_data tgt = bitfield tgt tcp_sock_bitfield_5 tcp_sock_bitfield_5_update 2 1"

definition tcp_sock_syn_fastopen :: "target \<Rightarrow> (tcp_sock, u8) accessor" where
  "tcp_sock_syn_fastopen tgt = bitfield tgt tcp_sock_bitfield_5 tcp_sock_bitfield_5_update 3 1"

definition tcp_sock_syn_fastopen_exp :: "target \<Rightarrow> (tcp_sock, u8) accessor" where
  "tcp_sock_syn_fastopen_exp tgt = bitfield tgt tcp_sock_bitfield_5 tcp_sock_bitfield_5_update 4 1"

definition tcp_sock_syn_fastopen_ch :: "target \<Rightarrow> (tcp_sock, u8) accessor" where
  "tcp_sock_syn_fastopen_ch tgt = bitfield tgt tcp_sock_bitfield_5 tcp_sock_bitfield_5_update 5 1"

definition tcp_sock_syn_data_acked :: "target \<Rightarrow> (tcp_sock, u8) accessor" where
  "tcp_sock_syn_data_acked tgt = bitfield tgt tcp_sock_bitfield_5 tcp_sock_bitfield_5_update 6 1"

definition tcp_sock_syn_fastopen_child :: "target \<Rightarrow> (tcp_sock, u8) accessor" where
  "tcp_sock_syn_fastopen_child tgt = bitfield tgt tcp_sock_bitfield_5 tcp_sock_bitfield_5_update 7 1"

definition tcp_sock_accecn_fail_mode :: "target \<Rightarrow> (tcp_sock, u8) accessor" where
  "tcp_sock_accecn_fail_mode tgt = bitfield tgt tcp_sock_bitfield_6 tcp_sock_bitfield_6_update 0 4"

definition tcp_sock_saw_accecn_opt :: "target \<Rightarrow> (tcp_sock, u8) accessor" where
  "tcp_sock_saw_accecn_opt tgt = bitfield tgt tcp_sock_bitfield_6 tcp_sock_bitfield_6_update 4 2"

definition tcp_sock_bpf_chg_cc_inprogress :: "target \<Rightarrow> (tcp_sock, u8) accessor" where
  "tcp_sock_bpf_chg_cc_inprogress tgt = bitfield tgt tcp_sock_bitfield_7 tcp_sock_bitfield_7_update 0 1"

definition tcp_sock_new_bitfield_1 ::
  "target \<Rightarrow> u8 \<Rightarrow> u8 \<Rightarrow> u8 \<Rightarrow> u8 \<Rightarrow> u8 \<Rightarrow>
    (unit, unit) outcome \<times> BindgenBitfieldUnit" where
  "tcp_sock_new_bitfield_1 tgt repair tcp_usec_ts is_sack_reneg is_cwnd_limited recvmsg_inq =
     new_bitfield tgt 1
     [(0, 1, ucast repair), (1, 1, ucast tcp_usec_ts), (2, 1, ucast is_sack_reneg), (3, 1, ucast
      is_cwnd_limited), (4, 1, ucast recvmsg_inq)]"

definition tcp_sock_new_bitfield_2 ::
  "target \<Rightarrow> (unit, unit) outcome \<times> BindgenBitfieldUnit" where
  "tcp_sock_new_bitfield_2 tgt =
     new_bitfield tgt 24
     []"

definition tcp_sock_new_bitfield_3 ::
  "target \<Rightarrow> u8 \<Rightarrow> u8 \<Rightarrow> u8 \<Rightarrow> u8 \<Rightarrow> u8 \<Rightarrow> u8
    \<Rightarrow> u8 \<Rightarrow> u8 \<Rightarrow> u8 \<Rightarrow> (unit, unit) outcome \<times>
    BindgenBitfieldUnit" where
  "tcp_sock_new_bitfield_3 tgt nonagle rate_app_limited received_ce_pending accecn_opt_sent_w_dsack unused2
    accecn_minlen est_ecnfield accecn_opt_demand prev_ecnfield =
     new_bitfield tgt 3
     [(0, 4, ucast nonagle), (4, 1, ucast rate_app_limited), (8, 4, ucast received_ce_pending), (12, 1, ucast
      accecn_opt_sent_w_dsack), (13, 3, ucast unused2), (16, 2, ucast accecn_minlen), (18, 2, ucast
      est_ecnfield), (20, 2, ucast accecn_opt_demand), (22, 2, ucast prev_ecnfield)]"

definition tcp_sock_new_bitfield_4 ::
  "target \<Rightarrow> u8 \<Rightarrow> u8 \<Rightarrow> u8 \<Rightarrow> u8 \<Rightarrow> u8 \<Rightarrow> u8
    \<Rightarrow> u8 \<Rightarrow> u8 \<Rightarrow> u8 \<Rightarrow> (unit, unit) outcome \<times>
    BindgenBitfieldUnit" where
  "tcp_sock_new_bitfield_4 tgt dup_ack_counter tlp_retrans syn_ect_snt syn_ect_rcv thin_lto fastopen_connect
    fastopen_no_cookie fastopen_client_fail frto =
     new_bitfield tgt 2
     [(0, 2, ucast dup_ack_counter), (2, 1, ucast tlp_retrans), (3, 2, ucast syn_ect_snt), (5, 2, ucast
      syn_ect_rcv), (7, 1, ucast thin_lto), (8, 1, ucast fastopen_connect), (9, 1, ucast fastopen_no_cookie),
      (10, 2, ucast fastopen_client_fail), (12, 1, ucast frto)]"

definition tcp_sock_new_bitfield_5 ::
  "target \<Rightarrow> u8 \<Rightarrow> u8 \<Rightarrow> u8 \<Rightarrow> u8 \<Rightarrow> u8 \<Rightarrow> u8
    \<Rightarrow> u8 \<Rightarrow> (unit, unit) outcome \<times> BindgenBitfieldUnit" where
  "tcp_sock_new_bitfield_5 tgt save_syn syn_data syn_fastopen syn_fastopen_exp syn_fastopen_ch
    syn_data_acked syn_fastopen_child =
     new_bitfield tgt 1
     [(0, 2, ucast save_syn), (2, 1, ucast syn_data), (3, 1, ucast syn_fastopen), (4, 1, ucast
      syn_fastopen_exp), (5, 1, ucast syn_fastopen_ch), (6, 1, ucast syn_data_acked), (7, 1, ucast
      syn_fastopen_child)]"

definition tcp_sock_new_bitfield_6 ::
  "target \<Rightarrow> u8 \<Rightarrow> u8 \<Rightarrow> (unit, unit) outcome \<times> BindgenBitfieldUnit" where
  "tcp_sock_new_bitfield_6 tgt accecn_fail_mode saw_accecn_opt =
     new_bitfield tgt 1
     [(0, 4, ucast accecn_fail_mode), (4, 2, ucast saw_accecn_opt)]"

definition tcp_sock_new_bitfield_7 ::
  "target \<Rightarrow> u8 \<Rightarrow> (unit, unit) outcome \<times> BindgenBitfieldUnit" where
  "tcp_sock_new_bitfield_7 tgt bpf_chg_cc_inprogress =
     new_bitfield tgt 1
     [(0, 1, ucast bpf_chg_cc_inprogress)]"

definition tcp_sock_fields1 :: "target \<Rightarrow> (tcp_sock, u8) accessor list" where
  "tcp_sock_fields1 tgt =
     [tcp_sock_repair tgt, tcp_sock_tcp_usec_ts tgt, tcp_sock_is_sack_reneg tgt, tcp_sock_is_cwnd_limited tgt,
     tcp_sock_recvmsg_inq tgt]"

definition tcp_sock_ranges1 :: "(nat \<times> nat) list" where
  "tcp_sock_ranges1 =
     [(0, 1), (1, 1), (2, 1), (3, 1), (4, 1)]"

definition tcp_sock_fields3 :: "target \<Rightarrow> (tcp_sock, u8) accessor list" where
  "tcp_sock_fields3 tgt =
     [tcp_sock_nonagle tgt, tcp_sock_rate_app_limited tgt, tcp_sock_received_ce_pending tgt,
     tcp_sock_accecn_opt_sent_w_dsack tgt, tcp_sock_unused2 tgt, tcp_sock_accecn_minlen tgt,
     tcp_sock_est_ecnfield tgt, tcp_sock_accecn_opt_demand tgt, tcp_sock_prev_ecnfield tgt]"

definition tcp_sock_ranges3 :: "(nat \<times> nat) list" where
  "tcp_sock_ranges3 =
     [(0, 4), (4, 1), (8, 4), (12, 1), (13, 3), (16, 2), (18, 2), (20, 2), (22, 2)]"

definition tcp_sock_fields4 :: "target \<Rightarrow> (tcp_sock, u8) accessor list" where
  "tcp_sock_fields4 tgt =
     [tcp_sock_dup_ack_counter tgt, tcp_sock_tlp_retrans tgt, tcp_sock_syn_ect_snt tgt, tcp_sock_syn_ect_rcv
     tgt, tcp_sock_thin_lto tgt, tcp_sock_fastopen_connect tgt, tcp_sock_fastopen_no_cookie tgt,
     tcp_sock_fastopen_client_fail tgt, tcp_sock_frto tgt]"

definition tcp_sock_ranges4 :: "(nat \<times> nat) list" where
  "tcp_sock_ranges4 =
     [(0, 2), (2, 1), (3, 2), (5, 2), (7, 1), (8, 1), (9, 1), (10, 2), (12, 1)]"

definition tcp_sock_fields5 :: "target \<Rightarrow> (tcp_sock, u8) accessor list" where
  "tcp_sock_fields5 tgt =
     [tcp_sock_save_syn tgt, tcp_sock_syn_data tgt, tcp_sock_syn_fastopen tgt, tcp_sock_syn_fastopen_exp tgt,
     tcp_sock_syn_fastopen_ch tgt, tcp_sock_syn_data_acked tgt, tcp_sock_syn_fastopen_child tgt]"

definition tcp_sock_ranges5 :: "(nat \<times> nat) list" where
  "tcp_sock_ranges5 =
     [(0, 2), (2, 1), (3, 1), (4, 1), (5, 1), (6, 1), (7, 1)]"

definition tcp_sock_fields6 :: "target \<Rightarrow> (tcp_sock, u8) accessor list" where
  "tcp_sock_fields6 tgt =
     [tcp_sock_accecn_fail_mode tgt, tcp_sock_saw_accecn_opt tgt]"

definition tcp_sock_ranges6 :: "(nat \<times> nat) list" where
  "tcp_sock_ranges6 =
     [(0, 4), (4, 2)]"

definition tcp_sock_fields7 :: "target \<Rightarrow> (tcp_sock, u8) accessor list" where
  "tcp_sock_fields7 tgt =
     [tcp_sock_bpf_chg_cc_inprogress tgt]"

definition tcp_sock_ranges7 :: "(nat \<times> nat) list" where
  "tcp_sock_ranges7 =
     [(0, 1)]"

section \<open>The tables match the methods\<close>

interpretation sock_bits1: bitfield_struct sock_bitfield_1 sock_bitfield_1_update 1
    sock_fields1 sock_ranges1
  by unfold_locales (simp_all add: fields_ok_def sock_fields1_def sock_ranges1_def
      sock_sk_gso_disabled_def sock_sk_kern_sock_def sock_sk_no_check_tx_def sock_sk_no_check_rx_def)

lemma sock_constructs1:
  "constructs sock_bitfield_1 1 sock_fields1 sock_ranges1 tgt
       [sk_gso_disabled, sk_kern_sock, sk_no_check_tx, sk_no_check_rx]
       (sock_new_bitfield_1 tgt sk_gso_disabled sk_kern_sock sk_no_check_tx sk_no_check_rx)"
  by (rule sock_bits1.new_constructs) (simp_all add: sock_new_bitfield_1_def sock_ranges1_def)

interpretation sock_bits2: bitfield_struct sock_bitfield_2 sock_bitfield_2_update 1
    sock_fields2 sock_ranges2
  by unfold_locales (simp_all add: fields_ok_def sock_fields2_def sock_ranges2_def
      sock_sk_txtime_deadline_mode_def sock_sk_txtime_report_errors_def sock_sk_txtime_unused_def)

lemma sock_constructs2:
  "constructs sock_bitfield_2 1 sock_fields2 sock_ranges2 tgt
       [sk_txtime_deadline_mode, sk_txtime_report_errors, sk_txtime_unused]
       (sock_new_bitfield_2 tgt sk_txtime_deadline_mode sk_txtime_report_errors sk_txtime_unused)"
  by (rule sock_bits2.new_constructs) (simp_all add: sock_new_bitfield_2_def sock_ranges2_def)

text \<open>All units of \<open>sock\<close>.\<close>

definition sock_units :: "sock unit_slot list" where
  "sock_units =
     [\<lparr>slot_sel = sock_bitfield_1, slot_upd = sock_bitfield_1_update, slot_size = 1\<rparr>,
      \<lparr>slot_sel = sock_bitfield_2, slot_upd = sock_bitfield_2_update, slot_size = 1\<rparr>]"

definition sock_layout :: "(nat \<times> nat \<times> nat) list" where
  "sock_layout = map (Pair 0) sock_ranges1 @ map (Pair 1) sock_ranges2"

definition sock_fields :: "target \<Rightarrow> (sock, u8) accessor list" where
  "sock_fields tgt = sock_fields1 tgt @ sock_fields2 tgt"

interpretation sock_bits: bitfield_units sock_units sock_layout sock_fields
proof
  show "slots_lens sock_units" by (simp add: slots_lens_def sock_units_def)
  show "layout_ok LENGTH(8) (map slot_size sock_units) sock_layout"
    by (simp add: layout_ok_def sock_layout_def sock_units_def
      sock_ranges1_def sock_ranges2_def)
  show "sock_fields tgt = map (\<lambda>(k, off, w). bitfield tgt (slot_sel (sock_units ! k)) (slot_upd (sock_units ! k)) off w) sock_layout" for tgt
    by (simp add: sock_fields_def sock_layout_def sock_units_def case_prod_beta'
      sock_bits1.generated sock_bits2.generated)
qed simp

interpretation sock_scm_bits: bitfield_struct sock_scm_bitfield_1 sock_scm_bitfield_1_update 1
    sock_scm_fields sock_scm_ranges
  by unfold_locales (simp_all add: fields_ok_def sock_scm_fields_def sock_scm_ranges_def
      sock_scm_sk_scm_credentials_def sock_scm_sk_scm_security_def sock_scm_sk_scm_pidfd_def
      sock_scm_sk_scm_rights_def sock_scm_sk_scm_unused_def)

lemma sock_scm_constructs:
  "constructs sock_scm_bitfield_1 1 sock_scm_fields sock_scm_ranges tgt
       [sk_scm_credentials, sk_scm_security, sk_scm_pidfd, sk_scm_rights, sk_scm_unused]
       (sock_scm_new_bitfield_1 tgt sk_scm_credentials sk_scm_security sk_scm_pidfd sk_scm_rights sk_scm_unused)"
  by (rule sock_scm_bits.new_constructs) (simp_all add: sock_scm_new_bitfield_1_def sock_scm_ranges_def)

interpretation request_sock_bits: bitfield_struct request_sock_bitfield_1 request_sock_bitfield_1_update 1
    request_sock_fields request_sock_ranges
  by unfold_locales (simp_all add: fields_ok_def request_sock_fields_def request_sock_ranges_def
      request_sock_syncookie_def request_sock_num_timeout_def)

lemma request_sock_constructs:
  "constructs request_sock_bitfield_1 1 request_sock_fields request_sock_ranges tgt
       [syncookie, num_timeout]
       (request_sock_new_bitfield_1 tgt syncookie num_timeout)"
  by (rule request_sock_bits.new_constructs) (simp_all add: request_sock_new_bitfield_1_def request_sock_ranges_def)

interpretation icsk_ack_bits: bitfield_struct icsk_ack_bitfield_1 icsk_ack_bitfield_1_update 4
    icsk_ack_fields icsk_ack_ranges
  by unfold_locales (simp_all add: fields_ok_def icsk_ack_fields_def icsk_ack_ranges_def
      icsk_ack_ato_def icsk_ack_lrcv_flowlabel_def icsk_ack_dst_quick_ack_def icsk_ack_unused_def)

lemma icsk_ack_constructs:
  "constructs icsk_ack_bitfield_1 4 icsk_ack_fields icsk_ack_ranges tgt
       [ato, lrcv_flowlabel, dst_quick_ack, unused]
       (icsk_ack_new_bitfield_1 tgt ato lrcv_flowlabel dst_quick_ack unused)"
  by (rule icsk_ack_bits.new_constructs) (simp_all add: icsk_ack_new_bitfield_1_def icsk_ack_ranges_def)

interpretation icsk_mtup_bits: bitfield_struct icsk_mtup_bitfield_1 icsk_mtup_bitfield_1_update 4
    icsk_mtup_fields icsk_mtup_ranges
  by unfold_locales (simp_all add: fields_ok_def icsk_mtup_fields_def icsk_mtup_ranges_def
      icsk_mtup_probe_size_def icsk_mtup_enabled_def)

lemma icsk_mtup_constructs:
  "constructs icsk_mtup_bitfield_1 4 icsk_mtup_fields icsk_mtup_ranges tgt
       [probe_size, enabled]
       (icsk_mtup_new_bitfield_1 tgt probe_size enabled)"
  by (rule icsk_mtup_bits.new_constructs) (simp_all add: icsk_mtup_new_bitfield_1_def icsk_mtup_ranges_def)

interpretation inet_csk_bits: bitfield_struct inet_csk_bitfield_1 inet_csk_bitfield_1_update 1
    inet_csk_fields inet_csk_ranges
  by unfold_locales (simp_all add: fields_ok_def inet_csk_fields_def inet_csk_ranges_def
      inet_csk_icsk_ca_state_def inet_csk_icsk_ca_initialized_def inet_csk_icsk_ca_setsockopt_def
      inet_csk_icsk_ca_dst_locked_def)

lemma inet_csk_constructs:
  "constructs inet_csk_bitfield_1 1 inet_csk_fields inet_csk_ranges tgt
       [icsk_ca_state, icsk_ca_initialized, icsk_ca_setsockopt, icsk_ca_dst_locked]
       (inet_csk_new_bitfield_1 tgt icsk_ca_state icsk_ca_initialized icsk_ca_setsockopt icsk_ca_dst_locked)"
  by (rule inet_csk_bits.new_constructs) (simp_all add: inet_csk_new_bitfield_1_def inet_csk_ranges_def)

interpretation tcp_rack_bits: bitfield_struct tcp_rack_bitfield_1 tcp_rack_bitfield_1_update 1
    tcp_rack_fields tcp_rack_ranges
  by unfold_locales (simp_all add: fields_ok_def tcp_rack_fields_def tcp_rack_ranges_def
      tcp_rack_reo_wnd_persist_def tcp_rack_dsack_seen_def tcp_rack_advanced_def)

lemma tcp_rack_constructs:
  "constructs tcp_rack_bitfield_1 1 tcp_rack_fields tcp_rack_ranges tgt
       [reo_wnd_persist, dsack_seen, advanced]
       (tcp_rack_new_bitfield_1 tgt reo_wnd_persist dsack_seen advanced)"
  by (rule tcp_rack_bits.new_constructs) (simp_all add: tcp_rack_new_bitfield_1_def tcp_rack_ranges_def)

interpretation tcp_sock_bits1: bitfield_struct tcp_sock_bitfield_1 tcp_sock_bitfield_1_update 1
    tcp_sock_fields1 tcp_sock_ranges1
  by unfold_locales (simp_all add: fields_ok_def tcp_sock_fields1_def tcp_sock_ranges1_def
      tcp_sock_repair_def tcp_sock_tcp_usec_ts_def tcp_sock_is_sack_reneg_def tcp_sock_is_cwnd_limited_def
      tcp_sock_recvmsg_inq_def)

lemma tcp_sock_constructs1:
  "constructs tcp_sock_bitfield_1 1 tcp_sock_fields1 tcp_sock_ranges1 tgt
       [repair, tcp_usec_ts, is_sack_reneg, is_cwnd_limited, recvmsg_inq]
       (tcp_sock_new_bitfield_1 tgt repair tcp_usec_ts is_sack_reneg is_cwnd_limited recvmsg_inq)"
  by (rule tcp_sock_bits1.new_constructs) (simp_all add: tcp_sock_new_bitfield_1_def tcp_sock_ranges1_def)

interpretation tcp_sock_bits3: bitfield_struct tcp_sock_bitfield_3 tcp_sock_bitfield_3_update 3
    tcp_sock_fields3 tcp_sock_ranges3
  by unfold_locales (simp_all add: fields_ok_def tcp_sock_fields3_def tcp_sock_ranges3_def
      tcp_sock_nonagle_def tcp_sock_rate_app_limited_def tcp_sock_received_ce_pending_def
      tcp_sock_accecn_opt_sent_w_dsack_def tcp_sock_unused2_def tcp_sock_accecn_minlen_def
      tcp_sock_est_ecnfield_def tcp_sock_accecn_opt_demand_def tcp_sock_prev_ecnfield_def)

lemma tcp_sock_constructs3:
  "constructs tcp_sock_bitfield_3 3 tcp_sock_fields3 tcp_sock_ranges3 tgt
       [nonagle, rate_app_limited, received_ce_pending, accecn_opt_sent_w_dsack, unused2, accecn_minlen,
        est_ecnfield, accecn_opt_demand, prev_ecnfield]
       (tcp_sock_new_bitfield_3 tgt nonagle rate_app_limited received_ce_pending accecn_opt_sent_w_dsack unused2 accecn_minlen est_ecnfield
        accecn_opt_demand prev_ecnfield)"
  by (rule tcp_sock_bits3.new_constructs) (simp_all add: tcp_sock_new_bitfield_3_def tcp_sock_ranges3_def)

interpretation tcp_sock_bits4: bitfield_struct tcp_sock_bitfield_4 tcp_sock_bitfield_4_update 2
    tcp_sock_fields4 tcp_sock_ranges4
  by unfold_locales (simp_all add: fields_ok_def tcp_sock_fields4_def tcp_sock_ranges4_def
      tcp_sock_dup_ack_counter_def tcp_sock_tlp_retrans_def tcp_sock_syn_ect_snt_def tcp_sock_syn_ect_rcv_def
      tcp_sock_thin_lto_def tcp_sock_fastopen_connect_def tcp_sock_fastopen_no_cookie_def
      tcp_sock_fastopen_client_fail_def tcp_sock_frto_def)

lemma tcp_sock_constructs4:
  "constructs tcp_sock_bitfield_4 2 tcp_sock_fields4 tcp_sock_ranges4 tgt
       [dup_ack_counter, tlp_retrans, syn_ect_snt, syn_ect_rcv, thin_lto, fastopen_connect, fastopen_no_cookie,
        fastopen_client_fail, frto]
       (tcp_sock_new_bitfield_4 tgt dup_ack_counter tlp_retrans syn_ect_snt syn_ect_rcv thin_lto fastopen_connect fastopen_no_cookie
        fastopen_client_fail frto)"
  by (rule tcp_sock_bits4.new_constructs) (simp_all add: tcp_sock_new_bitfield_4_def tcp_sock_ranges4_def)

interpretation tcp_sock_bits5: bitfield_struct tcp_sock_bitfield_5 tcp_sock_bitfield_5_update 1
    tcp_sock_fields5 tcp_sock_ranges5
  by unfold_locales (simp_all add: fields_ok_def tcp_sock_fields5_def tcp_sock_ranges5_def
      tcp_sock_save_syn_def tcp_sock_syn_data_def tcp_sock_syn_fastopen_def tcp_sock_syn_fastopen_exp_def
      tcp_sock_syn_fastopen_ch_def tcp_sock_syn_data_acked_def tcp_sock_syn_fastopen_child_def)

lemma tcp_sock_constructs5:
  "constructs tcp_sock_bitfield_5 1 tcp_sock_fields5 tcp_sock_ranges5 tgt
       [save_syn, syn_data, syn_fastopen, syn_fastopen_exp, syn_fastopen_ch, syn_data_acked, syn_fastopen_child]
       (tcp_sock_new_bitfield_5 tgt save_syn syn_data syn_fastopen syn_fastopen_exp syn_fastopen_ch syn_data_acked syn_fastopen_child)"
  by (rule tcp_sock_bits5.new_constructs) (simp_all add: tcp_sock_new_bitfield_5_def tcp_sock_ranges5_def)

interpretation tcp_sock_bits6: bitfield_struct tcp_sock_bitfield_6 tcp_sock_bitfield_6_update 1
    tcp_sock_fields6 tcp_sock_ranges6
  by unfold_locales (simp_all add: fields_ok_def tcp_sock_fields6_def tcp_sock_ranges6_def
      tcp_sock_accecn_fail_mode_def tcp_sock_saw_accecn_opt_def)

lemma tcp_sock_constructs6:
  "constructs tcp_sock_bitfield_6 1 tcp_sock_fields6 tcp_sock_ranges6 tgt
       [accecn_fail_mode, saw_accecn_opt]
       (tcp_sock_new_bitfield_6 tgt accecn_fail_mode saw_accecn_opt)"
  by (rule tcp_sock_bits6.new_constructs) (simp_all add: tcp_sock_new_bitfield_6_def tcp_sock_ranges6_def)

interpretation tcp_sock_bits7: bitfield_struct tcp_sock_bitfield_7 tcp_sock_bitfield_7_update 1
    tcp_sock_fields7 tcp_sock_ranges7
  by unfold_locales (simp_all add: fields_ok_def tcp_sock_fields7_def tcp_sock_ranges7_def
      tcp_sock_bpf_chg_cc_inprogress_def)

lemma tcp_sock_constructs7:
  "constructs tcp_sock_bitfield_7 1 tcp_sock_fields7 tcp_sock_ranges7 tgt
       [bpf_chg_cc_inprogress]
       (tcp_sock_new_bitfield_7 tgt bpf_chg_cc_inprogress)"
  by (rule tcp_sock_bits7.new_constructs) (simp_all add: tcp_sock_new_bitfield_7_def tcp_sock_ranges7_def)

text \<open>All units of \<open>tcp_sock\<close>.\<close>

definition tcp_sock_units :: "tcp_sock unit_slot list" where
  "tcp_sock_units =
     [\<lparr>slot_sel = tcp_sock_bitfield_1, slot_upd = tcp_sock_bitfield_1_update, slot_size = 1\<rparr>,
      \<lparr>slot_sel = tcp_sock_bitfield_3, slot_upd = tcp_sock_bitfield_3_update, slot_size = 3\<rparr>,
      \<lparr>slot_sel = tcp_sock_bitfield_4, slot_upd = tcp_sock_bitfield_4_update, slot_size = 2\<rparr>,
      \<lparr>slot_sel = tcp_sock_bitfield_5, slot_upd = tcp_sock_bitfield_5_update, slot_size = 1\<rparr>,
      \<lparr>slot_sel = tcp_sock_bitfield_6, slot_upd = tcp_sock_bitfield_6_update, slot_size = 1\<rparr>,
      \<lparr>slot_sel = tcp_sock_bitfield_7, slot_upd = tcp_sock_bitfield_7_update, slot_size = 1\<rparr>]"

definition tcp_sock_layout :: "(nat \<times> nat \<times> nat) list" where
  "tcp_sock_layout = map (Pair 0) tcp_sock_ranges1 @ map (Pair 1) tcp_sock_ranges3 @ map (Pair 2) tcp_sock_ranges4 @ map (Pair
     3) tcp_sock_ranges5 @ map (Pair 4) tcp_sock_ranges6 @ map (Pair 5) tcp_sock_ranges7"

definition tcp_sock_fields :: "target \<Rightarrow> (tcp_sock, u8) accessor list" where
  "tcp_sock_fields tgt = tcp_sock_fields1 tgt @ tcp_sock_fields3 tgt @ tcp_sock_fields4 tgt @ tcp_sock_fields5 tgt @
     tcp_sock_fields6 tgt @ tcp_sock_fields7 tgt"

interpretation tcp_sock_bits: bitfield_units tcp_sock_units tcp_sock_layout tcp_sock_fields
proof
  show "slots_lens tcp_sock_units" by (simp add: slots_lens_def tcp_sock_units_def)
  show "layout_ok LENGTH(8) (map slot_size tcp_sock_units) tcp_sock_layout"
    by (simp add: layout_ok_def tcp_sock_layout_def tcp_sock_units_def
      tcp_sock_ranges1_def tcp_sock_ranges3_def tcp_sock_ranges4_def tcp_sock_ranges5_def tcp_sock_ranges6_def
      tcp_sock_ranges7_def)
  show "tcp_sock_fields tgt = map (\<lambda>(k, off, w). bitfield tgt (slot_sel (tcp_sock_units ! k)) (slot_upd (tcp_sock_units ! k)) off w) tcp_sock_layout" for tgt
    by (simp add: tcp_sock_fields_def tcp_sock_layout_def tcp_sock_units_def case_prod_beta'
      tcp_sock_bits1.generated tcp_sock_bits3.generated tcp_sock_bits4.generated tcp_sock_bits5.generated
      tcp_sock_bits6.generated tcp_sock_bits7.generated)
qed simp

text \<open>The second unit of \<open>tcp_sock\<close> is padding without fields.\<close>

lemma tcp_sock_padding: "tcp_sock_new_bitfield_2 tgt = (Ok (), unit_new (replicate 24 0))"
  by (simp add: tcp_sock_new_bitfield_2_def new_bitfield_def ret_def)

section \<open>Properties\<close>

text \<open>C40. The bit-field methods of every modelled struct, for both byte orders, with and without debug
  assertions, and on any contents of units of the declared sizes: a setter makes its own getter return
  the value cut to the field's width and leaves every other bit-field of the struct, in the same unit or
  another, as it was, and the raw methods do the same. And every constructor gives a unit of its size
  from which each of its arguments reads back, cut to the width of its field, with all bits outside the
  fields clear; the constructor of the one unit without fields gives it zeroed.\<close>

theorem struct_fields_law:
  "reads_back (\<lambda>h. length (storage (iphdr_bitfield_1 h)) = 1) iphdr_fields iphdr_ranges
   \<and> reads_back (\<lambda>p. length (storage (bpf_insn_bitfield_1 p)) = 1) bpf_insn_fields bpf_insn_ranges
   \<and> reads_back (\<lambda>s. length (storage (sk_buff_bitfield_1 s)) = 1) sk_buff_fields sk_buff_ranges
   \<and> reads_back (\<lambda>s. length (storage (skb1_bitfield_1 s)) = 1 \<and> length (storage (skb1_bitfield_2 s)) = 4)
       (\<lambda>tgt. skb1_fields1 tgt @ skb1_fields2 tgt) (skb1_ranges1 @ skb1_ranges2)
   \<and> reads_back (\<lambda>s. length (storage (skb2_bitfield_1 s)) = 1 \<and> length (storage (skb2_bitfield_2 s)) = 4)
       (\<lambda>tgt. skb2_fields1 tgt @ skb2_fields2 tgt) (skb2_ranges1 @ skb2_ranges2)
   \<and> reads_back (\<lambda>p. length (storage (bpf_prog_bitfield_1 p)) = 2) bpf_prog_fields bpf_prog_ranges
   \<and> reads_back (\<lambda>s. length (storage (sock_common_bitfield_1 s)) = 1) sock_common_fields sock_common_ranges
   \<and> reads_back (\<lambda>s. length (storage (ip_options_bitfield_1 s)) = 1) ip_options_fields ip_options_ranges
   \<and> reads_back (\<lambda>s. length (storage (inet_request_sock_bitfield_1 s)) = 2) inet_request_sock_fields inet_request_sock_ranges
   \<and> reads_back (\<lambda>s. length (storage (ipv6_rxopt_bitfield_1 s)) = 2) ipv6_rxopt_fields ipv6_rxopt_ranges
   \<and> reads_back (\<lambda>s. length (storage (perf_event_attr_bitfield_1 s)) = 8) perf_event_attr_fields perf_event_attr_ranges
   \<and> reads_back (\<lambda>s. length (storage (perf_mem_bitfield_1 s)) = 8) perf_mem_fields perf_mem_ranges
   \<and> reads_back (slots_ok sock_units) sock_fields (map snd sock_layout)
   \<and> reads_back (\<lambda>s. length (storage (sock_scm_bitfield_1 s)) = 1) sock_scm_fields sock_scm_ranges
   \<and> reads_back (\<lambda>s. length (storage (request_sock_bitfield_1 s)) = 1) request_sock_fields request_sock_ranges
   \<and> reads_back (\<lambda>s. length (storage (icsk_ack_bitfield_1 s)) = 4) icsk_ack_fields icsk_ack_ranges
   \<and> reads_back (\<lambda>s. length (storage (icsk_mtup_bitfield_1 s)) = 4) icsk_mtup_fields icsk_mtup_ranges
   \<and> reads_back (\<lambda>s. length (storage (inet_csk_bitfield_1 s)) = 1) inet_csk_fields inet_csk_ranges
   \<and> reads_back (\<lambda>s. length (storage (tcp_rack_bitfield_1 s)) = 1) tcp_rack_fields tcp_rack_ranges
   \<and> reads_back (slots_ok tcp_sock_units) tcp_sock_fields (map snd tcp_sock_layout)
   \<and> constructs iphdr_bitfield_1 1 iphdr_fields iphdr_ranges tgt
       [ihl, version]
       (iphdr_new_bitfield_1 tgt ihl version)
   \<and> constructs bpf_insn_bitfield_1 1 bpf_insn_fields bpf_insn_ranges tgt
       [dst_reg, src_reg]
       (bpf_insn_new_bitfield_1 tgt dst_reg src_reg)
   \<and> constructs sk_buff_bitfield_1 1 sk_buff_fields sk_buff_ranges tgt
       [cloned, nohdr, fclone, peeked, head_frag, pfmemalloc, pp_recycle]
       (sk_buff_new_bitfield_1 tgt cloned nohdr fclone peeked head_frag pfmemalloc pp_recycle)
   \<and> constructs skb1_bitfield_1 1 skb1_fields1 skb1_ranges1 tgt
       [pkt_type, ignore_df, dst_pending_confirm, ip_summed, ooo_okay]
       (skb1_new_bitfield_1 tgt pkt_type ignore_df dst_pending_confirm ip_summed ooo_okay)
   \<and> constructs skb1_bitfield_2 4 skb1_fields2 skb1_ranges2 tgt
       [tstamp_type, tc_at_ingress, tc_skip_classify, remcsum_offload, csum_complete_sw, csum_level,
        inner_protocol_type, l4_hash, sw_hash, wifi_acked_valid, wifi_acked, no_fcs, encapsulation,
        encap_hdr_csum, csum_valid, ndisc_nodetype, ipvs_property, nf_trace, offload_fwd_mark,
        offload_l3_fwd_mark, redirected, from_ingress, nf_skip_egress, decrypted, slow_gro, csum_not_inet,
        unreadable]
       (skb1_new_bitfield_2 tgt tstamp_type tc_at_ingress tc_skip_classify remcsum_offload csum_complete_sw csum_level
        inner_protocol_type l4_hash sw_hash wifi_acked_valid wifi_acked no_fcs encapsulation encap_hdr_csum
        csum_valid ndisc_nodetype ipvs_property nf_trace offload_fwd_mark offload_l3_fwd_mark redirected
        from_ingress nf_skip_egress decrypted slow_gro csum_not_inet unreadable)
   \<and> constructs skb2_bitfield_1 1 skb2_fields1 skb2_ranges1 tgt
       [pkt_type, ignore_df, dst_pending_confirm, ip_summed, ooo_okay]
       (skb2_new_bitfield_1 tgt pkt_type ignore_df dst_pending_confirm ip_summed ooo_okay)
   \<and> constructs skb2_bitfield_2 4 skb2_fields2 skb2_ranges2 tgt
       [tstamp_type, tc_at_ingress, tc_skip_classify, remcsum_offload, csum_complete_sw, csum_level,
        inner_protocol_type, l4_hash, sw_hash, wifi_acked_valid, wifi_acked, no_fcs, encapsulation,
        encap_hdr_csum, csum_valid, ndisc_nodetype, ipvs_property, nf_trace, offload_fwd_mark,
        offload_l3_fwd_mark, redirected, from_ingress, nf_skip_egress, decrypted, slow_gro, csum_not_inet,
        unreadable]
       (skb2_new_bitfield_2 tgt tstamp_type tc_at_ingress tc_skip_classify remcsum_offload csum_complete_sw csum_level
        inner_protocol_type l4_hash sw_hash wifi_acked_valid wifi_acked no_fcs encapsulation encap_hdr_csum
        csum_valid ndisc_nodetype ipvs_property nf_trace offload_fwd_mark offload_l3_fwd_mark redirected
        from_ingress nf_skip_egress decrypted slow_gro csum_not_inet unreadable)
   \<and> constructs bpf_prog_bitfield_1 2 bpf_prog_fields bpf_prog_ranges tgt
       [jited, jit_requested, gpl_compatible, cb_access, dst_needed, blinding_requested, blinded, is_func,
        kprobe_override, has_callchain_buf, enforce_expected_attach_type, call_get_stack, call_get_func_ip,
        call_session_cookie, tstamp_type_access, sleepable]
       (bpf_prog_new_bitfield_1 tgt jited jit_requested gpl_compatible cb_access dst_needed blinding_requested blinded is_func
        kprobe_override has_callchain_buf enforce_expected_attach_type call_get_stack call_get_func_ip
        call_session_cookie tstamp_type_access sleepable)
   \<and> constructs sock_common_bitfield_1 1 sock_common_fields sock_common_ranges tgt
       [skc_reuse, skc_reuseport, skc_ipv6only, skc_net_refcnt, skc_bypass_prot_mem]
       (sock_common_new_bitfield_1 tgt skc_reuse skc_reuseport skc_ipv6only skc_net_refcnt skc_bypass_prot_mem)
   \<and> constructs ip_options_bitfield_1 1 ip_options_fields ip_options_ranges tgt
       [is_strictroute, srr_is_hit, is_changed, rr_needaddr, ts_needtime, ts_needaddr]
       (ip_options_new_bitfield_1 tgt is_strictroute srr_is_hit is_changed rr_needaddr ts_needtime ts_needaddr)
   \<and> constructs inet_request_sock_bitfield_1 2 inet_request_sock_fields inet_request_sock_ranges tgt
       [snd_wscale, rcv_wscale, tstamp_ok, sack_ok, wscale_ok, ecn_ok, acked, no_srccheck, smc_ok]
       (inet_request_sock_new_bitfield_1 tgt snd_wscale rcv_wscale tstamp_ok sack_ok wscale_ok ecn_ok acked no_srccheck smc_ok)
   \<and> constructs ipv6_rxopt_bitfield_1 2 ipv6_rxopt_fields ipv6_rxopt_ranges tgt
       [srcrt, osrcrt, rxinfo, rxoinfo, rxhlim, rxohlim, hopopts, ohopopts, dstopts, odstopts, rxflow, rxtclass,
        rxpmtu, rxorigdstaddr, recvfragsize]
       (ipv6_rxopt_new_bitfield_1 tgt srcrt osrcrt rxinfo rxoinfo rxhlim rxohlim hopopts ohopopts dstopts odstopts rxflow rxtclass rxpmtu
        rxorigdstaddr recvfragsize)
   \<and> constructs perf_event_attr_bitfield_1 8 perf_event_attr_fields perf_event_attr_ranges tgt
       [disabled, inherit, pinned, exclusive, exclude_user, exclude_kernel, exclude_hv, exclude_idle, mmap, comm,
        freq, inherit_stat, enable_on_exec, task, watermark, precise_ip, mmap_data, sample_id_all, exclude_host,
        exclude_guest, exclude_callchain_kernel, exclude_callchain_user, mmap2, comm_exec, use_clockid,
        context_switch, write_backward, namespaces, ksymbol, bpf_event, aux_output, cgroup, text_poke, build_id,
        inherit_thread, remove_on_exec, sigtrap, defer_callchain, defer_output, reserved_1]
       (perf_event_attr_new_bitfield_1 tgt disabled inherit pinned exclusive exclude_user exclude_kernel exclude_hv exclude_idle mmap comm freq
        inherit_stat enable_on_exec task watermark precise_ip mmap_data sample_id_all exclude_host exclude_guest
        exclude_callchain_kernel exclude_callchain_user mmap2 comm_exec use_clockid context_switch write_backward
        namespaces ksymbol bpf_event aux_output cgroup text_poke build_id inherit_thread remove_on_exec sigtrap
        defer_callchain defer_output reserved_1)
   \<and> constructs perf_mem_bitfield_1 8 perf_mem_fields perf_mem_ranges tgt
       [mem_op, mem_lvl, mem_snoop, mem_lock, mem_dtlb, mem_lvl_num, mem_remote, mem_snoopx, mem_blk, mem_hops,
        mem_region, mem_rsvd]
       (perf_mem_new_bitfield_1 tgt mem_op mem_lvl mem_snoop mem_lock mem_dtlb mem_lvl_num mem_remote mem_snoopx mem_blk mem_hops mem_region
        mem_rsvd)
   \<and> constructs sock_bitfield_1 1 sock_fields1 sock_ranges1 tgt
       [sk_gso_disabled, sk_kern_sock, sk_no_check_tx, sk_no_check_rx]
       (sock_new_bitfield_1 tgt sk_gso_disabled sk_kern_sock sk_no_check_tx sk_no_check_rx)
   \<and> constructs sock_bitfield_2 1 sock_fields2 sock_ranges2 tgt
       [sk_txtime_deadline_mode, sk_txtime_report_errors, sk_txtime_unused]
       (sock_new_bitfield_2 tgt sk_txtime_deadline_mode sk_txtime_report_errors sk_txtime_unused)
   \<and> constructs sock_scm_bitfield_1 1 sock_scm_fields sock_scm_ranges tgt
       [sk_scm_credentials, sk_scm_security, sk_scm_pidfd, sk_scm_rights, sk_scm_unused]
       (sock_scm_new_bitfield_1 tgt sk_scm_credentials sk_scm_security sk_scm_pidfd sk_scm_rights sk_scm_unused)
   \<and> constructs request_sock_bitfield_1 1 request_sock_fields request_sock_ranges tgt
       [syncookie, num_timeout]
       (request_sock_new_bitfield_1 tgt syncookie num_timeout)
   \<and> constructs icsk_ack_bitfield_1 4 icsk_ack_fields icsk_ack_ranges tgt
       [ato, lrcv_flowlabel, dst_quick_ack, unused]
       (icsk_ack_new_bitfield_1 tgt ato lrcv_flowlabel dst_quick_ack unused)
   \<and> constructs icsk_mtup_bitfield_1 4 icsk_mtup_fields icsk_mtup_ranges tgt
       [probe_size, enabled]
       (icsk_mtup_new_bitfield_1 tgt probe_size enabled)
   \<and> constructs inet_csk_bitfield_1 1 inet_csk_fields inet_csk_ranges tgt
       [icsk_ca_state, icsk_ca_initialized, icsk_ca_setsockopt, icsk_ca_dst_locked]
       (inet_csk_new_bitfield_1 tgt icsk_ca_state icsk_ca_initialized icsk_ca_setsockopt icsk_ca_dst_locked)
   \<and> constructs tcp_rack_bitfield_1 1 tcp_rack_fields tcp_rack_ranges tgt
       [reo_wnd_persist, dsack_seen, advanced]
       (tcp_rack_new_bitfield_1 tgt reo_wnd_persist dsack_seen advanced)
   \<and> constructs tcp_sock_bitfield_1 1 tcp_sock_fields1 tcp_sock_ranges1 tgt
       [repair, tcp_usec_ts, is_sack_reneg, is_cwnd_limited, recvmsg_inq]
       (tcp_sock_new_bitfield_1 tgt repair tcp_usec_ts is_sack_reneg is_cwnd_limited recvmsg_inq)
   \<and> constructs tcp_sock_bitfield_3 3 tcp_sock_fields3 tcp_sock_ranges3 tgt
       [nonagle, rate_app_limited, received_ce_pending, accecn_opt_sent_w_dsack, unused2, accecn_minlen,
        est_ecnfield, accecn_opt_demand, prev_ecnfield]
       (tcp_sock_new_bitfield_3 tgt nonagle rate_app_limited received_ce_pending accecn_opt_sent_w_dsack unused2 accecn_minlen est_ecnfield
        accecn_opt_demand prev_ecnfield)
   \<and> constructs tcp_sock_bitfield_4 2 tcp_sock_fields4 tcp_sock_ranges4 tgt
       [dup_ack_counter, tlp_retrans, syn_ect_snt, syn_ect_rcv, thin_lto, fastopen_connect, fastopen_no_cookie,
        fastopen_client_fail, frto]
       (tcp_sock_new_bitfield_4 tgt dup_ack_counter tlp_retrans syn_ect_snt syn_ect_rcv thin_lto fastopen_connect fastopen_no_cookie
        fastopen_client_fail frto)
   \<and> constructs tcp_sock_bitfield_5 1 tcp_sock_fields5 tcp_sock_ranges5 tgt
       [save_syn, syn_data, syn_fastopen, syn_fastopen_exp, syn_fastopen_ch, syn_data_acked, syn_fastopen_child]
       (tcp_sock_new_bitfield_5 tgt save_syn syn_data syn_fastopen syn_fastopen_exp syn_fastopen_ch syn_data_acked syn_fastopen_child)
   \<and> constructs tcp_sock_bitfield_6 1 tcp_sock_fields6 tcp_sock_ranges6 tgt
       [accecn_fail_mode, saw_accecn_opt]
       (tcp_sock_new_bitfield_6 tgt accecn_fail_mode saw_accecn_opt)
   \<and> constructs tcp_sock_bitfield_7 1 tcp_sock_fields7 tcp_sock_ranges7 tgt
       [bpf_chg_cc_inprogress]
       (tcp_sock_new_bitfield_7 tgt bpf_chg_cc_inprogress)
   \<and> tcp_sock_new_bitfield_2 tgt = (Ok (), unit_new (replicate 24 0))"
  by (intro conjI; rule tcp_sock_padding ip_bits.unit_reads_back insn_bits.unit_reads_back skbuff_bits.unit_reads_back prog_bits.unit_reads_back
      sock_bits.unit_reads_back skb1_bits.pair_reads_back skb2_bits.pair_reads_back ip_options_bits.unit_reads_back inet_request_sock_bits.unit_reads_back ipv6_rxopt_bits.unit_reads_back
      perf_event_attr_bits.unit_reads_back perf_mem_bits.unit_reads_back
      sock_bits.units_read_back sock_scm_bits.unit_reads_back request_sock_bits.unit_reads_back
      icsk_ack_bits.unit_reads_back icsk_mtup_bits.unit_reads_back inet_csk_bits.unit_reads_back
      tcp_rack_bits.unit_reads_back tcp_sock_bits.units_read_back 
      iphdr_constructs bpf_insn_constructs sk_buff_constructs skb1_constructs1 skb1_constructs2
      skb2_constructs1 skb2_constructs2 bpf_prog_constructs sock_common_constructs ip_options_constructs
      inet_request_sock_constructs ipv6_rxopt_constructs perf_event_attr_constructs perf_mem_constructs
      sock_constructs1 sock_constructs2 sock_scm_constructs request_sock_constructs icsk_ack_constructs
      icsk_mtup_constructs inet_csk_constructs tcp_rack_constructs tcp_sock_constructs1 tcp_sock_constructs3
      tcp_sock_constructs4 tcp_sock_constructs5 tcp_sock_constructs6 tcp_sock_constructs7)

end
