(* ===== verification/Spec2Isabelle.thy ===== *)
theory Spec2Isabelle
  imports Daemon Accounting Arrivals Logger Ip_Text Vmlinux_Tcp
begin

text \<open>
  A verification development for \<open>ebpf-profiler\<close> (crates \<open>cilium-mini-common\<close>, \<open>cilium-mini-ebpf\<close>,
  \<open>cilium-mini-rs\<close>): a traffic-control eBPF program copies DNS responses into a ring buffer, and a
  daemon reads them, parses them, keeps a log and adds the addresses of allowed domains to a kernel
  map.

  \<^bold>\<open>Parts and theories.\<close>

  \<^item> \<open>Prelude\<close>: machine integers as words; outcomes \<open>Ok\<close>, \<open>Err\<close>, \<open>Panic\<close>; programs over a state
    that survives an error, as a \<open>&mut\<close> argument does; slices with Rust's bounds checks; byte orders.
  \<^item> \<open>Common\<close> (\<open>cilium-mini-common/src/lib.rs\<close>): \<open>RawIpAddr\<close>, \<open>RawDnsEvent\<close>, their constructors,
    \<open>write_to\<close>, their C layout and their memory images. Locales \<open>pod\<close> and \<open>pod_words\<close>: structs that
    cross the kernel boundary as bytes.
  \<^item> \<open>Classifier\<close> (\<open>cilium-mini-ebpf/src/main.rs\<close>): \<open>dns_tc\<close>, \<open>try_dns_tc\<close>, \<open>parse_udp\<close>, \<open>ptr_at\<close>,
    \<open>get_ipv4_header_len\<close> over 64-bit addresses that wrap; a load outside the packet is a fault. The
    specification \<open>dns_response\<close> reads the packet's bytes; \<open>dns_tc\<close> refines it.
  \<^item> \<open>Ip_Fmt\<close>: the standard library's \<open>Display\<close> of IPv4 and IPv6 addresses, with lengths and
    injectivity. \<open>Ip_Text\<close>: a reader of that text, and what of a parsed response can be read back.
  \<^item> \<open>Dns_Parser\<close> (\<open>cilium-mini-rs/src/parser.rs\<close>, \<open>proto/network_event.proto\<close>): all functions of the
    parser; the two name loops are recursive functions with termination proofs. \<open>Dns_Names\<close>: names on
    the wire, as labels, and the locale \<open>name_scanner\<close> that both loops interpret. \<open>Dns_Answers\<close>: the
    answer section and the whole parser.
  \<^item> \<open>Policy\<close> (\<open>cilium-mini-rs/src/policy.rs\<close>): the trait \<open>DnsObserver\<close> as the locale \<open>dns_observer\<close>,
    and the FQDN engine that interprets it for every kernel map.
  \<^item> \<open>Commit_Log\<close>, \<open>Topology\<close>, \<open>Pipeline\<close> (\<open>cilium-mini-rs/src/topology.rs\<close>): the writer thread with
    the standard library's \<open>BufWriter\<close>; the loop bodies of the three tasks and their interleaving as
    the labelled step relation \<open>step\<close>, with \<open>runs\<close> for its traces; the invariants and properties of all
    runs.
  \<^item> \<open>Liveness\<close>, \<open>Event_Loop\<close> (the same file): which task can move when, the measure \<open>work\<close> of what is
    left to do, infinite runs and weak fairness, and the locale \<open>fifo_stage\<close>, interpreted on the ring and
    both channels; the reader's loop with the readiness of its descriptor (\<open>loop_step\<close>), which refines
    \<open>step\<close>.
  \<^item> \<open>Async_Fd\<close>: the descriptor of \<open>tokio\<close> and, as the relation \<open>waits\<close>, the specification of a loop that
    waits for it; the locale \<open>waiting_loop\<close> is interpreted on the reader's loop and on the task of
    \<open>Logger\<close> (\<open>setup_ebpf_logging\<close> in \<open>cilium-mini-rs/src/main.rs\<close>), which forwards the kernel's log.
  \<^item> \<open>Daemon\<close> (\<open>cilium-mini-rs/src/main.rs\<close>, both \<open>build.rs\<close>): the start-up as a program over the calls
    made so far, with every failing branch.
  \<^item> \<open>Bitfield\<close>, \<open>Vmlinux\<close> (\<open>cilium-mini-ebpf/src/vmlinux.rs\<close>): the bit-field runtime of the generated
    kernel bindings for both byte orders, with its debug assertions (the record \<open>target\<close> says whether the
    build has them), and the accessors and constructors of the IPv4 header, the BPF instruction and
    the socket buffer; \<open>Vmlinux_Prog\<close>: the BPF program and the common part of a socket; \<open>Vmlinux_Net\<close>: IPv4
    options, inet connection requests, IPv6 receive options and two structs of perf; \<open>Vmlinux_Tcp\<close>: the
    socket, the connection socket and the TCP socket. Locale \<open>bitfield_units\<close> for a struct with any number
    of bit-field units, with \<open>bitfield_struct\<close> and \<open>bitfield_pair\<close> as sublocales for one and two, interpreted
    on each of them. \<open>Bitfield_Word\<close>: a unit as one integer, its fields as shifts and masks of it.
  \<^item> \<open>Traffic\<close>: packets that arrive while the tasks run (\<open>traffic\<close>), with the ring's capacity, and what the
    packets should leave in the log, as a function of the packets (\<open>packet_responses\<close>). \<open>Accounting\<close>: where
    each response is at any moment, counted as multisets. \<open>Arrivals\<close>: traffic without end
    (\<open>traffic_behaviour\<close>), its finite beginnings, and that every finite run continues fairly.
  \<^item> this theory: properties that span the kernel side and the daemon.

  \<^bold>\<open>What is assumed.\<close> Code outside the repository is a parameter with its documented
  behaviour as a named hypothesis: header types of \<open>network_types\<close> (\<open>net_ok\<close>), the
  packet's address range and the reserved ring memory (\<open>ctx_ok\<close>, \<open>env_ok\<close>), when
  the ring is full (\<open>ring_room\<close>), the kernel hash map (\<open>bpf_hash\<close>,
  \<open>bounded_hash\<close>), the channels of \<open>thingbuf\<close> (\<open>channel_ok\<close>), the
  descriptor of \<open>tokio\<close> (\<open>async_fd_ok\<close>, \<open>registered\<close>), the logger of
  \<open>aya_log\<close> (\<open>logger_ok\<close>, \<open>log_registered\<close>), the file and the
  \<open>prost\<close> encoder (\<open>appends\<close>, \<open>progress\<close>, \<open>remembers\<close>, \<open>encodes\<close>),
  and one result per library call of the start-up (\<open>host\<close>). Each has a concrete instance that
  the witnesses use.

  \<^bold>\<open>What is shown.\<close> The classifier passes every packet, reads only inside it and submits
  exactly the event of the response it carries. The parser accepts exactly the well-formed question names,
  panics exactly on events the classifier never makes, and its result depends on neither the recycled slot
  nor stale ring memory; the address text it writes reads back to the address. The engine inserts one key
  for an allowed domain and nothing else. Over all interleavings of packets and tasks the log is in order
  what the packets should leave, without the losses that a full ring or channel causes, and the books
  balance: each response of a packet is in exactly one place, refused, queued, dropped or logged; the
  tasks stay alive and the queues bounded; the log reads back to the old
  records and what was logged, and on a file whose writes fail it still grows by prefixes of the records
  only, complete if none failed. The hook is attached only after every call it depends on succeeded.
  The reader's loop loses no wake-up; without new items the tasks come to rest within a bounded number of
  moves and everything is handled; with packets arriving for ever, under a fair scheduler, the response of
  every packet is shown to the engine and logged unless the ring is full when it comes or a full channel
  drops it, the address of an allowed response (one address record, within the 512 bytes that are copied) is
  eventually in the kernel map for good unless the map refuses it, and every finite run can be continued
  fairly. The allow map only grows and stops at its declared
  size. The task that forwards the kernel's log loses and reorders nothing. The bit loops of the bindings
  compute shifts and masks and panic where an assertion fails, bit-fields obey read-over-write and
  constructors give their arguments back. Six properties state behaviour that differs
  from the intended one: with several answers whose first two names are equally
  long (compression pointers) the first is read again and again, or hides the addresses if it is a
  \<open>CNAME\<close>, labels with dots collide with longer names, a failed flush can tear a log
  record, an exit loses what the log's buffer holds, and the text of several answers is no address.

  \<^bold>\<open>Bounds.\<close> The only loops that may not end are the operating system's interrupted
  writes (\<open>write_loop\<close>, a partial function into options); \<open>progress\<close> gives the
  rank under which they are proved to return. All other recursion is total. A draining pipeline makes at
  most five moves per item in the ring and 6010 more (two channels of 1000 messages and the tasks' own
  positions). The ring holds 114912 events of 576 bytes with their headers. Offsets in the parser are
  natural numbers: they stay below the length of a slice plus \<open>65545\<close>.

  \<^bold>\<open>Not modelled.\<close> Logging and debug output, the \<open>anyhow\<close> error rendering,
  the tokio scheduler beyond interleaving, fairness and readiness, the cancellation of the tasks when the
  runtime is dropped (an exit is any moment of a run), the protobuf encoding itself, the command-line
  parser, and the remaining structs and constants of the bindings. These are generated, and the program
  refers to none of them; what they contain besides plain data are bit-field methods of the shape that
  \<open>Bitfield\<close> treats for every offset and width.

  \<^bold>\<open>State of the plan.\<close> Every function of the three crates is in place, with safety,
  liveness and accounting of their composition from the packet to the log and the kernel map. A further
  struct of the bindings takes a record, its accessors and one interpretation of \<open>bitfield_units\<close>; a struct
  whose bit-fields have different integer types takes one table for each type.
\<close>

section \<open>From the packet to the allow-list\<close>

text \<open>The components composed: an event the classifier submits goes through the ring as its bytes, the
  reader takes it out, the parser fills a slot and the engine is updated. Channels and interleaving are
  in \<open>Pipeline\<close>; here one packet is followed through the functions.\<close>

definition deliver :: "('m, 'e) map_insert \<Rightarrow> bytes \<Rightarrow> 'm FqdnPolicyEngine \<Rightarrow> 'm FqdnPolicyEngine" where
  "deliver ins item eng =
     (case item_response item of None \<Rightarrow> eng | Some r \<Rightarrow> snd (update ins r eng))"

definition handle_packet ::
  "net_types \<Rightarrow> kernel_env \<Rightarrow> tc_context \<Rightarrow> ('m, 'e) map_insert \<Rightarrow> 'm FqdnPolicyEngine \<Rightarrow> 'm FqdnPolicyEngine" where
  "handle_packet net env ctx ins eng = fold (deliver ins) (packet_items net env ctx) eng"

text \<open>One packet with a one-answer response for an allowed domain, through the functions.\<close>

lemma one_answer_item:
  assumes "net_ok net" and "ctx_ok ctx" and "env_ok env" and "reserve env = Some stale"
    and "dns_response net (packet ctx) = Some d"
    and "one_answer_msg (take 512 (dp_payload d)) ls a"
    and "key = (if length a = 4 then from_ipv4 a else from_ipv6 a)"
  obtains item r where "packet_items net env ctx = [item]" and "item_response item = Some r"
    and "domain_name r = dotted ls" and "policy_key r = key"
    and "ip_family r = AF_INET \<and> 4 \<le> length (resolved_ip_raw r)
      \<or> ip_family r = AF_INET6 \<and> 16 \<le> length (resolved_ip_raw r)"
proof -
  let ?ev = "event_for d (ktime_end env) stale"
  let ?r = "(base_slot ?ev)\<lparr>domain_name := dotted ls, resolved_ip := addr_text a, resolved_ip_raw := a,
    ip_family := addr_family a\<rparr>"
  note e = event_for_item [OF assms(1,3,5,4)]
  have "one_answer_msg (live_payload ?ev) ls a" using assms(6) e(3) by simp
  then have "parse_dns_into ?ev default_DnsResponse = (Ok (), ?r)"
    using e(1,2,4,5) by (intro parse_one_answer) simp_all
  then have resp: "item_response (event_to_bytes ?ev) = Some ?r" by (simp add: e(6) event_response_def)
  have len: "length a = 4 \<or> length a = 16" using assms(6) by (auto simp: one_answer_msg_def)
  then have key: "policy_key ?r = key" using assms(7) by (auto simp: policy_key_def addr_family_def)
  have "packet_items net env ctx = [event_to_bytes ?ev]"
    using assms(4,5) by (simp add: packet_items_eq [OF assms(1-3)] events_of_def)
  then show ?thesis using resp key len by (intro that [of _ ?r]) (auto simp: addr_family_def)
qed

lemma handle_one_answer:
  assumes "net_ok net" and "ctx_ok ctx" and "env_ok env" and "reserve env = Some stale"
    and "dns_response net (packet ctx) = Some d"
    and "one_answer_msg (take 512 (dp_payload d)) ls a"
    and "key = (if length a = 4 then from_ipv4 a else from_ipv6 a)" and "dotted ls \<in> allowed_domains eng"
  shows "handle_packet net env ctx ins eng = eng\<lparr>allowed_ip_map := snd (ins key 0 0 (allowed_ip_map eng))\<rparr>"
proof -
  obtain item r where i: "packet_items net env ctx = [item]" "item_response item = Some r"
    and r: "domain_name r = dotted ls" "policy_key r = key" "ip_family r = AF_INET \<and> 4 \<le> length (resolved_ip_raw r)
      \<or> ip_family r = AF_INET6 \<and> 16 \<le> length (resolved_ip_raw r)"
    by (rule one_answer_item [OF assms(1-7)])
  have "snd (update ins r eng) = eng\<lparr>allowed_ip_map := snd (ins key 0 0 (allowed_ip_map eng))\<rparr>"
    using update_address [OF _ r(3), of eng ins] assms(8) r(1,2) by (simp split: prod.split sum.split)
  then show ?thesis by (simp add: handle_packet_def deliver_def i)
qed

text \<open>When the engine is handed the response of such a packet, the address is entered for good, unless
  the map refuses it.\<close>

lemma observed_opens:
  assumes "bpf_hash ins lookup" and "obs_update W = update ins" and "behaviour W \<sigma> lab"
    and "Observed r \<in> set (lab k)" and "domain_name r \<in> allowed_domains (observer (\<sigma> 0))"
    and "ip_family r = AF_INET \<and> 4 \<le> length (resolved_ip_raw r)
      \<or> ip_family r = AF_INET6 \<and> 16 \<le> length (resolved_ip_raw r)"
  shows "(\<exists>e. fst (ins (policy_key r) 0 0 (allowed_ip_map (observer (\<sigma> k)))) = Inl e)
    \<or> (\<forall>j>k. lookup (allowed_ip_map (observer (\<sigma> j))) (policy_key r) = Some 0)"
proof (cases rule: insert_cases [of ins "policy_key r" 0 0 "allowed_ip_map (observer (\<sigma> k))"])
  case (ok m)
  have step: "step W (\<sigma> k) (lab k) (\<sigma> (Suc k))"
    using assms(3,4) unfolding behaviour_def by (metis empty_iff list.set(1))
  have dom: "allowed_domains (observer (\<sigma> k)) = allowed_domains (observer (\<sigma> 0))"
    unfolding observer_runs [OF behaviour_runs [OF assms(3), of k], unfolded assms(2)] by (rule fold_update_domains)
  have "observer (\<sigma> (Suc k)) = (observer (\<sigma> k))\<lparr>allowed_ip_map := m\<rparr>"
    using observed_step [OF step assms(4)] update_address [OF _ assms(6), of "observer (\<sigma> k)" ins] dom assms(2,5) ok
    by simp
  then have here: "lookup (allowed_ip_map (observer (\<sigma> (Suc k)))) (policy_key r) = Some 0"
    using bpf_hash_ok [OF assms(1) ok] by simp
  have "lookup (allowed_ip_map (observer (\<sigma> j))) (policy_key r) = Some 0" if j: "Suc k \<le> j" for j
  proof -
    obtain tr where "runs W (\<sigma> (Suc k)) tr (\<sigma> j)" by (rule behaviour_between [OF assms(3) j])
    then have "observer (\<sigma> j) = fold (\<lambda>r e. snd (update ins r e)) (observed tr) (observer (\<sigma> (Suc k)))"
      using observer_runs assms(2) by metis
    then show ?thesis using fold_update_keeps [OF assms(1) here] by simp
  qed
  then show ?thesis by (simp add: Suc_le_eq)
qed simp

text \<open>In a fair run the item of such a packet, once submitted, has this effect, unless it is dropped.\<close>

lemma allowed_response_eventually_opens:
  assumes "net_ok net" and "ctx_ok ctx" and "env_ok env" and "reserve env = Some stale"
    and "dns_response net (packet ctx) = Some d"
    and "one_answer_msg (take 512 (dp_payload d)) ls a" and "key = (if length a = 4 then from_ipv4 a else from_ipv6 a)"
    and "dotted ls \<in> allowed_domains eng" and "bpf_hash ins lookup"
    and "assembly_processing_topology conv mkfd raw_channel dns_channel f ebpf_map eng = Inr s0"
    and "channel_ok (raw_ops W) CHANNEL_CAPACITY v1" and "channel_ok (dns_ops W) CHANNEL_CAPACITY v2"
    and "v1 (raw_channel CHANNEL_CAPACITY) = empty_view" and "v2 (dns_channel CHANNEL_CAPACITY) = empty_view"
    and "async_fd_ok F view seen" and "registered view s0 f0"
    and "obs_update W = update ins" and "open_log W"
    and "appends (log_write W) content" and "progress (log_write W) rank"
    and "\<rho> 0 = loop_init s0 f0" and "loop_behaviour F W \<rho> lab" and "\<forall>A. loop_fair A F W \<rho>"
    and "\<forall>n. list_all (from_packet net) (ring s0 @ submitted (trace_upto lab n))"
    and "item \<in> set (packet_items net env ctx)" and "Kernel item \<in> set (lab i)"
  shows "\<exists>k>i. DropRaw item \<in> set (lab k) \<and> length (queue (v1 (raw_chan (fst (\<rho> k))))) = 1000
    \<or> (\<exists>r. item_response item = Some r \<and> Observed r \<in> set (lab k))
      \<and> ((\<exists>e. fst (ins key 0 0 (allowed_ip_map (observer (fst (\<rho> k))))) = Inl e)
        \<or> (\<forall>j>k. lookup (allowed_ip_map (observer (fst (\<rho> j)))) key = Some 0))"
proof -
  have st: "started v1 v2 s0" using assms(10,13,14) by (rule assembly_started)
  have ok: "\<forall>n. list_all item_ok (ring s0 @ submitted (trace_upto lab n))"
    using assms(24) from_packet_ok [OF assms(1)] by (simp add: list_all_iff)
  note live = loop_live [OF assms(11,12) st assms(15-23) ok]
  obtain it r where i: "packet_items net env ctx = [it]" "item_response it = Some r"
    and r: "domain_name r = dotted ls" "policy_key r = key" "ip_family r = AF_INET \<and> 4 \<le> length (resolved_ip_raw r)
      \<or> ip_family r = AF_INET6 \<and> 16 \<le> length (resolved_ip_raw r)"
    by (rule one_answer_item [OF assms(1-7)])
  have it: "item = it" using assms(25) i(1) by simp
  have "domain_name r \<in> allowed_domains (observer ((fst \<circ> \<rho>) 0))"
    using assms(8,21) r(1) assembly_initial(1) [OF assms(10)] by simp
  note opens = observed_opens [OF assms(9,17) live(2) _ this r(3), unfolded r(2) comp_def]
  show ?thesis
  proof (cases rule: item_through [OF live assms(26) i(2) [folded it]])
    case (1 k)
    then show ?thesis by (intro exI [of _ k]) (simp add: CHANNEL_CAPACITY_def)
  next
    case (2 k)
    with opens [of k] i(2) it show ?thesis by (intro exI [of _ k]) simp
  next
    case (3 k j)
    with opens [of k] i(2) it show ?thesis by (intro exI [of _ k]) simp
  qed
qed

text \<open>The packet of the witnesses: the sample message, for an engine that allows its domain.\<close>

definition open_engine :: "(RawIpAddr \<times> u8) list FqdnPolicyEngine" where
  "open_engine = \<lparr>allowed_ip_map = [], allowed_domains = {''ab.c''}\<rparr>"

lemma sample_packet_msg:
  fixes dp
  defines "dp \<equiv> \<lparr>dp_src = from_ipv4 [8, 8, 8, 8], dp_dst = from_ipv4 [10, 0, 0, 2], dp_src_port = 53,
    dp_dst_port = 40000, dp_payload = sample_msg\<rparr>"
  shows "ctx_ok (sample_ctx (udp_packet sample_msg))" "reserve sample_env = Some default_RawDnsEvent"
    "dns_response sample_net (packet (sample_ctx (udp_packet sample_msg))) = Some dp"
    "one_answer_msg (take 512 (dp_payload dp)) [[97, 98], [99]] [1, 2, 3, 4]"
    "dotted [[97, 98], [99]] \<in> allowed_domains open_engine"
    "from_ipv4 [1, 2, 3, 4] = (if length [1, 2, 3, 4 :: u8] = 4 then from_ipv4 [1, 2, 3, 4] else from_ipv6 [1, 2, 3, 4])"
    "list_insert (from_ipv4 [1, 2, 3, 4]) 0 0 (allowed_ip_map open_engine) = (Inr (), [(from_ipv4 [1, 2, 3, 4], 0)])"
proof -
  show "ctx_ok (sample_ctx (udp_packet sample_msg))" using sample_msg_ok(3) by (intro udp_packet_ctx_ok) simp
  show "reserve sample_env = Some default_RawDnsEvent" by (simp add: sample_env_def)
  show "dns_response sample_net (packet (sample_ctx (udp_packet sample_msg))) = Some dp"
    using udp_packet_response [OF sample_msg_ok(2)] by (simp add: sample_ctx_def dp_def)
qed (simp_all add: dp_def sample_msg_ok open_engine_def list_insert_def)

text \<open>Its arrival at the daemon after start-up, and a fair run that begins with it.\<close>

lemma sample_traffic:
  obtains item y where "packet_items sample_net sample_env (sample_ctx (udp_packet sample_msg)) = [item]"
    and "traffic sample_net sample_fd sample_world (loop_init (sample_start\<lparr>observer := eng\<rparr>) idle)
      [(sample_ctx (udp_packet sample_msg), sample_env)] [Kernel item] y"
proof -
  note s = sample_packet_msg
  let ?x = "loop_init (sample_start\<lparr>observer := eng\<rparr>) idle"
  obtain item where item: "packet_items sample_net sample_env (sample_ctx (udp_packet sample_msg)) = [item]"
    by (rule one_answer_item [OF sample_net_ok s(1) sample_env_ok s(2-4,6)])
  obtain y where step: "loop_step sample_fd sample_world ?x [Kernel item] y"
    using loop_submit [of "sample_start\<lparr>observer := eng\<rparr>" True] unfolding loop_init_def by blast
  have room: "reserve sample_env = None \<longleftrightarrow> \<not> ring_room (fst ?x)" by (simp add: s(2) ring_room_iff sample_ring)
  show ?thesis
    by (rule that [OF item]) (use traffic_event [OF traffic_start s(1) sample_env_ok room item step] in simp)
qed

lemma sample_start_same: "sample_start\<lparr>observer := observer sample_start\<rparr> = sample_start"
  by simp

lemma sample_arrival:
  obtains \<rho> ev i where "\<rho> 0 = loop_init (sample_start\<lparr>observer := eng\<rparr>) idle"
    and "traffic_behaviour sample_net sample_fd sample_world \<rho> ev" and "\<forall>A. loop_fair A sample_fd sample_world \<rho>"
    and "snd (ev i) = Some (sample_ctx (udp_packet sample_msg), sample_env)"
proof -
  have st: "started (\<lambda>c. c) (\<lambda>c. c) (fst (loop_init (sample_start\<lparr>observer := eng\<rparr>) idle))"
    using sample_started by (simp add: started_def)
  obtain item y where t: "traffic sample_net sample_fd sample_world (loop_init (sample_start\<lparr>observer := eng\<rparr>) idle)
      [(sample_ctx (udp_packet sample_msg), sample_env)] [Kernel item] y" by (rule sample_traffic)
  obtain \<rho> ev tr' z where b: "traffic_behaviour sample_net sample_fd sample_world \<rho> ev"
      "\<rho> 0 = loop_init (sample_start\<lparr>observer := eng\<rparr>) idle" "\<forall>A. loop_fair A sample_fd sample_world \<rho>"
      "begins_with \<rho> ev [(sample_ctx (udp_packet sample_msg), sample_env)] ([Kernel item] @ tr') z"
    using traffic_fair_extension [OF sample_world_ok sample_fd_ok st t] by blast
  from b(4) obtain n where "arrivals ev n = [(sample_ctx (udp_packet sample_msg), sample_env)]"
    unfolding begins_with_def by blast
  then have "(sample_ctx (udp_packet sample_msg), sample_env) \<in> set (arrivals ev n)" by simp
  then show ?thesis using arrivals_set that [OF b(2,1,3)] by blast
qed

lemma sample_run_ok:
  "assembly_processing_topology Inr Inr (\<lambda>_. empty_view) (\<lambda>_. empty_view) (0, []) [] eng = Inr (sample_start\<lparr>observer := eng\<rparr>)"
  "registered (\<lambda>v. v) (sample_start\<lparr>observer := eng\<rparr>) idle"
  "appends (log_write sample_world) snd" "progress (log_write sample_world) fst"
  "list_all (from_packet sample_net) (ring (sample_start\<lparr>observer := eng\<rparr>))"
  by (simp_all add: assembly_processing_topology_def sample_start_def registered_def sample_world_simps sample_disk_ok)

text \<open>The declarations of the maps, on both sides.\<close>

lemmas map_decls = DNS_EVENTS_PIPE_def ALLOWED_IP_MAP_def RING_BUF_NAME_def HASH_MAP_NAME_def size_RawDnsEvent

section \<open>Properties\<close>

text \<open>C17. The contract between the kernel and the daemon: whatever the packet, the classifier puts at
  most one item into the ring, it has the size the reader expects, the reader's unaligned read gives
  back the event that was submitted, and the parser does not panic on it. The maps have the names the
  daemon asks for, and the ring holds 100000 events with their headers of eight bytes, the ten seconds
  it is sized for.\<close>

theorem kernel_user_contract:
  assumes "net_ok net" and "ctx_ok ctx" and "env_ok env"
  shows "length (packet_items net env ctx) \<le> 1
    \<and> map event_of_bytes (packet_items net env ctx) = events_of net env (packet ctx)
    \<and> list_all (\<lambda>item. length item = size_of RawDnsEvent_layout \<and> item_ok item
        \<and> fst (parse_dns_into (event_of_bytes item) slot) \<noteq> Panic) (packet_items net env ctx)
    \<and> map_name DNS_EVENTS_PIPE = RING_BUF_NAME \<and> map_name ALLOWED_IP_MAP = HASH_MAP_NAME
    \<and> 100000 * (size_of RawDnsEvent_layout + 8) \<le> max_entries DNS_EVENTS_PIPE"
proof (cases rule: events_of_cases [of net env "packet ctx"])
  case none
  then show ?thesis by (simp add: packet_items_eq [OF assms] map_decls)
next
  case (event d stale)
  note e = event_for_item [OF assms(1,3) event(1,2)]
  have "event_ok (event_for d (ktime_end env) stale)" using e(1,2) by (simp add: event_ok_def)
  with e event show ?thesis
    by (simp add: packet_items_eq [OF assms] raw_event.length_image raw_event.of_to size_RawDnsEvent
        event_ok_parse(1) map_decls)
qed

theorem kernel_user_contract_witness:
  "length (packet_items sample_net sample_env (sample_ctx sample_packet)) \<le> 1
   \<and> list_all item_ok (packet_items sample_net sample_env (sample_ctx sample_packet))"
proof -
  from kernel_user_contract [OF sample_net_ok sample_packet_ok(1) sample_env_ok] show ?thesis
    by (simp add: list_all_iff)
qed

text \<open>C2. From packets to the log: let packets arrive in any number and the tasks run in any interleaving.
  The ring never holds more than the 114912 events that fit its declared size. What is logged, and what
  the policy engine is shown, is in order a subsequence of what the packets should leave, a function of
  the packets alone; nothing is invented, repeated or mixed up. And if no channel was full, nothing is in
  flight and at most 114912 packets have arrived (so that even a reader that stood still cannot have made
  the ring overflow), it is all of it.\<close>

theorem packets_to_log:
  assumes "net_ok net"
    and "assembly_processing_topology conv mkfd raw_channel dns_channel f ebpf_map obs = Inr s0"
    and "channel_ok (raw_ops W) CHANNEL_CAPACITY v1" and "channel_ok (dns_ops W) CHANNEL_CAPACITY v2"
    and "v1 (raw_channel CHANNEL_CAPACITY) = empty_view" and "v2 (dns_channel CHANNEL_CAPACITY) = empty_view"
    and "ring s0 = []" and "traffic net F W (loop_init s0 f0) ps tr (s, q)"
  shows "length (ring s) \<le> 114912
    \<and> subseq (logged tr) (packet_responses net ps) \<and> subseq (observed tr) (packet_responses net ps)
    \<and> (length ps \<le> 114912 \<and> no_drops tr \<and> ring s = [] \<and> queue (v1 (raw_chan s)) = [] \<and> queue (v2 (dns_chan s)) = []
       \<longrightarrow> logged tr = packet_responses net ps \<and> observed tr = packet_responses net ps)"
proof -
  have "runs W s0 tr s" using loop_runs_refines [OF traffic_runs [OF assms(8)]] by simp
  moreover have "started v1 v2 s0" using assms(2,5,6) by (rule assembly_started)
  ultimately have "flow_inv W v1 v2 s0 tr s" using runs_inv [OF assms(3,4)] by blast
  then have log: "in_order tr (logged tr @ queue (v2 (dns_chan s)) @ event_responses (queue (v1 (raw_chan s)))
        @ responses (ring s)) (responses (submitted tr))"
    and obs: "in_order tr (observed tr @ event_responses (queue (v1 (raw_chan s))) @ responses (ring s)) (responses (submitted tr))"
    using assms(7) by (simp_all add: flow_inv_def)
  have all: "subseq (responses (submitted tr)) (packet_responses net ps)"
      "length ps \<le> 114912 \<Longrightarrow> responses (submitted tr) = packet_responses net ps"
    using traffic_responses [OF assms(1) _ assms(8)] assms(7) by simp_all
  have "length (ring s) \<le> 114912" using traffic_ring [OF assms(1) _ assms(8)] assms(7) by simp
  moreover have "subseq (logged tr) (packet_responses net ps)" "subseq (observed tr) (packet_responses net ps)"
    using in_order_front [OF log] in_order_front [OF obs] all(1) subseq_order.order_trans by blast+
  ultimately show ?thesis using log obs all by (auto simp: in_order_def)
qed

theorem packets_to_log_witness:
  "\<exists>item tr s q. packet_items sample_net sample_env (sample_ctx (udp_packet sample_msg)) = [item]
    \<and> traffic sample_net sample_fd sample_world (loop_init sample_start idle)
        [(sample_ctx (udp_packet sample_msg), sample_env)] ([Kernel item] @ tr) (s, q)
    \<and> subseq (logged ([Kernel item] @ tr))
        (packet_responses sample_net [(sample_ctx (udp_packet sample_msg), sample_env)])
    \<and> at_rest sample_fd sample_world (s, q)"
proof -
  let ?p = "(sample_ctx (udp_packet sample_msg), sample_env)"
  obtain item y where item: "packet_items sample_net sample_env (sample_ctx (udp_packet sample_msg)) = [item]"
      and t: "traffic sample_net sample_fd sample_world (loop_init sample_start idle) [?p] [Kernel item] y"
    by (rule sample_traffic [of "observer sample_start", unfolded sample_start_same])
  have "runs sample_world sample_start [Kernel item] (fst y)" using loop_runs_refines [OF traffic_runs [OF t]] by simp
  then have "task_inv (\<lambda>c. c) (\<lambda>c. c) (fst y)" using runs_inv [OF sample_world_ok sample_started] by blast
  from drains_to_rest [OF sample_world_ok sample_fd_ok this] obtain n tr x where
    d: "loop_drains sample_fd sample_world y n tr x" "at_rest sample_fd sample_world x" by blast
  have run: "traffic sample_net sample_fd sample_world (loop_init sample_start idle) [?p] ([Kernel item] @ tr) (fst x, snd x)"
    using traffic_drains [OF t d(1)] by simp
  from packets_to_log [OF sample_net_ok sample_assembly sample_world_ok refl refl sample_ring run] item run d(2)
  show ?thesis by (intro exI [of _ item] exI [of _ tr] exI [of _ "fst x"] exI [of _ "snd x"]) simp
qed

text \<open>C3. The books balance: over every interleaving of packets and tasks each response that a packet carries
  (or that the ring held at the start) is, with its multiplicity, in exactly one place. It was refused
  because the ring was full when the packet came, it is in the ring or the first channel, it was dropped
  in front of that channel, or it was shown to the policy engine; and what the engine was shown was
  dropped in front of the second channel, is in that channel, or is logged. Nothing is lost anywhere else
  and nothing is counted twice.\<close>

theorem packet_balance:
  assumes "net_ok net"
    and "assembly_processing_topology conv mkfd raw_channel dns_channel f ebpf_map obs = Inr s0"
    and "channel_ok (raw_ops W) CHANNEL_CAPACITY v1" and "channel_ok (dns_ops W) CHANNEL_CAPACITY v2"
    and "v1 (raw_channel CHANNEL_CAPACITY) = empty_view" and "v2 (dns_channel CHANNEL_CAPACITY) = empty_view"
    and "traffic net F W (loop_init s0 f0) ps tr (s, q)"
  shows "mset (responses (ring s0)) + mset (packet_responses net ps)
      = mset (packet_responses net (refused ps)) + mset (dropped_raw tr) + mset (observed tr)
        + mset (event_responses (queue (v1 (raw_chan s)))) + mset (responses (ring s))
    \<and> mset (observed tr) = mset (dropped_dns tr) + mset (logged tr) + mset (queue (v2 (dns_chan s)))"
proof -
  have "runs W s0 tr s" using loop_runs_refines [OF traffic_runs [OF assms(7)]] by simp
  moreover have "started v1 v2 s0" using assms(2,5,6) by (rule assembly_started)
  ultimately have "mset (responses (ring s0 @ submitted tr)) = mset (dropped_raw tr) + mset (observed tr) + unparsed v1 s
      \<and> mset (observed tr) = mset (dropped_dns tr) + mset (logged tr) + unwritten v2 s"
    using balance_runs [OF assms(3,4)] by blast
  with traffic_balance [OF assms(1,7)]
  show ?thesis by (simp add: unparsed_def unwritten_def ac_simps)
qed

theorem packet_balance_witness:
  "\<exists>item s q. traffic sample_net sample_fd sample_world (loop_init sample_start idle)
      [(sample_ctx (udp_packet sample_msg), sample_env)] [Kernel item] (s, q)
    \<and> mset (packet_responses sample_net [(sample_ctx (udp_packet sample_msg), sample_env)])
      = mset (event_responses (queue (raw_chan s))) + mset (responses (ring s))"
proof -
  let ?p = "(sample_ctx (udp_packet sample_msg), sample_env)"
  obtain item y where t: "traffic sample_net sample_fd sample_world (loop_init sample_start idle) [?p] [Kernel item] (fst y, snd y)"
    by (rule sample_traffic [of "observer sample_start", unfolded sample_start_same]) simp
  have "refused [?p] = []" by (simp add: refused_def sample_env_def)
  with packet_balance [OF sample_net_ok sample_assembly sample_world_ok refl refl t] t show ?thesis
    by (intro exI [of _ item] exI [of _ "fst y"] exI [of _ "snd y"]) (simp add: sample_ring packet_responses_snoc)
qed

text \<open>C5. End to end, the intended path in full: a packet carries a DNS response whose first 512 payload bytes
  (what the kernel program copies) hold the question for an allowed domain and one address record. If
  the ring has room for its event and the kernel map accepts the address, the daemon adds exactly that
  address to the allow map and changes nothing else in it; if the ring is full or the map refuses the
  address, the allow map stays as it is.\<close>

theorem allowed_response_opens:
  assumes "net_ok net" and "ctx_ok ctx" and "env_ok env"
    and "dns_response net (packet ctx) = Some d"
    and "one_answer_msg (take 512 (dp_payload d)) ls a"
    and "key = (if length a = 4 then from_ipv4 a else from_ipv6 a)" and "dotted ls \<in> allowed_domains eng"
    and "bpf_hash ins lookup"
  shows "lookup (allowed_ip_map (handle_packet net env ctx ins eng)) =
    (if reserve env \<noteq> None \<and> fst (ins key 0 0 (allowed_ip_map eng)) = Inr ()
     then (lookup (allowed_ip_map eng))(key \<mapsto> 0) else lookup (allowed_ip_map eng))"
proof (cases "reserve env")
  case None
  then show ?thesis using assms(4) by (simp add: handle_packet_def packet_items_eq [OF assms(1-3)] events_of_def)
next
  case (Some stale)
  then have "handle_packet net env ctx ins eng = eng\<lparr>allowed_ip_map := snd (ins key 0 0 (allowed_ip_map eng))\<rparr>"
    using assms(1-3,4-7) by (intro handle_one_answer)
  then show ?thesis
    using Some bpf_hash_fail [OF assms(8)] bpf_hash_ok [OF assms(8)]
    by (cases rule: insert_cases [of ins key 0 0 "allowed_ip_map eng"]) simp_all
qed

theorem allowed_response_opens_witness:
  "map_of (allowed_ip_map (handle_packet sample_net sample_env (sample_ctx (udp_packet sample_msg)) list_insert open_engine))
     = [from_ipv4 [1, 2, 3, 4] \<mapsto> 0]"
proof -
  note s = sample_packet_msg
  show ?thesis
    using allowed_response_opens [where ins = list_insert and lookup = map_of,
        OF sample_net_ok s(1) sample_env_ok s(3,4,6,5) bpf_hash_list] s(2,7) by (simp add: open_engine_def)
qed

text \<open>C4. And only that path: if handling a packet changes what the kernel's allow map says about any
  key, then the packet is a UDP datagram from port 53 whose first 512 payload bytes hold a header and
  a well-formed question name, and the dotted form of that name is allowed.\<close>

theorem only_allowed_names_open:
  assumes "net_ok net" and "ctx_ok ctx" and "env_ok env" and "bpf_hash ins lookup"
    and "lookup (allowed_ip_map (handle_packet net env ctx ins eng)) k \<noteq> lookup (allowed_ip_map eng) k"
  shows "\<exists>d hdr ls rest. dns_response net (packet ctx) = Some d \<and> dp_src_port d = 53
    \<and> take 512 (dp_payload d) = hdr @ qname_wire ls @ rest \<and> length hdr = 12
    \<and> valid_qname ls \<and> dotted ls \<in> allowed_domains eng"
proof (cases rule: events_of_cases [of net env "packet ctx"])
  case none
  then show ?thesis using assms(5) by (simp add: handle_packet_def packet_items_eq [OF assms(1-3)])
next
  case (event d stale)
  let ?ev = "event_for d (ktime_end env) stale"
  note e = event_for_item [OF assms(1,3) event(1,2)]
  have step: "handle_packet net env ctx ins eng = deliver ins (event_to_bytes ?ev) eng"
    by (simp add: handle_packet_def packet_items_eq [OF assms(1-3)] event(3))
  then obtain r where r: "event_response ?ev = Some r"
      and ch: "lookup (allowed_ip_map (snd (update ins r eng))) k \<noteq> lookup (allowed_ip_map eng) k"
    using assms(5) by (auto simp: deliver_def e(6) split: option.splits)
  have run: "parse_dns_into ?ev default_DnsResponse = (Ok (), r)"
    using r by (auto simp: event_response_def split: prod.splits outcome.splits)
  obtain q dn where q: "12 \<le> unat (ev_payload_len ?ev)" "parse_qname (drop 12 (live_payload ?ev)) [] = (Ok q, dn)"
      "same_frame ((base_slot ?ev)\<lparr>domain_name := dn\<rparr>) r"
    by (rule parse_dns_ok_run [OF e(1) run])
  obtain ls rest where ls: "drop 12 (live_payload ?ev) = qname_wire ls @ rest" "valid_qname ls" "dn = dotted ls"
    by (rule parse_qname_sound [OF q(2)])
  have "domain_name r \<in> allowed_domains eng"
    using ch update_other_domain [of r eng ins] by (cases "domain_name r \<in> allowed_domains eng") simp_all
  moreover have "domain_name r = dotted ls" using q(3) ls(3) by (simp add: same_frame_def)
  moreover have "take 512 (dp_payload d) = take 12 (live_payload ?ev) @ qname_wire ls @ rest"
    using ls(1) e(3) by (metis append_take_drop_id)
  moreover have "length (take 12 (live_payload ?ev)) = 12" using q(1) e(2,3) by simp
  moreover have "dp_src_port d = 53"
    using event(1) by (auto simp: dns_response_def udp_response_def Let_def
        split: if_splits option.splits EtherType.splits)
  ultimately show ?thesis
    using event(1) ls(2)
    by (intro exI [of _ d] exI [of _ "take 12 (live_payload ?ev)"] exI [of _ ls] exI [of _ rest]) simp
qed

theorem only_allowed_names_open_witness:
  "\<exists>d hdr ls rest. dns_response sample_net (udp_packet sample_msg) = Some d
     \<and> take 512 (dp_payload d) = hdr @ qname_wire ls @ rest \<and> dotted ls = ''ab.c''"
proof -
  note s = sample_packet_msg
  have "map_of (allowed_ip_map (handle_packet sample_net sample_env (sample_ctx (udp_packet sample_msg)) list_insert
      open_engine)) (from_ipv4 [1, 2, 3, 4]) \<noteq> map_of (allowed_ip_map open_engine) (from_ipv4 [1, 2, 3, 4])"
    using handle_one_answer [where ins = list_insert, OF sample_net_ok s(1) sample_env_ok s(2-4,6,5)] s(7)
    by (simp add: open_engine_def)
  from only_allowed_names_open [OF sample_net_ok s(1) sample_env_ok bpf_hash_list this] show ?thesis
    by (auto simp: open_engine_def sample_ctx_def)
qed

text \<open>C23. The allow map over a run: between any two moments, whatever the interleaving, no address
  leaves it, it never holds more than the 1024 entries the object declares, and once it holds that many
  it never changes again: an address resolved later is refused for good.\<close>

theorem allow_map_saturates:
  assumes "bounded_hash (max_entries ALLOWED_IP_MAP) ins lookup" and "obs_update W = update ins" and "runs W s tr t"
    and "D = dom (lookup (allowed_ip_map (observer s)))" and "D' = dom (lookup (allowed_ip_map (observer t)))"
    and "finite D" and "card D \<le> 1024"
  shows "D \<subseteq> D' \<and> card D' \<le> 1024 \<and> (card D = 1024 \<longrightarrow> D' = D)"
proof -
  have "saturates 1024 D D'"
    using fold_update_saturates [OF assms(1), of "observer s" "observed tr"] observer_runs [OF assms(3)] assms(2,4,5)
    by (simp add: ALLOWED_IP_MAP_def)
  then show ?thesis using assms(6,7) by (simp add: saturates_def)
qed

theorem allow_map_saturates_witness:
  "\<exists>r s. runs sample_world sample_start [Kernel sample_item, Observed r, Logged r] s
    \<and> card (dom (map_of (allowed_ip_map (observer s)))) \<le> 1024"
proof (rule sample_run)
  fix r s
  assume run: "runs sample_world sample_start [Kernel sample_item, Observed r, Logged r] s"
  have b: "bounded_hash (max_entries ALLOWED_IP_MAP) list_insert map_of" by (simp add: ALLOWED_IP_MAP_def bounded_list)
  have e: "allowed_ip_map (observer sample_start) = []" by (simp add: sample_start_def sample_engine_def)
  from allow_map_saturates [OF b sample_world_simps(1) run refl refl] run show ?thesis
    by (intro exI [of _ r] exI [of _ s]) (simp add: e)
qed

text \<open>C8. From the wire to the log, for ever: packets go on arriving and the classifier handles each when it
  comes; the reader's loop, the parser and the writer are scheduled fairly. Every packet that carries a
  response is eventually shown to the policy engine and then eventually logged, as a function of its
  bytes and the time alone; unless it arrives when the 64 MiB of the ring are taken by 114912 items, or
  is dropped at a moment when the channel in front of it holds 1000 messages.\<close>

theorem packet_eventually_logged:
  assumes "net_ok net"
    and "assembly_processing_topology conv mkfd raw_channel dns_channel f ebpf_map eng = Inr s0"
    and "channel_ok (raw_ops W) CHANNEL_CAPACITY v1" and "channel_ok (dns_ops W) CHANNEL_CAPACITY v2"
    and "v1 (raw_channel CHANNEL_CAPACITY) = empty_view" and "v2 (dns_channel CHANNEL_CAPACITY) = empty_view"
    and "async_fd_ok F view seen" and "registered view s0 f0"
    and "obs_update W = update ins" and "open_log W"
    and "appends (log_write W) content" and "progress (log_write W) rank"
    and "list_all (from_packet net) (ring s0)"
    and "\<rho> 0 = loop_init s0 f0" and "traffic_behaviour net F W \<rho> ev" and "\<forall>A. loop_fair A F W \<rho>"
    and "snd (ev i) = Some (ctx, env)" and "packet_response net (ktime_end env) (packet ctx) = Some r"
  shows "114912 \<le> length (ring (fst (\<rho> i)))
    \<or> (\<exists>k>i. (\<exists>item. packet_items net env ctx = [item] \<and> DropRaw item \<in> set (fst (ev k)))
              \<and> length (queue (v1 (raw_chan (fst (\<rho> k))))) = 1000
        \<or> Observed r \<in> set (fst (ev k))
          \<and> (DropDns r \<in> set (fst (ev k)) \<and> length (queue (v2 (dns_chan (fst (\<rho> k))))) = 1000
             \<or> (\<exists>j>k. Logged r \<in> set (fst (ev j)))))"
proof -
  note run = assms(15) and a = arrival [OF assms(15,17)]
  show ?thesis
  proof (cases rule: packet_items_cases [OF assms(1) a(1,2)])
    case 1
    then show ?thesis using assms(18) by simp
  next
    case 2
    then show ?thesis using a(3) by blast
  next
    case (3 item)
    have k: "Kernel item \<in> set ((fst \<circ> ev) i)" and r: "item_response item = Some r"
      using a(4) [OF 3(1)] 3(2) assms(18) by simp_all
    note ok = traffic_items_ok [OF assms(1,13) run]
    from eventually_logged [OF assms(2-12,14) traffic_behaviour_loop [OF run] assms(16) ok k r] 3(1) show ?thesis
      by auto
  qed
qed

theorem packet_eventually_logged_witness:
  "\<exists>\<rho> ev i r. traffic_behaviour sample_net sample_fd sample_world \<rho> ev
    \<and> snd (ev i) = Some (sample_ctx (udp_packet sample_msg), sample_env)
    \<and> (114912 \<le> length (ring (fst (\<rho> i))) \<or> (\<exists>k>i. length (queue (raw_chan (fst (\<rho> k)))) = 1000 \<or> Observed r \<in> set (fst (ev k))))"
proof -
  note s = sample_packet_msg and ok = sample_run_ok
  obtain item r where "packet_items sample_net sample_env (sample_ctx (udp_packet sample_msg)) = [item]"
      "item_response item = Some r"
    by (rule one_answer_item [OF sample_net_ok s(1) sample_env_ok s(2-4,6)])
  then have r: "packet_response sample_net (ktime_end sample_env) (packet (sample_ctx (udp_packet sample_msg))) = Some r"
    by (cases rule: packet_items_cases [OF sample_net_ok s(1) sample_env_ok]) simp_all
  obtain \<rho> ev i where b: "\<rho> 0 = loop_init (sample_start\<lparr>observer := open_engine\<rparr>) idle"
      "traffic_behaviour sample_net sample_fd sample_world \<rho> ev" "\<forall>A. loop_fair A sample_fd sample_world \<rho>"
      "snd (ev i) = Some (sample_ctx (udp_packet sample_msg), sample_env)" by (rule sample_arrival)
  from packet_eventually_logged [OF sample_net_ok ok(1) sample_world_ok refl refl sample_fd_ok ok(2)
      sample_world_simps(1,2) ok(3-5) b r] b(2,4) show ?thesis by blast
qed

text \<open>C6. End to end, for ever: packets go on arriving, the tasks are scheduled fairly, the commit log can be
  opened and its file makes progress. If a packet arrives whose first 512 payload bytes hold a response
  with one address record for an allowed domain, then the engine is eventually handed that response and
  the address is in the kernel's allow map from then on; unless the ring is full when the packet arrives,
  its item is dropped at a moment when the reader's channel holds 1000 messages, or the kernel map
  refuses the address at the very insertion the response causes.\<close>

theorem allowed_packet_eventually_opens:
  assumes "net_ok net"
    and "assembly_processing_topology conv mkfd raw_channel dns_channel f ebpf_map eng = Inr s0"
    and "channel_ok (raw_ops W) CHANNEL_CAPACITY v1" and "channel_ok (dns_ops W) CHANNEL_CAPACITY v2"
    and "v1 (raw_channel CHANNEL_CAPACITY) = empty_view" and "v2 (dns_channel CHANNEL_CAPACITY) = empty_view"
    and "async_fd_ok F view seen" and "registered view s0 f0"
    and "obs_update W = update ins" and "open_log W"
    and "appends (log_write W) content" and "progress (log_write W) rank"
    and "list_all (from_packet net) (ring s0)"
    and "\<rho> 0 = loop_init s0 f0" and "traffic_behaviour net F W \<rho> ev" and "\<forall>A. loop_fair A F W \<rho>"
    and "snd (ev i) = Some (ctx, env)" and "dns_response net (packet ctx) = Some d"
    and "one_answer_msg (take 512 (dp_payload d)) ls a"
    and "key = (if length a = 4 then from_ipv4 a else from_ipv6 a)"
    and "dotted ls \<in> allowed_domains eng" and "bpf_hash ins lookup"
  shows "114912 \<le> length (ring (fst (\<rho> i)))
    \<or> (\<exists>k>i. (\<exists>item. packet_items net env ctx = [item] \<and> DropRaw item \<in> set (fst (ev k)))
              \<and> length (queue (v1 (raw_chan (fst (\<rho> k))))) = 1000
        \<or> (\<exists>r. packet_response net (ktime_end env) (packet ctx) = Some r \<and> Observed r \<in> set (fst (ev k)))
          \<and> ((\<exists>e. fst (ins key 0 0 (allowed_ip_map (observer (fst (\<rho> k))))) = Inl e)
            \<or> (\<forall>j>k. lookup (allowed_ip_map (observer (fst (\<rho> j)))) key = Some 0)))"
proof (cases "reserve env")
  case None
  then show ?thesis using arrival(3) [OF assms(15,17)] by blast
next
  case (Some stale)
  note run = assms(15) and a = arrival [OF assms(15,17)]
  obtain item where i: "packet_items net env ctx = [item]"
    by (rule one_answer_item [OF assms(1) a(1,2) Some assms(18-20)])
  then have resp: "item_response item = packet_response net (ktime_end env) (packet ctx)"
    by (cases rule: packet_items_cases [OF assms(1) a(1,2)]) simp_all
  have k: "Kernel item \<in> set ((fst \<circ> ev) i)" using a(4) [OF i] by simp
  have mem: "item \<in> set (packet_items net env ctx)" using i by simp
  from allowed_response_eventually_opens [OF assms(1) a(1,2) Some assms(18-22,2-12,14) traffic_behaviour_loop [OF run]
      assms(16) traffic_items [OF assms(13) run] mem k] i resp show ?thesis
    by auto
qed

theorem allowed_packet_eventually_opens_witness:
  "\<exists>\<rho> ev i k. traffic_behaviour sample_net sample_fd sample_world \<rho> ev
    \<and> snd (ev i) = Some (sample_ctx (udp_packet sample_msg), sample_env)
    \<and> (114912 \<le> length (ring (fst (\<rho> i)))
       \<or> i < k \<and> (length (queue (raw_chan (fst (\<rho> k)))) = 1000
          \<or> (\<exists>e. fst (list_insert (from_ipv4 [1, 2, 3, 4]) 0 0 (allowed_ip_map (observer (fst (\<rho> k))))) = Inl e)
          \<or> map_of (allowed_ip_map (observer (fst (\<rho> (Suc k))))) (from_ipv4 [1, 2, 3, 4]) = Some 0))"
proof -
  note s = sample_packet_msg and ok = sample_run_ok
  obtain \<rho> ev i where b: "\<rho> 0 = loop_init (sample_start\<lparr>observer := open_engine\<rparr>) idle"
      "traffic_behaviour sample_net sample_fd sample_world \<rho> ev" "\<forall>A. loop_fair A sample_fd sample_world \<rho>"
      "snd (ev i) = Some (sample_ctx (udp_packet sample_msg), sample_env)" by (rule sample_arrival)
  from allowed_packet_eventually_opens [OF sample_net_ok ok(1) sample_world_ok refl refl sample_fd_ok ok(2)
      sample_world_simps(1,2) ok(3-5) b s(3,4,6,5) bpf_hash_list] b(2,4) lessI show ?thesis by blast
qed

end
